(* ===== verification/SS_Prelude.thy ===== *)
theory SS_Prelude
  imports Main "HOL-Library.Word" "HOL-Library.Sublist"
begin

text \<open>
  Shared vocabulary of the development: C strings and the two conversions the daemon
  uses everywhere (\<open>atoi\<close> and printing with \<open>%d\<close>), the bounds of a C \<open>int\<close>, and
  generic list lemmas.  A C string is a \<open>string\<close> without its terminating NUL byte.
\<close>

section \<open>The C int\<close>

definition INT_MAX :: int where "INT_MAX = 2147483647"

definition INT_MIN :: int where "INT_MIN = - 2147483648"

definition is_int32 :: "int \<Rightarrow> bool" where
  "is_int32 i \<longleftrightarrow> INT_MIN \<le> i \<and> i \<le> INT_MAX"

text \<open>
  Values outside the range of \<open>int\<close> saturate, as \<open>strtol\<close> does on the 32-bit targets
  of the daemon, where \<open>atoi\<close> is \<open>strtol\<close> and \<open>long\<close> has 32 bits.
\<close>

definition sat32 :: "int \<Rightarrow> int" where
  "sat32 i = max INT_MIN (min INT_MAX i)"

lemma sat32_id [simp]: "is_int32 i \<Longrightarrow> sat32 i = i"
  by (simp add: sat32_def is_int32_def)

lemma is_int32_sat32 [simp]: "is_int32 (sat32 i)"
  by (simp add: sat32_def is_int32_def INT_MAX_def INT_MIN_def)

lemma sat32_bounds: "INT_MIN \<le> sat32 i" "sat32 i \<le> INT_MAX"
  by (simp_all add: sat32_def INT_MAX_def INT_MIN_def)

section \<open>Characters, atoi and decimal printing\<close>

definition chr_code :: "char \<Rightarrow> nat" where
  "chr_code c = of_char c"

definition isdigit :: "char \<Rightarrow> bool" where
  "isdigit c \<longleftrightarrow> 48 \<le> chr_code c \<and> chr_code c \<le> 57"

definition isspace :: "char \<Rightarrow> bool" where
  "isspace c \<longleftrightarrow> chr_code c = 32 \<or> 9 \<le> chr_code c \<and> chr_code c \<le> 13"

definition digit_chr :: "nat \<Rightarrow> char" where
  "digit_chr d = char_of (d + 48)"

lemma chr_code_digit_chr [simp]: "d < 10 \<Longrightarrow> chr_code (digit_chr d) = d + 48"
  by (simp add: chr_code_def digit_chr_def)

lemma isdigit_digit_chr [simp]: "d < 10 \<Longrightarrow> isdigit (digit_chr d)"
  by (simp add: isdigit_def)

lemma isdigit_not_isspace: "isdigit c \<Longrightarrow> \<not> isspace c"
  by (auto simp: isdigit_def isspace_def)

fun digits_val :: "int \<Rightarrow> string \<Rightarrow> int" where
  "digits_val acc [] = acc"
| "digits_val acc (c # cs) =
     (if isdigit c then digits_val (acc * 10 + (int (chr_code c) - 48)) cs else acc)"

definition atoi :: "string \<Rightarrow> int" where
  "atoi str =
     (case dropWhile isspace str of
        [] \<Rightarrow> 0
      | c # cs \<Rightarrow>
          if c = CHR ''-'' then sat32 (- digits_val 0 cs)
          else if c = CHR ''+'' then sat32 (digits_val 0 cs)
          else sat32 (digits_val 0 (c # cs)))"

fun show_nat :: "nat \<Rightarrow> string" where
  "show_nat n = (if n < 10 then [digit_chr n] else show_nat (n div 10) @ [digit_chr (n mod 10)])"

declare show_nat.simps [simp del]

definition show_int :: "int \<Rightarrow> string" where
  "show_int i = (if i < 0 then CHR ''-'' # show_nat (nat (- i)) else show_nat (nat i))"

lemma show_nat_digits: "c \<in> set (show_nat n) \<Longrightarrow> isdigit c"
proof (induction n rule: show_nat.induct)
  case (1 n)
  then show ?case
    by (cases "n < 10") (auto simp: show_nat.simps [of n])
qed

lemma show_nat_ne [simp]: "show_nat n \<noteq> []"
  by (subst show_nat.simps) simp

lemma digits_val_append:
  "(\<And>c. c \<in> set xs \<Longrightarrow> isdigit c) \<Longrightarrow> digits_val a (xs @ ys) = digits_val (digits_val a xs) ys"
  by (induction xs arbitrary: a) auto

lemma digits_val_show_nat: "digits_val 0 (show_nat n) = int n"
proof (induction n rule: show_nat.induct)
  case (1 n)
  show ?case
  proof (cases "n < 10")
    case True
    then show ?thesis by (subst show_nat.simps) simp
  next
    case False
    with "1.IH" have ih: "digits_val 0 (show_nat (n div 10)) = int (n div 10)" by simp
    have "digits_val 0 (show_nat n) = digits_val (digits_val 0 (show_nat (n div 10))) [digit_chr (n mod 10)]"
      using False by (subst show_nat.simps) (simp add: digits_val_append show_nat_digits)
    also have "\<dots> = int (n div 10) * 10 + int (n mod 10)"
      by (simp add: ih)
    also have "\<dots> = int n" by presburger
    finally show ?thesis .
  qed
qed

lemma digits_val_stop:
  "(\<And>c. c \<in> set xs \<Longrightarrow> isdigit c) \<Longrightarrow> \<not> isdigit d \<Longrightarrow> digits_val a (xs @ d # ys) = digits_val a xs"
  by (induction xs arbitrary: a) auto

lemma digit_signs:
  "isdigit c \<Longrightarrow> c \<noteq> CHR ''-''" "isdigit c \<Longrightarrow> c \<noteq> CHR ''+''"
  by (auto simp: isdigit_def chr_code_def)

lemma minus_not_space: "\<not> isspace (CHR ''-'')"
  by (simp add: isspace_def chr_code_def)

text \<open>Printing an \<open>int\<close> and reading it back gives the same \<open>int\<close>.\<close>

lemma atoi_show_int [simp]:
  assumes "is_int32 i"
  shows "atoi (show_int i) = i"
proof (cases "i < 0")
  case True
  then have "atoi (show_int i) = sat32 (- digits_val 0 (show_nat (nat (- i))))"
    by (simp add: atoi_def show_int_def minus_not_space)
  with True assms show ?thesis by (simp add: digits_val_show_nat)
next
  case False
  obtain c cs where c: "show_nat (nat i) = c # cs"
    using show_nat_ne [of "nat i"] by (cases "show_nat (nat i)") auto
  then have "isdigit c" using show_nat_digits [of c "nat i"] by simp
  then have "atoi (show_int i) = sat32 (digits_val 0 (show_nat (nat i)))"
    using False c by (simp add: atoi_def show_int_def isdigit_not_isspace digit_signs)
  with False assms show ?thesis by (simp add: digits_val_show_nat)
qed

lemma show_int_inj:
  assumes "show_int i = show_int j" "is_int32 i" "is_int32 j"
  shows "i = j"
  using assms atoi_show_int by metis

lemma is_int32_atoi [simp]: "is_int32 (atoi s)"
  by (auto simp: atoi_def is_int32_def INT_MIN_def INT_MAX_def sat32_def split: list.split)

lemma show_int_hd_digit: "0 \<le> i \<Longrightarrow> \<exists>c cs. show_int i = c # cs \<and> isdigit c"
  using show_nat_ne [of "nat i"] show_nat_digits [of _ "nat i"]
  by (cases "show_nat (nat i)") (auto simp: show_int_def)

lemma show_nat_no_slash: "CHR ''/'' \<notin> set (show_nat n)"
  using show_nat_digits by (fastforce simp: isdigit_def chr_code_def)

lemma show_int_no_slash: "CHR ''/'' \<notin> set (show_int i)"
  by (simp add: show_int_def show_nat_no_slash)

section \<open>Lists\<close>

lemma append_cancel_middle:
  assumes "xs @ c # zs = ys @ c # zs'" "c \<notin> set xs" "c \<notin> set ys"
  shows "xs = ys"
  using assms
proof (induction xs arbitrary: ys)
  case Nil
  then show ?case by (cases ys) auto
next
  case (Cons x xs)
  then show ?case by (cases ys) auto
qed

lemma find_Some_mem: "find P xs = Some x \<Longrightarrow> x \<in> set xs \<and> P x"
  by (induction xs) (auto split: if_splits)

lemma find_append: "find P (xs @ ys) = (case find P xs of None \<Rightarrow> find P ys | Some x \<Rightarrow> Some x)"
  by (induction xs) auto

lemma find_distinct_key:
  "distinct (map k xs) \<Longrightarrow> x \<in> set xs \<Longrightarrow> find (\<lambda>y. k y = k x) xs = Some x"
  by (induction xs) (auto simp: image_iff)

lemma map_if_id: "(\<And>x. x \<in> set xs \<Longrightarrow> \<not> P x) \<Longrightarrow> map (\<lambda>x. if P x then f x else x) xs = xs"
  by (induction xs) auto

lemma distinct_map_filter_key: "distinct (map k xs) \<Longrightarrow> distinct (map k (filter P xs))"
  by (induction xs) auto

lemma length_filter_map_update:
  assumes "distinct (map k xs)" "x \<in> set xs" "P x" "\<And>y. \<not> P (f y)"
  shows "Suc (length (filter P (map (\<lambda>y. if k y = k x then f y else y) xs))) = length (filter P xs)"
  using assms(1,2)
proof (induction xs)
  case Nil
  then show ?case by simp
next
  case (Cons y ys)
  show ?case
  proof (cases "y = x")
    case True
    with Cons.prems have "\<forall>z \<in> set ys. k z \<noteq> k x" by (auto simp: image_iff)
    then have "map (\<lambda>y. if k y = k x then f y else y) ys = ys" by (intro map_if_id) auto
    with True assms(3,4) show ?thesis by simp
  next
    case False
    with Cons.prems have "x \<in> set ys" "k y \<noteq> k x" by (auto simp: image_iff)
    with Cons show ?thesis by auto
  qed
qed

lemma distinct_map_update:
  "(\<And>y. k (f y) = k y) \<Longrightarrow> map k (map (\<lambda>y. if k y = a then f y else y) xs) = map k xs"
  by simp

section \<open>The length of a printed number\<close>

lemma length_show_nat: "n < 10 ^ Suc k \<Longrightarrow> length (show_nat n) \<le> Suc k"
proof (induction k arbitrary: n)
  case 0
  then show ?case by (simp add: show_nat.simps [of n])
next
  case (Suc k)
  show ?case
  proof (cases "n < 10")
    case True
    then show ?thesis by (simp add: show_nat.simps [of n])
  next
    case False
    have "n div 10 < 10 ^ Suc k" using Suc.prems by (simp add: less_mult_imp_div_less)
    then have "length (show_nat (n div 10)) \<le> Suc k" by (rule Suc.IH)
    then show ?thesis using False by (simp add: show_nat.simps [of n])
  qed
qed

lemma length_show_int:
  assumes "is_int32 i"
  shows "length (show_int i) \<le> 11"
proof (cases "i < 0")
  case True
  have "nat (- i) < 10 ^ Suc 9" using assms True by (simp add: is_int32_def INT_MIN_def nat_less_iff)
  from length_show_nat [OF this] True show ?thesis by (simp add: show_int_def)
next
  case False
  have "nat i < 10 ^ Suc 9" using assms False by (simp add: is_int32_def INT_MAX_def nat_less_iff)
  from length_show_nat [OF this] False show ?thesis by (simp add: show_int_def)
qed

lemma show_int_no_newline: "CHR 0x0A \<notin> set (show_int i)"
proof -
  have "\<not> isdigit (CHR 0x0A)" by (simp add: isdigit_def chr_code_def)
  then have "CHR 0x0A \<notin> set (show_nat n)" for n using show_nat_digits by blast
  then show ?thesis by (simp add: show_int_def)
qed

lemma show_int_ne [simp]: "show_int i \<noteq> []"
  by (simp add: show_int_def)

end
