(* ===== verification/SS_Env.thy ===== *)
theory SS_Env
  imports SS_Prelude
begin

text \<open>
  Everything the daemon calls that is not under \<open>src/\<close>: vconf, the power manager, the
  OEM device plugin, telephony, syspopup, heynoti, ecore, and the system calls whose
  outcome the operating system decides.  A call is a value of \<open>ecall\<close>; the outcome of
  each call is decided by an arbitrary \<open>env\<close>, which sees the calls made before (most
  recent first).  Every definition of the development takes the environment as an
  argument, so a theorem holds for all of them unless a hypothesis restricts it.
\<close>

section \<open>Names of the external interfaces\<close>

text \<open>vconf keys, without the prefix \<open>VCONFKEY_\<close> (and \<open>SYSMAN_\<close>).\<close>

datatype vkey =
    VK_BATTERY_CHARGE_NOW | VK_BATTERY_CAPACITY | VK_BATTERY_STATUS_LOW
  | VK_LOW_MEMORY | VK_USB_STATUS | VK_EARJACK | VK_EARJACKKEY | VK_CHARGER_STATUS
  | VK_SLIDING_KEYBOARD | VK_MMC_STATUS | VK_MMC_MOUNT | VK_MMC_UNMOUNT
  | VK_ADDED_USB_STORAGE | VK_REMOVED_USB_STORAGE
  | VK_INTERNAL_ADDED_USB_STORAGE | VK_INTERNAL_REMOVED_USB_STORAGE
  | VK_STARTER_SEQUENCE | VK_PM_STATE | VK_LANGSET | VK_SYSTEM_TIMECHANGE
  | VK_PWRSV_SYSMODE_STATUS | VK_PWRSV_CUSTMODE_CPU

text \<open>
  Constants of external headers (\<open>vconf-keys.h\<close>, \<open>devman_plugin_intf.h\<close>,
  \<open>TelPower.h\<close>, \<open>svi.h\<close>); their values are parameters.
\<close>

datatype kname =
    K_BAT_POWER_OFF | K_BAT_CRITICAL_LOW | K_BAT_WARNING_LOW | K_BAT_NORMAL | K_BAT_FULL
  | K_LOW_MEMORY_NORMAL | K_LOW_MEMORY_SOFT_WARNING | K_LOW_MEMORY_HARD_WARNING
  | K_USB_DISCONNECTED | K_USB_AVAILABLE
  | K_CHARGER_CONNECTED | K_CHARGER_DISCONNECTED | K_KEYBOARD_NOT_SUPPORTED
  | K_MMC_REMOVED | K_MMC_MOUNTED | K_MMC_INSERTED_NOT_MOUNTED
  | K_MMC_MOUNT_FAILED | K_MMC_MOUNT_COMPLETED | K_MMC_MOUNT_ALREADY
  | K_MMC_UNMOUNT_FAILED | K_MMC_UNMOUNT_COMPLETED
  | K_PM_STATE_LCDOFF | K_BATTERY_OVERHEAT | K_BATTERY_COLD
  | K_TAPI_API_SUCCESS | K_SVI_SUCCESS | K_NOTIFICATION_ERROR_NONE
  | K_SVI_VIB_OPERATION_CHARGERCONN | K_SVI_SND_OPERATION_CHARGERCONN
  | K_SVI_VIB_OPERATION_FULLCHARGED | K_SVI_SND_OPERATION_FULLCHARGED

datatype pmstate = LCD_NORMAL | LCD_OFF | POWER_OFF | PM_NUM int

datatype pmflag = STAY_CUR_STATE | GOTO_STATE_NOW | PM_SLEEP_MARGIN

text \<open>The entries of \<open>plugin_intf\<close> that fill an int, and those that take one.\<close>

datatype oem_get =
    OEM_jack_usb_online | OEM_jack_charger_online | OEM_jack_earjack_online
  | OEM_jack_earkey_online | OEM_jack_hdmi_online | OEM_jack_keyboard_online
  | OEM_battery_health | OEM_battery_charge_full | OEM_battery_charge_now
  | OEM_battery_capacity | OEM_battery_present
  | OEM_cpuinfo_max_freq | OEM_cpuinfo_min_freq
  | OEM_memnotify_victim_task | OEM_memnotify_node | OEM_process_monitor_node

datatype oem_set =
    OEM_scaling_max_freq | OEM_scaling_min_freq
  | OEM_memnotify_threshold_lv1 | OEM_memnotify_threshold_lv2
  | OEM_process_monitor_mp_pnp

text \<open>Handlers of the low-memory table, and the functions given to \<open>ecore_timer_add\<close>.\<close>

datatype mem_act = Memory_low_act | Memory_oom_act | Memory_normal_act

datatype timer_cb =
    TCB_ss_lowbat_monitor | TCB_lowmem mem_act | TCB_lowbat_popup
  | TCB_powerdown_ap_by_force | TCB_restart_ap_ecore

datatype fmode = Rd | Wr | RdWr

datatype reboot_mode = RB_POWER_OFF | RB_AUTOBOOT

datatype errno = EEXIST | EBUSY | ENOENT | EINTR | EOPNOTSUPP | E_OTHER

section \<open>External calls\<close>

text \<open>Grouped by the interface that is called; each constructor is named after the function.\<close>

datatype vconf_call =
    Set_int vkey int | Get_int vkey | Get_bool vkey | Get_str vkey | Notify_key_changed vkey

datatype pm_call =
    Change_state pmstate | Lock_state pmstate pmflag int | Unlock_state pmstate pmflag

datatype oem_call = Get oem_get | Put oem_set int

datatype ecore_call =
    Timer_add int timer_cb | Timer_del int | Timer_interval_set int int
  | Fd_handler_add int | Fd_handler_active
  | File_init | File_monitor_add string

datatype popup_call =
    Bundle_create | Bundle_add string string | Bundle_free | Syspopup_launch string

datatype noti_call =
    Publish string | Noti_init | Attach_handler int | Subscribe int string | Get_snoti_name string

datatype tel_call =
    Tel_init | Tel_deinit int | Register_noti int | Deregister_noti int
  | Process_power_off int | Set_flight_mode int bool

datatype os_call =
    System string | Sync | Kill int int | Reboot reboot_mode | Sleep int | Usleep int
  | Gettimeofday | Time | Localtime | Getenv string | Setenv string string | Getpid
  | Malloc int | Fork | Waitpid int | Nice int | Execvp string "string list" | Sigaction int | Tzset
  | Getdtablesize | Signal int | Dgettext string | Printf string

datatype sysman_call =
    Get_pid string | Get_cmdline_name int | Is_vip int | Format_mmc

datatype fs_call =
    Access string | Mkdir string int | Rmdir string | Chmod string int | Unlink string
  | Symlink string string | Stat string | Lstat string | Chdir string
  | Mount string string string | Umount string int
  | Opendir string | Closedir string
  | Open string | Fopen string fmode | Fprintf string string | Close int | Read int
  | Fstat int | Write int string

datatype ipc_call =
    Pipe | Socket | Fsetxattr string | Bind | Listen | Accept | Write_client int
  | Shm_info | Shm_stat int | Shm_rmid int

datatype dl_call =
    Dlopen string | Dlsym string string | Dlerror | Dlclose | Plugin_interface
  | Is_accessable string int | Ext_action string

text \<open>The notification calls carry the arguments that differ between them.\<close>

datatype notif_call =
    Delete_all_by_type | Notification_new | Set_text string string | Set_time int
  | Set_image string | Set_property | Set_display_applist | Notification_insert
  | Notification_free

datatype sound_call =
    Svi_init | Svi_play int int int | Svi_fini int | Notification notif_call

datatype ecall =
    VCONF vconf_call | PM pm_call | OEM oem_call | ECORE ecore_call | POPUP popup_call
  | HEYNOTI noti_call | TEL tel_call | OS os_call | SYSMAN sysman_call | FS fs_call
  | IPC ipc_call | DL dl_call | SOUND sound_call

type_synonym hist = "ecall list"

text \<open>
  The environment.  \<open>e_ret\<close> is the value a call returns; \<open>e_out\<close> what it stores
  through its pointer argument (\<open>None\<close>: it leaves the variable alone); \<open>e_str\<close> a
  returned string (\<open>None\<close>: NULL); \<open>e_errno\<close> the \<open>errno\<close> left by the calls so far;
  \<open>e_dir\<close> the names \<open>readdir\<close> yields; \<open>e_junk\<close> the content of an uninitialised
  variable and \<open>e_stack\<close> of an uninitialised array; \<open>e_write\<close> whether the file system
  accepts a write; \<open>konst\<close> the value of an external constant.
\<close>

record env =
  e_ret :: "hist \<Rightarrow> ecall \<Rightarrow> int"
  e_out :: "hist \<Rightarrow> ecall \<Rightarrow> int option"
  e_str :: "hist \<Rightarrow> ecall \<Rightarrow> string option"
  e_errno :: "hist \<Rightarrow> errno"
  e_dir :: "hist \<Rightarrow> string \<Rightarrow> string list"
  e_junk :: "hist \<Rightarrow> int"
  e_stack :: "hist \<Rightarrow> string"
  e_write :: "hist \<Rightarrow> string \<Rightarrow> string \<Rightarrow> bool"
  konst :: "kname \<Rightarrow> int"

text \<open>POSIX numbers the code uses.\<close>

definition SIGTERM :: int where "SIGTERM = 15"

definition MNT_DETACH :: int where "MNT_DETACH = 2"

text \<open>Paths of the pseudo files under \<open>/proc\<close>.\<close>

definition oom_adj_path :: "int \<Rightarrow> string" where
  "oom_adj_path pid = ''/proc/'' @ show_int pid @ ''/oom_adj''"

definition is_proc_path :: "string \<Rightarrow> bool" where
  "is_proc_path p \<longleftrightarrow> prefix ''/proc/'' p"

lemma oom_adj_path_inj:
  assumes "oom_adj_path p = oom_adj_path q" "is_int32 p" "is_int32 q"
  shows "p = q"
proof -
  from assms(1) have "show_int p @ CHR ''/'' # ''oom_adj'' = show_int q @ CHR ''/'' # ''oom_adj''"
    by (simp add: oom_adj_path_def)
  then have "show_int p = show_int q"
    by (rule append_cancel_middle) (simp_all add: show_int_no_slash)
  then show ?thesis using assms(2,3) by (rule show_int_inj)
qed

lemma is_proc_oom_adj_path [simp]: "is_proc_path (oom_adj_path p)"
  by (simp add: is_proc_path_def oom_adj_path_def)

end
