(* ===== verification/SS_State.thy ===== *)
theory SS_State
  imports SS_Env "HOL-Library.State_Monad"
begin

text \<open>
  The state of the daemon process and the monad its functions are written in.

  The record \<open>ss\<close> holds the static variables of the C files, one record per file that
  has some, together with the log of external calls (\<open>trace\<close>), the part of the file
  system the code reads back (\<open>files\<close>) and \<open>halted\<close>.  A C function is a computation
  \<open>(ss, 'a) state\<close>.  When the process dies (a NULL dereference, an access outside an
  array, a failed assertion, \<open>exit\<close>, a reboot, a read that blocks for ever) \<open>halted\<close>
  records why, and no later step changes the state: every primitive below that writes
  is guarded by it.
\<close>

section \<open>Data\<close>

datatype fault =
    NullDeref | OutOfBounds | AssertFailed | Exited int | Execed | Rebooted reboot_mode | Blocked

text \<open>\<open>ss_queue.h\<close>\<close>

datatype run_state = SS_STATE_INIT | SS_STATE_RUNNING | SS_STATE_DONE

text \<open>The functions registered as predefined actions; \<open>Fn_ext\<close> is one found by \<open>dlsym\<close>.\<close>

datatype action_fn =
    Fn_lowmem_def_predefine_action | Fn_lowbat_def_predefine_action
  | Fn_usbcon_def_predefine_action | Fn_earjackcon_def_predefine_action
  | Fn_poweroff_def_predefine_action | Fn_launching_predefine_action
  | Fn_restart_def_predefine_action
  | Fn_set_foregrd_action | Fn_set_backgrd_action | Fn_set_active_action
  | Fn_set_inactive_action | Fn_set_oomadj_action
  | Fn_set_datetime_action | Fn_set_timezone_action
  | Fn_set_max_frequency_action | Fn_set_min_frequency_action
  | Fn_release_max_frequency_action | Fn_release_min_frequency_action
  | Fn_ss_mmc_inserted | Fn_ss_mmc_unmounted | Fn_ss_mmc_format
  | Fn_ss_usb_storage_added | Fn_ss_usb_storage_removed
  | Fn_ext string

record action_entry =
  owner_pid :: int
  ae_type :: string
  ae_path :: string
  predefine_action :: action_fn
  ui_viewable :: "string option"
  is_accessable :: "string option"

text \<open>\<open>rq_addr\<close> is the address of the allocated entry, which the code compares.\<close>

record ss_run_queue_entry =
  rq_addr :: nat
  rq_state :: run_state
  rq_action_entry :: action_entry
  forked_pid :: int
  rq_argc :: int
  rq_argv :: "string option list"

datatype ss_core_cmd_type = SS_CORE_ACT_RUN | SS_CORE_ACT_CLEAR

record internal_msg =
  im_type :: ss_core_cmd_type
  im_pid :: int

record cpu_freq_entry =
  cf_pid :: int
  cf_freq :: int

section \<open>Static variables\<close>

text \<open>Pointers to ecore timers and other handles are ints, 0 for NULL.\<close>

record bat_vars =
  lowbat_timer :: int
  cur_bat_state :: int
  cur_bat_capacity :: int
  bat_err_count :: int

record mem_vars =
  lowmem_fd :: int
  cur_mem_state :: "32 word"
  oom_timer :: int
  oom_delete_sm_time :: "32 word"

record cpu_vars =
  max_cpu_freq_limit :: int
  min_cpu_freq_limit :: int
  cur_max_cpu_freq :: int
  cur_min_cpu_freq :: int
  max_cpu_freq_list :: "cpu_freq_entry list"
  min_cpu_freq_list :: "cpu_freq_entry list"

record predef_vars =
  lowbat_popup_id :: int
  lowbat_popup_option :: int
  tv_start_poweroff :: int
  poweroff_timer_id :: int
  tapi_handle :: int
  old_pid :: int

record dev_vars =
  mmc_status :: int
  added_noti_value :: int
  removed_noti_value :: int
  tempfs_mounted :: int
  input_device_number :: int
  bat_full_noti :: int
  noti_fd :: int
  pmon_fd :: int
  dlopen_handle :: int
  bs_file_monitor :: int

record ss =
  trace :: hist
  halted :: "fault option"
  files :: "string \<rightharpoonup> string"
  predef_act_list :: "action_entry list"
  run_queue :: "ss_run_queue_entry list"
  next_addr :: nat
  core_pipe :: "internal_msg list"
  bat :: bat_vars
  mem :: mem_vars
  cpu :: cpu_vars
  pre :: predef_vars
  dev :: dev_vars

section \<open>The monad\<close>

abbreviation return :: "'a \<Rightarrow> (ss, 'a) state" where
  "return \<equiv> State_Monad.return"

definition result :: "(ss, 'a) state \<Rightarrow> ss \<Rightarrow> 'a" where
  "result m s = fst (run_state m s)"

definition exec :: "(ss, 'a) state \<Rightarrow> ss \<Rightarrow> ss" where
  "exec m s = snd (run_state m s)"

definition getv :: "(ss \<Rightarrow> 'a) \<Rightarrow> (ss, 'a) state" where
  "getv f = State (\<lambda>s. (f s, s))"

definition alive :: "ss \<Rightarrow> bool" where
  "alive s \<longleftrightarrow> halted s = None"

text \<open>Every write to the state goes through \<open>upd\<close>, which a dead process does not do.\<close>

definition upd :: "(ss \<Rightarrow> ss) \<Rightarrow> (ss, unit) state" where
  "upd f = State (\<lambda>s. ((), if alive s then f s else s))"

definition halt :: "fault \<Rightarrow> (ss, unit) state" where
  "halt f = upd (\<lambda>s. s\<lparr>halted := Some f\<rparr>)"

definition log_call :: "ecall \<Rightarrow> ss \<Rightarrow> ss" where
  "log_call e s = (if alive s then s\<lparr>trace := e # trace s\<rparr> else s)"

definition call :: "env \<Rightarrow> ecall \<Rightarrow> (ss, int) state" where
  "call E e = State (\<lambda>s. (e_ret E (trace s) e, log_call e s))"

text \<open>A call that stores through a pointer to a variable whose value is \<open>v\<close>.\<close>

definition call_out :: "env \<Rightarrow> ecall \<Rightarrow> int \<Rightarrow> (ss, int \<times> int) state" where
  "call_out E e v = State (\<lambda>s.
     ((e_ret E (trace s) e,
       case e_out E (trace s) e of None \<Rightarrow> v | Some x \<Rightarrow> x), log_call e s))"

definition call_str :: "env \<Rightarrow> ecall \<Rightarrow> (ss, string option) state" where
  "call_str E e = State (\<lambda>s. (e_str E (trace s) e, log_call e s))"

text \<open>
  What a call made next would store in the buffer it is given: read before the call
  itself, for the calls that both return an int and fill a buffer.
\<close>

definition peek_str :: "env \<Rightarrow> ecall \<Rightarrow> (ss, string option) state" where
  "peek_str E e = getv (\<lambda>s. e_str E (trace s) e)"

definition get_errno :: "env \<Rightarrow> (ss, errno) state" where
  "get_errno E = getv (\<lambda>s. e_errno E (trace s))"

definition get_junk :: "env \<Rightarrow> (ss, int) state" where
  "get_junk E = getv (\<lambda>s. e_junk E (trace s))"

definition readdir_all :: "env \<Rightarrow> string \<Rightarrow> (ss, string list) state" where
  "readdir_all E p = getv (\<lambda>s. e_dir E (trace s) p)"

definition set_bat :: "(bat_vars \<Rightarrow> bat_vars) \<Rightarrow> (ss, unit) state" where
  "set_bat f = upd (\<lambda>s. s\<lparr>bat := f (bat s)\<rparr>)"

definition set_mem :: "(mem_vars \<Rightarrow> mem_vars) \<Rightarrow> (ss, unit) state" where
  "set_mem f = upd (\<lambda>s. s\<lparr>mem := f (mem s)\<rparr>)"

definition set_cpu :: "(cpu_vars \<Rightarrow> cpu_vars) \<Rightarrow> (ss, unit) state" where
  "set_cpu f = upd (\<lambda>s. s\<lparr>cpu := f (cpu s)\<rparr>)"

definition set_pre :: "(predef_vars \<Rightarrow> predef_vars) \<Rightarrow> (ss, unit) state" where
  "set_pre f = upd (\<lambda>s. s\<lparr>pre := f (pre s)\<rparr>)"

definition set_dev :: "(dev_vars \<Rightarrow> dev_vars) \<Rightarrow> (ss, unit) state" where
  "set_dev f = upd (\<lambda>s. s\<lparr>dev := f (dev s)\<rparr>)"

text \<open>
  \<open>argv[i]\<close>: None is a NULL pointer, and so is what lies behind the arguments given.
  \<open>atoi\<close> and \<open>strcmp\<close> dereference it.
\<close>

definition argv_at :: "string option list \<Rightarrow> nat \<Rightarrow> string option" where
  "argv_at argv i = (if i < length argv then argv ! i else None)"

definition deref :: "string option \<Rightarrow> (ss, string) state" where
  "deref p = (case p of Some t \<Rightarrow> return t | None \<Rightarrow> do { halt NullDeref; return [] })"

text \<open>A loop over a list whose body returns nothing.\<close>

fun for_each :: "('a \<Rightarrow> (ss, unit) state) \<Rightarrow> 'a list \<Rightarrow> (ss, unit) state" where
  "for_each f [] = return ()"
| "for_each f (x # xs) = do { f x; for_each f xs }"

section \<open>stdio on the modelled files\<close>

text \<open>
  Opening for reading needs the file; a file under \<open>/proc\<close> is never created by
  opening it, any other file is created or truncated by mode \<open>w\<close>.  The environment
  may refuse in either case (result 0, the NULL pointer).
\<close>

definition fopen_effect :: "string \<Rightarrow> fmode \<Rightarrow> ss \<Rightarrow> ss" where
  "fopen_effect p m s =
     (if m = Wr \<and> \<not> is_proc_path p then s\<lparr>files := (files s)(p \<mapsto> '''')\<rparr> else s)"

definition fopen :: "env \<Rightarrow> string \<Rightarrow> fmode \<Rightarrow> (ss, bool) state" where
  "fopen E p m = do {
     r \<leftarrow> call E (FS (Fopen p m));
     there \<leftarrow> getv (\<lambda>s. files s p \<noteq> None);
     if r \<noteq> 0 \<and> (there \<or> m = Wr \<and> \<not> is_proc_path p) then do {
       upd (fopen_effect p m);
       return True
     } else return False
   }"

text \<open>The first line of a file, at most \<open>n - 1\<close> characters; NULL at the end of the file.\<close>

fun first_line :: "string \<Rightarrow> string" where
  "first_line [] = []"
| "first_line (c # cs) = (if c = CHR 0x0A then [c] else c # first_line cs)"

definition fgets :: "string \<Rightarrow> nat \<Rightarrow> (ss, string option) state" where
  "fgets p n = getv (\<lambda>s. case files s p of
       None \<Rightarrow> None
     | Some txt \<Rightarrow> if txt = [] then None else Some (take (n - 1) (first_line txt)))"

definition fprintf :: "env \<Rightarrow> string \<Rightarrow> string \<Rightarrow> (ss, unit) state" where
  "fprintf E p str = do {
     ok \<leftarrow> getv (\<lambda>s. e_write E (trace s) p str);
     call E (FS (Fprintf p str));
     (if ok then upd (\<lambda>s. s\<lparr>files := (files s)(p \<mapsto> str)\<rparr>) else return ())
   }"

definition PATH_MAX :: nat where "PATH_MAX = 4096"

definition NAME_MAX :: nat where "NAME_MAX = 255"

end
