(* ===== verification/SS_Rules.thy ===== *)
theory SS_Rules
  imports SS_State
begin

text \<open>
  Reasoning about computations.  \<open>exec\<close> and \<open>result\<close> split a run into its final state
  and its value, with simp rules for every primitive; \<open>frame\<close> says that a computation
  leaves a part of the state alone and \<open>pres\<close> that it preserves an invariant, with one
  introduction rule per construct of the monad, collected in \<open>frames\<close> and \<open>presI\<close>.
\<close>

named_theorems frames "a computation leaves a component of the state alone"
named_theorems presI "a computation preserves an invariant"

section \<open>Runs of the primitives\<close>

lemma exec_return [simp]: "exec (return x) s = s"
  by (simp add: exec_def)

lemma result_return [simp]: "result (return x) s = x"
  by (simp add: result_def)

lemma exec_bind [simp]: "exec (m \<bind> f) s = exec (f (result m s)) (exec m s)"
  by (simp add: exec_def result_def split: prod.split)

lemma result_bind [simp]: "result (m \<bind> f) s = result (f (result m s)) (exec m s)"
  by (simp add: exec_def result_def split: prod.split)

lemma exec_getv [simp]: "exec (getv f) s = s"
  by (simp add: exec_def getv_def)

lemma result_getv [simp]: "result (getv f) s = f s"
  by (simp add: result_def getv_def)

lemma exec_upd [simp]: "exec (upd f) s = (if alive s then f s else s)"
  by (simp add: exec_def upd_def)

lemma exec_halt [simp]: "exec (halt f) s = (if alive s then s\<lparr>halted := Some f\<rparr> else s)"
  by (simp add: halt_def)

lemma exec_call [simp]: "exec (call E e) s = log_call e s"
  by (simp add: exec_def call_def)

lemma result_call [simp]: "result (call E e) s = e_ret E (trace s) e"
  by (simp add: result_def call_def)

lemma exec_call_out [simp]: "exec (call_out E e v) s = log_call e s"
  by (simp add: exec_def call_out_def)

lemma result_call_out [simp]:
  "result (call_out E e v) s =
     (e_ret E (trace s) e, case e_out E (trace s) e of None \<Rightarrow> v | Some x \<Rightarrow> x)"
  by (simp add: result_def call_out_def)

lemma exec_call_str [simp]: "exec (call_str E e) s = log_call e s"
  by (simp add: exec_def call_str_def)

lemma result_call_str [simp]: "result (call_str E e) s = e_str E (trace s) e"
  by (simp add: result_def call_str_def)

lemma exec_reads [simp]:
  "exec (get_errno E) s = s" "exec (get_junk E) s = s" "exec (readdir_all E p) s = s"
  "exec (fgets p n) s = s" "exec (peek_str E e) s = s"
  by (simp_all add: get_errno_def get_junk_def readdir_all_def fgets_def peek_str_def)

lemma result_reads [simp]:
  "result (get_errno E) s = e_errno E (trace s)"
  "result (get_junk E) s = e_junk E (trace s)"
  "result (readdir_all E p) s = e_dir E (trace s) p"
  "result (peek_str E e) s = e_str E (trace s) e"
  by (simp_all add: get_errno_def get_junk_def readdir_all_def peek_str_def)

lemma exec_sets [simp]:
  "exec (set_bat f1) s = (if alive s then s\<lparr>bat := f1 (bat s)\<rparr> else s)"
  "exec (set_mem f2) s = (if alive s then s\<lparr>mem := f2 (mem s)\<rparr> else s)"
  "exec (set_cpu f3) s = (if alive s then s\<lparr>cpu := f3 (cpu s)\<rparr> else s)"
  "exec (set_pre f4) s = (if alive s then s\<lparr>pre := f4 (pre s)\<rparr> else s)"
  "exec (set_dev f5) s = (if alive s then s\<lparr>dev := f5 (dev s)\<rparr> else s)"
  by (simp_all add: set_bat_def set_mem_def set_cpu_def set_pre_def set_dev_def)

lemma exec_deref [simp]: "exec (deref p) s = (if p = None then exec (halt NullDeref) s else s)"
  by (cases p) (simp_all add: deref_def)

lemma result_deref [simp]: "result (deref (Some t)) s = t"
  by (simp add: deref_def)

lemma exec_if [simp]: "exec (if b then m else n) s = (if b then exec m s else exec n s)"
  by simp

lemma result_if [simp]: "result (if b then m else n) s = (if b then result m s else result n s)"
  by simp

lemma exec_case_prod [simp]:
  "exec (case p of (x, y) \<Rightarrow> f x y) s = (case p of (x, y) \<Rightarrow> exec (f x y) s)"
  by (simp split: prod.split)

lemma result_case_prod [simp]:
  "result (case p of (x, y) \<Rightarrow> f x y) s = (case p of (x, y) \<Rightarrow> result (f x y) s)"
  by (simp split: prod.split)

lemma exec_case_option [simp]:
  "exec (case p of None \<Rightarrow> m | Some x \<Rightarrow> f x) s =
     (case p of None \<Rightarrow> exec m s | Some x \<Rightarrow> exec (f x) s)"
  by (simp split: option.split)

lemma result_case_option [simp]:
  "result (case p of None \<Rightarrow> m | Some x \<Rightarrow> f x) s =
     (case p of None \<Rightarrow> result m s | Some x \<Rightarrow> result (f x) s)"
  by (simp split: option.split)

lemma exec_for_each: "exec (for_each f xs) s = fold (\<lambda>x. exec (f x)) xs s"
  by (induction xs arbitrary: s) auto

section \<open>The call log\<close>

lemma alive_log_call [simp]: "alive (log_call e s) = alive s"
  by (simp add: log_call_def alive_def)

lemma halted_log_call [simp]: "halted (log_call e s) = halted s"
  by (simp add: log_call_def)

lemma files_log_call [simp]: "files (log_call e s) = files s"
  by (simp add: log_call_def)

lemma predef_act_list_log_call [simp]: "predef_act_list (log_call e s) = predef_act_list s"
  by (simp add: log_call_def)

lemma run_queue_log_call [simp]: "run_queue (log_call e s) = run_queue s"
  by (simp add: log_call_def)

lemma next_addr_log_call [simp]: "next_addr (log_call e s) = next_addr s"
  by (simp add: log_call_def)

lemma core_pipe_log_call [simp]: "core_pipe (log_call e s) = core_pipe s"
  by (simp add: log_call_def)

lemma bat_log_call [simp]: "bat (log_call e s) = bat s"
  by (simp add: log_call_def)

lemma mem_log_call [simp]: "mem (log_call e s) = mem s"
  by (simp add: log_call_def)

lemma cpu_log_call [simp]: "cpu (log_call e s) = cpu s"
  by (simp add: log_call_def)

lemma pre_log_call [simp]: "pre (log_call e s) = pre s"
  by (simp add: log_call_def)

lemma dev_log_call [simp]: "dev (log_call e s) = dev s"
  by (simp add: log_call_def)

lemma trace_log_call [simp]: "trace (log_call e s) = (if alive s then e # trace s else trace s)"
  by (simp add: log_call_def)

lemma alive_updates [simp]:
  "alive (s\<lparr>trace := x_trace\<rparr>) = alive s"
  "alive (s\<lparr>files := x_files\<rparr>) = alive s"
  "alive (s\<lparr>predef_act_list := x_predef_act_list\<rparr>) = alive s"
  "alive (s\<lparr>run_queue := x_run_queue\<rparr>) = alive s"
  "alive (s\<lparr>next_addr := x_next_addr\<rparr>) = alive s"
  "alive (s\<lparr>core_pipe := x_core_pipe\<rparr>) = alive s"
  "alive (s\<lparr>bat := x_bat\<rparr>) = alive s"
  "alive (s\<lparr>mem := x_mem\<rparr>) = alive s"
  "alive (s\<lparr>cpu := x_cpu\<rparr>) = alive s"
  "alive (s\<lparr>pre := x_pre\<rparr>) = alive s"
  "alive (s\<lparr>dev := x_dev\<rparr>) = alive s"
  "alive (s\<lparr>halted := h\<rparr>) \<longleftrightarrow> h = None"
  by (simp_all add: alive_def)

lemma dead_exec_call [simp]: "\<not> alive s \<Longrightarrow> log_call e s = s"
  by (simp add: log_call_def)

section \<open>Frames\<close>

definition frame :: "(ss \<Rightarrow> 'b) \<Rightarrow> (ss, 'a) state \<Rightarrow> bool" where
  "frame f m \<longleftrightarrow> (\<forall>s. f (exec m s) = f s)"

lemma frameD: "frame f m \<Longrightarrow> f (exec m s) = f s"
  by (simp add: frame_def)

lemma frameI: "(\<And>s. f (exec m s) = f s) \<Longrightarrow> frame f m"
  by (simp add: frame_def)

text \<open>A component that logging a call does not change.\<close>

definition off_log :: "(ss \<Rightarrow> 'b) \<Rightarrow> bool" where
  "off_log f \<longleftrightarrow> (\<forall>e s. f (log_call e s) = f s)"

lemma off_logI [intro]: "(\<And>e s. f (log_call e s) = f s) \<Longrightarrow> off_log f"
  by (simp add: off_log_def)

lemma frame_return [frames]: "frame f (return x)"
  by (simp add: frame_def)

lemma frame_bind [frames]: "frame f m \<Longrightarrow> (\<And>x. frame f (g x)) \<Longrightarrow> frame f (m \<bind> g)"
  by (simp add: frame_def)

lemma frame_getv [frames]: "frame f (getv g)"
  by (simp add: frame_def)

lemma frame_reads [frames]:
  "frame f (get_errno E)" "frame f (get_junk E)" "frame f (readdir_all E p)" "frame f (fgets p n)"
  "frame f (peek_str E e)"
  by (simp_all add: frame_def)

lemma frame_upd: "(\<And>s. f (g s) = f s) \<Longrightarrow> frame f (upd g)"
  by (simp add: frame_def)

lemma frame_calls:
  "off_log f \<Longrightarrow> frame f (call E e)"
  "off_log f \<Longrightarrow> frame f (call_out E e v)"
  "off_log f \<Longrightarrow> frame f (call_str E e)"
  by (simp_all add: frame_def off_log_def)

lemma frame_if [frames]: "frame f m \<Longrightarrow> frame f n \<Longrightarrow> frame f (if b then m else n)"
  by simp

lemma frame_case_prod [frames]:
  "(\<And>x y. frame f (g x y)) \<Longrightarrow> frame f (case p of (x, y) \<Rightarrow> g x y)"
  by (simp split: prod.split)

lemma frame_case_option [frames]:
  "frame f m \<Longrightarrow> (\<And>x. frame f (g x)) \<Longrightarrow> frame f (case p of None \<Rightarrow> m | Some x \<Rightarrow> g x)"
  by (simp split: option.split)

lemma frame_case_list [frames]:
  "frame f m \<Longrightarrow> (\<And>x xs. frame f (g x xs)) \<Longrightarrow> frame f (case p of [] \<Rightarrow> m | x # xs \<Rightarrow> g x xs)"
  by (simp split: list.split)

lemma frame_let [frames]: "(\<And>x. frame f (g x)) \<Longrightarrow> frame f (let x = t in g x)"
  by (simp add: Let_def)

lemma frame_for_each [frames]: "(\<And>x. frame f (g x)) \<Longrightarrow> frame f (for_each g xs)"
  by (induction xs) (auto intro: frames)

section \<open>Invariants\<close>

definition pres :: "(ss \<Rightarrow> bool) \<Rightarrow> (ss, 'a) state \<Rightarrow> bool" where
  "pres I m \<longleftrightarrow> (\<forall>s. I s \<longrightarrow> I (exec m s))"

lemma presD: "pres I m \<Longrightarrow> I s \<Longrightarrow> I (exec m s)"
  by (simp add: pres_def)

lemma pres_return [presI]: "pres I (return x)"
  by (simp add: pres_def)

lemma pres_bind [presI]: "pres I m \<Longrightarrow> (\<And>x. pres I (g x)) \<Longrightarrow> pres I (m \<bind> g)"
  by (simp add: pres_def)

lemma pres_getv [presI]: "pres I (getv g)"
  by (simp add: pres_def)

lemma pres_reads [presI]:
  "pres I (get_errno E)" "pres I (get_junk E)" "pres I (readdir_all E p)" "pres I (fgets p n)"
  "pres I (peek_str E e)"
  by (simp_all add: pres_def)

lemma pres_upd: "(\<And>s. I s \<Longrightarrow> alive s \<Longrightarrow> I (g s)) \<Longrightarrow> pres I (upd g)"
  by (simp add: pres_def)

lemma pres_calls:
  "off_log I \<Longrightarrow> pres I (call E e)"
  "off_log I \<Longrightarrow> pres I (call_out E e v)"
  "off_log I \<Longrightarrow> pres I (call_str E e)"
  by (simp_all add: pres_def off_log_def)

lemma pres_if [presI]: "pres I m \<Longrightarrow> pres I n \<Longrightarrow> pres I (if b then m else n)"
  by simp

lemma pres_case_prod [presI]:
  "(\<And>x y. pres I (g x y)) \<Longrightarrow> pres I (case p of (x, y) \<Rightarrow> g x y)"
  by (simp split: prod.split)

lemma pres_case_option [presI]:
  "pres I m \<Longrightarrow> (\<And>x. pres I (g x)) \<Longrightarrow> pres I (case p of None \<Rightarrow> m | Some x \<Rightarrow> g x)"
  by (simp split: option.split)

lemma pres_let [presI]: "(\<And>x. pres I (g x)) \<Longrightarrow> pres I (let x = t in g x)"
  by (simp add: Let_def)

lemma pres_for_each [presI]: "(\<And>x. pres I (g x)) \<Longrightarrow> pres I (for_each g xs)"
  by (induction xs) (auto intro: presI)

lemma pres_frame: "frame f m \<Longrightarrow> pres (\<lambda>s. P (f s)) m"
  by (simp add: pres_def frame_def)

section \<open>Frames of the standard components\<close>

text \<open>The part of the state that only \<open>ss_queue.c\<close> and \<open>ss_core.c\<close> may write.\<close>

definition queue_part ::
  "ss \<Rightarrow> action_entry list \<times> ss_run_queue_entry list \<times> nat \<times> internal_msg list" where
  "queue_part s = (predef_act_list s, run_queue s, next_addr s, core_pipe s)"

lemma queue_part_simps [simp]:
  "queue_part (log_call e s) = queue_part s" "queue_part (s\<lparr>trace := x1\<rparr>) = queue_part s"
  "queue_part (s\<lparr>halted := x2\<rparr>) = queue_part s" "queue_part (s\<lparr>files := x3\<rparr>) = queue_part s"
  "queue_part (s\<lparr>bat := x4\<rparr>) = queue_part s" "queue_part (s\<lparr>mem := x5\<rparr>) = queue_part s"
  "queue_part (s\<lparr>cpu := x6\<rparr>) = queue_part s" "queue_part (s\<lparr>pre := x7\<rparr>) = queue_part s"
  "queue_part (s\<lparr>dev := x8\<rparr>) = queue_part s"
  by (simp_all add: queue_part_def)

text \<open>
  A component that reads neither the log nor the files nor the cause of death: every
  computation that only makes external calls and writes files leaves it alone.
\<close>

definition light :: "(ss \<Rightarrow> 'b) \<Rightarrow> bool" where
  "light f \<longleftrightarrow> (\<forall>s x. f (s\<lparr>trace := x\<rparr>) = f s) \<and> (\<forall>s x. f (s\<lparr>halted := x\<rparr>) = f s) \<and>
     (\<forall>s x. f (s\<lparr>files := x\<rparr>) = f s)"

lemma light_off_log [frames]: "light f \<Longrightarrow> off_log f"
  by (simp add: light_def off_log_def log_call_def)

lemma light_I:
  "(\<And>s x. f (s\<lparr>trace := x\<rparr>) = f s) \<Longrightarrow> (\<And>s x. f (s\<lparr>halted := x\<rparr>) = f s) \<Longrightarrow>
     (\<And>s x. f (s\<lparr>files := x\<rparr>) = f s) \<Longrightarrow> light f"
  by (simp add: light_def)

lemma light_components [frames]:
  "light queue_part" "light bat" "light mem" "light cpu" "light pre" "light dev"
  by (simp_all add: light_def queue_part_def)

lemma light_halt: "light f \<Longrightarrow> frame f (halt h)"
  by (simp add: light_def frame_def)

lemma light_deref: "light f \<Longrightarrow> frame f (deref p)"
  by (simp add: deref_def frame_return frame_bind light_halt split: option.split)

lemma light_fopen: "light f \<Longrightarrow> frame f (fopen E p m)"
  by (simp add: light_def frame_def fopen_def fopen_effect_def log_call_def)

lemma light_fprintf: "light f \<Longrightarrow> frame f (fprintf E p t)"
  by (simp add: light_def frame_def fprintf_def log_call_def)

lemma off_log_components [frames]:
  "off_log queue_part" "off_log halted" "off_log alive" "off_log files" "off_log bat" "off_log mem"
  "off_log cpu" "off_log pre" "off_log dev" "off_log predef_act_list" "off_log run_queue"
  "off_log core_pipe" "off_log next_addr"
  by (auto simp: queue_part_def)

lemmas frames_calls [frames] = frame_calls

lemma queue_part_sets [frames]:
  "frame queue_part (set_bat f1)" "frame queue_part (set_mem f2)" "frame queue_part (set_cpu f3)"
  "frame queue_part (set_pre f4)" "frame queue_part (set_dev f5)" "frame queue_part (halt h)"
  by (simp_all add: frame_def queue_part_def)

lemma alive_sets [frames]:
  "frame alive (set_bat f1)" "frame alive (set_mem f2)" "frame alive (set_cpu f3)"
  "frame alive (set_pre f4)" "frame alive (set_dev f5)"
  by (simp_all add: frame_def)

lemma bat_sets [frames]:
  "frame bat (set_mem f0)" "frame bat (set_cpu f1)" "frame bat (set_pre f2)" "frame bat (set_dev f3)"
  "frame bat (halt h)"
  by (simp_all add: frame_def)

lemma mem_sets [frames]:
  "frame mem (set_bat f0)" "frame mem (set_cpu f1)" "frame mem (set_pre f2)" "frame mem (set_dev f3)"
  "frame mem (halt h)"
  by (simp_all add: frame_def)

lemma cpu_sets [frames]:
  "frame cpu (set_bat f0)" "frame cpu (set_mem f1)" "frame cpu (set_pre f2)" "frame cpu (set_dev f3)"
  "frame cpu (halt h)"
  by (simp_all add: frame_def)

lemma pre_sets [frames]:
  "frame pre (set_bat f0)" "frame pre (set_mem f1)" "frame pre (set_cpu f2)" "frame pre (set_dev f3)"
  "frame pre (halt h)"
  by (simp_all add: frame_def)

lemma dev_sets [frames]:
  "frame dev (set_bat f0)" "frame dev (set_mem f1)" "frame dev (set_cpu f2)" "frame dev (set_pre f3)"
  "frame dev (halt h)"
  by (simp_all add: frame_def)

lemma files_sets [frames]:
  "frame files (set_bat f0)" "frame files (set_mem f1)" "frame files (set_cpu f2)" "frame files (set_pre f3)" "frame files (set_dev f4)"
  "frame files (halt h)"
  by (simp_all add: frame_def)

lemma fopen_effect_simps [simp]:
  "trace (fopen_effect p m s) = trace s" "halted (fopen_effect p m s) = halted s"
  "alive (fopen_effect p m s) = alive s" "queue_part (fopen_effect p m s) = queue_part s"
  "bat (fopen_effect p m s) = bat s" "mem (fopen_effect p m s) = mem s"
  "cpu (fopen_effect p m s) = cpu s" "pre (fopen_effect p m s) = pre s"
  "dev (fopen_effect p m s) = dev s"
  by (simp_all add: fopen_effect_def queue_part_def)

lemma frame_fopen [frames]:
  "frame queue_part (fopen E p m)" "frame alive (fopen E p m)"
  "frame bat (fopen E p m)" "frame mem (fopen E p m)" "frame cpu (fopen E p m)"
  "frame pre (fopen E p m)" "frame dev (fopen E p m)"
  by (simp_all add: frame_def fopen_def queue_part_def fopen_effect_def)

lemma frame_fopen_files [frames]:
  "m \<noteq> Wr \<Longrightarrow> frame files (fopen E p m)" "is_proc_path p \<Longrightarrow> frame files (fopen E p m)"
  by (simp_all add: frame_def fopen_def fopen_effect_def)

lemma frame_fprintf [frames]:
  "frame queue_part (fprintf E p t)" "frame alive (fprintf E p t)"
  "frame bat (fprintf E p t)" "frame mem (fprintf E p t)" "frame cpu (fprintf E p t)"
  "frame pre (fprintf E p t)" "frame dev (fprintf E p t)"
  by (simp_all add: frame_def fprintf_def queue_part_def)

section \<open>A dead process makes no step\<close>

named_theorems stops "a dead process does not change its state"

definition obeys_halt :: "(ss, 'a) state \<Rightarrow> bool" where
  "obeys_halt m \<longleftrightarrow> (\<forall>s. \<not> alive s \<longrightarrow> exec m s = s)"

lemma obeys_haltD: "obeys_halt m \<Longrightarrow> \<not> alive s \<Longrightarrow> exec m s = s"
  by (simp add: obeys_halt_def)

lemma obeys_halt_alive: "obeys_halt m \<Longrightarrow> alive (exec m s) \<Longrightarrow> alive s"
  by (metis obeys_haltD)

lemma stops_prims [stops]:
  "obeys_halt (return x)" "obeys_halt (getv g)" "obeys_halt (upd h)" "obeys_halt (halt f)"
  "obeys_halt (call E e)" "obeys_halt (call_out E e v)" "obeys_halt (call_str E e)"
  "obeys_halt (get_errno E)" "obeys_halt (get_junk E)" "obeys_halt (readdir_all E p)"
  "obeys_halt (peek_str E e)" "obeys_halt (fgets p n)" "obeys_halt (set_bat f1)" "obeys_halt (set_mem f2)"
  "obeys_halt (set_cpu f3)" "obeys_halt (set_pre f4)" "obeys_halt (set_dev f5)"
  by (simp_all add: obeys_halt_def)

lemma stops_bind [stops]:
  "obeys_halt m \<Longrightarrow> (\<And>x. obeys_halt (g x)) \<Longrightarrow> obeys_halt (m \<bind> g)"
  by (simp add: obeys_halt_def)

lemma stops_if [stops]: "obeys_halt m \<Longrightarrow> obeys_halt n \<Longrightarrow> obeys_halt (if b then m else n)"
  by simp

lemma stops_case_prod [stops]:
  "(\<And>x y. obeys_halt (g x y)) \<Longrightarrow> obeys_halt (case p of (x, y) \<Rightarrow> g x y)"
  by (simp split: prod.split)

lemma stops_case_option [stops]:
  "obeys_halt m \<Longrightarrow> (\<And>x. obeys_halt (g x)) \<Longrightarrow>
     obeys_halt (case p of None \<Rightarrow> m | Some x \<Rightarrow> g x)"
  by (simp split: option.split)

lemma stops_case_list [stops]:
  "obeys_halt m \<Longrightarrow> (\<And>x xs. obeys_halt (g x xs)) \<Longrightarrow>
     obeys_halt (case p of [] \<Rightarrow> m | x # xs \<Rightarrow> g x xs)"
  by (simp split: list.split)

lemma stops_let [stops]: "(\<And>x. obeys_halt (g x)) \<Longrightarrow> obeys_halt (let x = t in g x)"
  by (simp add: Let_def)

lemma stops_for_each [stops]: "(\<And>x. obeys_halt (g x)) \<Longrightarrow> obeys_halt (for_each g xs)"
  by (induction xs) (auto intro: stops)

lemma stops_deref [stops]: "obeys_halt (deref p)"
  unfolding deref_def by (intro stops)

lemma stops_files [stops]: "obeys_halt (fopen E p m)" "obeys_halt (fprintf E p t)"
  by (simp_all add: fopen_def fprintf_def stops)

section \<open>The calls a computation makes\<close>

named_theorems emitsI "every call a computation logs satisfies a predicate"

definition emits :: "(ecall \<Rightarrow> bool) \<Rightarrow> (ss, 'a) state \<Rightarrow> bool" where
  "emits P m \<longleftrightarrow> (\<forall>s. \<exists>h. trace (exec m s) = h @ trace s \<and> list_all P h)"

lemma emitsI_same: "(\<And>s. trace (exec m s) = trace s) \<Longrightarrow> emits P m"
  by (auto simp: emits_def intro: exI [of _ "[]"])

lemma emitsD: "emits P m \<Longrightarrow> \<exists>h. trace (exec m s) = h @ trace s \<and> list_all P h"
  by (simp add: emits_def)

lemma emits_trace:
  "emits P m \<Longrightarrow> c \<in> set (trace (exec m s)) \<Longrightarrow> c \<in> set (trace s) \<or> P c"
  using emitsD [of P m s] by (auto simp: list_all_iff)

lemma emits_mono: "emits P m \<Longrightarrow> (\<And>c. P c \<Longrightarrow> Q c) \<Longrightarrow> emits Q m"
  unfolding emits_def by (meson list.pred_mono_strong)

lemma emits_prims [emitsI]:
  "emits P (return x)" "emits P (getv g)" "emits P (halt f)"
  "emits P (get_errno E)" "emits P (get_junk E)" "emits P (readdir_all E p)" "emits P (fgets p n)"
  "emits P (peek_str E e)"
  "emits P (set_bat f1)" "emits P (set_mem f2)" "emits P (set_cpu f3)"
  "emits P (set_pre f4)" "emits P (set_dev f5)"
  by (auto intro: emitsI_same)

lemma emits_upd: "(\<And>s. trace (g s) = trace s) \<Longrightarrow> emits P (upd g)"
  by (rule emitsI_same) simp

lemma emits_log: "P e \<Longrightarrow> \<exists>h. trace (log_call e s) = h @ trace s \<and> list_all P h"
  by (cases "alive s") (auto intro: exI [of _ "[e]"] exI [of _ "[]"])

lemma emits_calls [emitsI]:
  "P e \<Longrightarrow> emits P (call E e)" "P e \<Longrightarrow> emits P (call_out E e v)" "P e \<Longrightarrow> emits P (call_str E e)"
  by (simp_all add: emits_def emits_log)

lemma emits_bind [emitsI]:
  assumes "emits P m" "\<And>x. emits P (g x)"
  shows "emits P (m \<bind> g)"
  unfolding emits_def
proof
  fix s
  obtain h k where "trace (exec m s) = h @ trace s" "list_all P h"
    "trace (exec (g (result m s)) (exec m s)) = k @ trace (exec m s)" "list_all P k"
    using emitsD [OF assms(1), of s] emitsD [OF assms(2), of "result m s" "exec m s"] by blast
  then show "\<exists>h. trace (exec (m \<bind> g) s) = h @ trace s \<and> list_all P h"
    by (intro exI [of _ "k @ h"]) simp
qed

lemma emits_if [emitsI]: "emits P m \<Longrightarrow> emits P n \<Longrightarrow> emits P (if b then m else n)"
  by simp

lemma emits_case_prod [emitsI]:
  "(\<And>x y. emits P (g x y)) \<Longrightarrow> emits P (case p of (x, y) \<Rightarrow> g x y)"
  by (simp split: prod.split)

lemma emits_case_option [emitsI]:
  "emits P m \<Longrightarrow> (\<And>x. emits P (g x)) \<Longrightarrow> emits P (case p of None \<Rightarrow> m | Some x \<Rightarrow> g x)"
  by (simp split: option.split)

lemma emits_case_list [emitsI]:
  "emits P m \<Longrightarrow> (\<And>x xs. emits P (g x xs)) \<Longrightarrow> emits P (case p of [] \<Rightarrow> m | x # xs \<Rightarrow> g x xs)"
  by (simp split: list.split)

lemma emits_let [emitsI]: "(\<And>x. emits P (g x)) \<Longrightarrow> emits P (let x = t in g x)"
  by (simp add: Let_def)

lemma emits_for_each [emitsI]: "(\<And>x. emits P (g x)) \<Longrightarrow> emits P (for_each g xs)"
  by (induction xs) (auto intro: emitsI)

lemma emits_deref [emitsI]: "emits P (deref p)"
  unfolding deref_def by (intro emitsI)

lemma emits_files [emitsI]:
  "P (FS (Fopen p m)) \<Longrightarrow> emits P (fopen E p m)" "P (FS (Fprintf p t)) \<Longrightarrow> emits P (fprintf E p t)"
  unfolding fopen_def fprintf_def by (intro emitsI emits_upd; simp)+

text \<open>Every computation only adds to the log.\<close>

lemma trace_grows: "emits P m \<Longrightarrow> set (trace s) \<subseteq> set (trace (exec m s))"
  using emitsD [of P m s] by auto

end
