(* ===== verification/SS_Data.thy ===== *)
theory SS_Data
  imports SS_Rules
begin

text \<open>
  \<open>include/ss_data.h\<close>: the names of the predefined actions and of the arguments the
  handlers pass to them; the install prefix of the package; and the state of the process
  when it starts, every static variable at its initializer.
\<close>

section \<open>Names\<close>

definition PREDEF_CALL :: string where "PREDEF_CALL = ''call''"
definition PREDEF_LOWMEM :: string where "PREDEF_LOWMEM = ''lowmem''"
definition PREDEF_LOWBAT :: string where "PREDEF_LOWBAT = ''lowbat''"
definition PREDEF_USBCON :: string where "PREDEF_USBCON = ''usbcon''"
definition PREDEF_POWEROFF :: string where "PREDEF_POWEROFF = ''poweroff''"
definition PREDEF_REBOOT :: string where "PREDEF_REBOOT = ''reboot''"
definition PREDEF_PWROFF_POPUP :: string where "PREDEF_PWROFF_POPUP = ''pwroff-popup''"
definition PREDEF_BACKGRD :: string where "PREDEF_BACKGRD = ''backgrd''"
definition PREDEF_FOREGRD :: string where "PREDEF_FOREGRD = ''foregrd''"
definition PREDEF_ACTIVE :: string where "PREDEF_ACTIVE = ''active''"
definition PREDEF_INACTIVE :: string where "PREDEF_INACTIVE = ''inactive''"
definition PREDEF_USB_STORAGE_ADD :: string where "PREDEF_USB_STORAGE_ADD = ''usbstorage-add''"
definition PREDEF_USB_STORAGE_REMOVE :: string where
  "PREDEF_USB_STORAGE_REMOVE = ''usbstorage-remove''"
definition OOMADJ_SET :: string where "OOMADJ_SET = ''oomadj_set''"
definition LOW_MEM_ACT :: string where "LOW_MEM_ACT = ''low_mem_act''"
definition OOM_MEM_ACT :: string where "OOM_MEM_ACT = ''oom_mem_act''"
definition WARNING_LOW_BAT_ACT :: string where "WARNING_LOW_BAT_ACT = ''warning_low_bat_act''"
definition CRITICAL_LOW_BAT_ACT :: string where "CRITICAL_LOW_BAT_ACT = ''critical_low_bat_act''"
definition POWER_OFF_BAT_ACT :: string where "POWER_OFF_BAT_ACT = ''power_off_bat_act''"
definition CHARGE_BAT_ACT :: string where "CHARGE_BAT_ACT = ''charge_bat_act''"
definition CHARGE_CHECK_ACT :: string where "CHARGE_CHECK_ACT = ''charge_check_act''"
definition CHARGE_ERROR_ACT :: string where "CHARGE_ERROR_ACT = ''charge_error_act''"
definition PREDEF_EARJACKCON :: string where "PREDEF_EARJACKCON = ''earjack_predef_internal''"
definition PREDEF_SET_DATETIME :: string where "PREDEF_SET_DATETIME = ''set_datetime''"
definition PREDEF_SET_TIMEZONE :: string where "PREDEF_SET_TIMEZONE = ''set_timezone''"
definition PREDEF_MOUNT_MMC :: string where "PREDEF_MOUNT_MMC = ''mountmmc''"
definition PREDEF_UNMOUNT_MMC :: string where "PREDEF_UNMOUNT_MMC = ''unmountmmc''"
definition PREDEF_FORMAT_MMC :: string where "PREDEF_FORMAT_MMC = ''formatmmc''"
definition PREDEF_SET_MAX_FREQUENCY :: string where
  "PREDEF_SET_MAX_FREQUENCY = ''set_max_frequency''"
definition PREDEF_SET_MIN_FREQUENCY :: string where
  "PREDEF_SET_MIN_FREQUENCY = ''set_min_frequency''"
definition PREDEF_RELEASE_MAX_FREQUENCY :: string where
  "PREDEF_RELEASE_MAX_FREQUENCY = ''release_max_frequency''"
definition PREDEF_RELEASE_MIN_FREQUENCY :: string where
  "PREDEF_RELEASE_MIN_FREQUENCY = ''release_min_frequency''"

definition MOVINAND_MOUNT_POINT :: string where "MOVINAND_MOUNT_POINT = ''/opt/media''"
definition MMC_MOUNT_POINT :: string where "MMC_MOUNT_POINT = ''/opt/storage/sdcard''"

text \<open>The macro \<open>PREFIX\<close>, with the value the packages are built with.\<close>

definition PREFIX :: string where "PREFIX = ''/usr''"

lemmas predef_names = PREDEF_CALL_def PREDEF_LOWMEM_def PREDEF_LOWBAT_def PREDEF_USBCON_def
  PREDEF_POWEROFF_def PREDEF_REBOOT_def PREDEF_PWROFF_POPUP_def PREDEF_BACKGRD_def
  PREDEF_FOREGRD_def PREDEF_ACTIVE_def PREDEF_INACTIVE_def PREDEF_USB_STORAGE_ADD_def
  PREDEF_USB_STORAGE_REMOVE_def OOMADJ_SET_def PREDEF_EARJACKCON_def PREDEF_SET_DATETIME_def
  PREDEF_SET_TIMEZONE_def PREDEF_MOUNT_MMC_def PREDEF_UNMOUNT_MMC_def PREDEF_FORMAT_MMC_def
  PREDEF_SET_MAX_FREQUENCY_def PREDEF_SET_MIN_FREQUENCY_def PREDEF_RELEASE_MAX_FREQUENCY_def
  PREDEF_RELEASE_MIN_FREQUENCY_def

text \<open>A pointer to a string, with what \<open>%s\<close> or a guarded copy makes of NULL.\<close>

definition str_or_empty :: "string option \<Rightarrow> string" where
  "str_or_empty s = (case s of None \<Rightarrow> [] | Some t \<Rightarrow> t)"

section \<open>The process when it starts\<close>

definition boot :: ss where
  "boot = \<lparr>trace = [], halted = None, files = (\<lambda>_. None), predef_act_list = [], run_queue = [],
     next_addr = 0, core_pipe = [],
     bat = \<lparr>lowbat_timer = 0, cur_bat_state = -1, cur_bat_capacity = -1, bat_err_count = 0\<rparr>,
     mem = \<lparr>lowmem_fd = -1, cur_mem_state = 0, oom_timer = 0, oom_delete_sm_time = 0\<rparr>,
     cpu = \<lparr>max_cpu_freq_limit = -1, min_cpu_freq_limit = -1, cur_max_cpu_freq = INT_MAX,
            cur_min_cpu_freq = INT_MIN, max_cpu_freq_list = [], min_cpu_freq_list = []\<rparr>,
     pre = \<lparr>lowbat_popup_id = 0, lowbat_popup_option = 0, tv_start_poweroff = 0,
            poweroff_timer_id = 0, tapi_handle = 0, old_pid = 0\<rparr>,
     dev = \<lparr>mmc_status = 0, added_noti_value = 0, removed_noti_value = 0, tempfs_mounted = 0,
            input_device_number = 0, bat_full_noti = 0, noti_fd = 0, pmon_fd = -1,
            dlopen_handle = 0, bs_file_monitor = 0\<rparr>\<rparr>"

text \<open>An environment in which every call returns 1 and stores nothing.\<close>

definition env1 :: env where
  "env1 = \<lparr>e_ret = (\<lambda>_ _. 1), e_out = (\<lambda>_ _. None), e_str = (\<lambda>_ _. None),
     e_errno = (\<lambda>_. E_OTHER), e_dir = (\<lambda>_ _. []), e_junk = (\<lambda>_. 0), e_stack = (\<lambda>_. []), e_write = (\<lambda>_ _ _. True),
     konst = (\<lambda>_. 0)\<rparr>"

text \<open>Memory is never exhausted.\<close>

definition malloc_ok :: "env \<Rightarrow> bool" where
  "malloc_ok E \<longleftrightarrow> (\<forall>h n. e_ret E h (OS (Malloc n)) \<noteq> 0)"

lemma malloc_okD: "malloc_ok E \<Longrightarrow> e_ret E h (OS (Malloc n)) \<noteq> 0"
  by (simp add: malloc_ok_def)

lemma boot_simps [simp]:
  "trace boot = []" "halted boot = None" "alive boot" "files boot = (\<lambda>_. None)"
  "predef_act_list boot = []" "run_queue boot = []" "core_pipe boot = []" "next_addr boot = 0"
  by (simp_all add: boot_def alive_def)

lemma env1_simps [simp]:
  "e_ret env1 h c = 1" "e_out env1 h c = None" "e_str env1 h c = None" "e_dir env1 h p = []"
  "e_junk env1 h = 0" "e_stack env1 h = []" "e_write env1 h p t" "konst env1 k = 0"
  by (simp_all add: env1_def)

end
