(* ===== verification/SS_Queue.thy ===== *)
theory SS_Queue
  imports SS_Data
begin

text \<open>
  \<open>ss_queue.c\<close>: the table of predefined actions (\<open>predef_act_list\<close>) and the queue of
  action runs (\<open>run_queue\<close>), both Eina lists to which the code prepends; and the two
  functions of \<open>ss_core.c\<close> that post a message on the daemon's own pipe, which
  \<open>ss_queue.c\<close> calls.

  An entry of the run queue is allocated once and compared by address; \<open>rq_addr\<close> is
  that address, taken from a counter, so an address is not reused while the daemon
  runs.  \<open>strdup\<close> is taken to succeed.  Arguments are \<open>string option\<close>, None being a
  NULL pointer.
\<close>

section \<open>Messages\<close>

definition SYSMAN_MAXARG :: int where "SYSMAN_MAXARG = 16"

record sysnoti =
  sn_pid :: int
  sn_cmd :: int
  sn_type :: "string option"
  sn_path :: "string option"
  sn_argc :: int
  sn_argv :: "string option list"

definition ss_core_action_run :: "(ss, int) state" where
  "ss_core_action_run = do {
     upd (\<lambda>s. s\<lparr>core_pipe := core_pipe s @ [\<lparr>im_type = SS_CORE_ACT_RUN, im_pid = 0\<rparr>]\<rparr>);
     return 0
   }"

definition ss_core_action_clear :: "int \<Rightarrow> (ss, int) state" where
  "ss_core_action_clear pid = do {
     upd (\<lambda>s. s\<lparr>core_pipe := core_pipe s @ [\<lparr>im_type = SS_CORE_ACT_CLEAR, im_pid = pid\<rparr>]\<rparr>);
     return 0
   }"

section \<open>The table of actions\<close>

text \<open>
  The loop compares \<open>data->type\<close> with \<open>type\<close> by \<open>strcmp\<close>: with a NULL \<open>type\<close> the
  first comparison dereferences it.
\<close>

definition ss_action_entry_find :: "string option \<Rightarrow> (ss, action_entry option) state" where
  "ss_action_entry_find type = do {
     l \<leftarrow> getv predef_act_list;
     case type of
       Some t \<Rightarrow> return (find (\<lambda>d. ae_type d = t) l)
     | None \<Rightarrow> if l = [] then return None else do { halt NullDeref; return None }
   }"

definition ss_action_entry_add_internal ::
  "env \<Rightarrow> string \<Rightarrow> action_fn option \<Rightarrow> string option \<Rightarrow> string option \<Rightarrow> (ss, int) state" where
  "ss_action_entry_add_internal E type predefine ui access = do {
     data \<leftarrow> call E (OS (Malloc 28));
     if data = 0 then return (-1)
     else do {
       found \<leftarrow> ss_action_entry_find (Some type);
       if found \<noteq> None then return (-1)
       else case predefine of
         None \<Rightarrow> return (-1)
       | Some f \<Rightarrow> do {
           pid \<leftarrow> call E (OS Getpid);
           upd (\<lambda>s. s\<lparr>predef_act_list :=
             \<lparr>owner_pid = pid, ae_type = type, ae_path = '''', predefine_action = f,
              ui_viewable = ui, is_accessable = access\<rparr> # predef_act_list s\<rparr>);
           return 0
         }
     }
   }"

text \<open>Registering a shared object: its symbols are looked up by name.\<close>

definition ss_action_entry_add :: "env \<Rightarrow> int \<Rightarrow> string \<Rightarrow> string \<Rightarrow> (ss, int) state" where
  "ss_action_entry_add E msg_pid msg_type msg_path = do {
     data \<leftarrow> call E (OS (Malloc 28));
     if data = 0 then return (-1)
     else do {
       found \<leftarrow> ss_action_entry_find (Some msg_type);
       if found \<noteq> None then return (-1)
       else do {
         handle \<leftarrow> call E (DL (Dlopen msg_path));
         if handle = 0 then return (-1)
         else do {
           f \<leftarrow> call E (DL (Dlsym msg_path ''ss_predefine_action''));
           if f = 0 then return (-1)
           else do {
             acc \<leftarrow> call E (DL (Dlsym msg_path ''ss_is_accessable''));
             ui \<leftarrow> call E (DL (Dlsym msg_path ''ss_ui_viewable''));
             upd (\<lambda>s. s\<lparr>predef_act_list :=
               \<lparr>owner_pid = msg_pid, ae_type = msg_type, ae_path = msg_path,
                predefine_action = Fn_ext msg_path,
                ui_viewable = (if ui = 0 then None else Some msg_path),
                is_accessable = (if acc = 0 then None else Some msg_path)\<rparr> # predef_act_list s\<rparr>);
             return 0
           }
         }
       }
     }
   }"

section \<open>The run queue\<close>

definition ss_run_queue_add ::
  "env \<Rightarrow> action_entry \<Rightarrow> int \<Rightarrow> string option list \<Rightarrow> (ss, int) state" where
  "ss_run_queue_add E act_entry argc argv = do {
     rq \<leftarrow> call E (OS (Malloc 80));
     if rq = 0 then return (-1)
     else if argc > SYSMAN_MAXARG then do { halt OutOfBounds; return (-1) }
     else do {
       upd (\<lambda>s. s\<lparr>run_queue :=
           \<lparr>rq_addr = next_addr s, rq_state = SS_STATE_INIT, rq_action_entry = act_entry,
            forked_pid = 0, rq_argc = argc, rq_argv = take (nat argc) argv\<rparr> # run_queue s,
         next_addr := Suc (next_addr s)\<rparr>);
       return 0
     }
   }"

definition rq_find :: "nat \<Rightarrow> ss \<Rightarrow> ss_run_queue_entry option" where
  "rq_find a s = find (\<lambda>e. rq_addr e = a) (run_queue s)"

text \<open>
  \<open>EINA_LIST_FOREACH_SAFE\<close> walks the nodes the list had when the loop began; the test
  of \<open>state\<close> reads the entry when its turn comes.
\<close>

definition ss_run_queue_run ::
  "run_state \<Rightarrow> (ss_run_queue_entry \<Rightarrow> (ss, unit) state) \<Rightarrow> (ss, int) state" where
  "ss_run_queue_run st run_func = do {
     q \<leftarrow> getv run_queue;
     for_each (\<lambda>e. do {
       cur \<leftarrow> getv (rq_find (rq_addr e));
       case cur of
         None \<Rightarrow> return ()
       | Some rq_entry \<Rightarrow> if rq_state rq_entry = st then run_func rq_entry else return ()
     }) q;
     return 0
   }"

definition ss_run_queue_find_bypid :: "int \<Rightarrow> (ss, ss_run_queue_entry option) state" where
  "ss_run_queue_find_bypid pid = getv (\<lambda>s. find (\<lambda>e. forked_pid e = pid) (run_queue s))"

definition ss_run_queue_del :: "nat \<Rightarrow> (ss, int) state" where
  "ss_run_queue_del entry = do {
     upd (\<lambda>s. s\<lparr>run_queue := filter (\<lambda>e. rq_addr e \<noteq> entry) (run_queue s)\<rparr>);
     return 0
   }"

definition ss_run_queue_del_bypid :: "int \<Rightarrow> (ss, int) state" where
  "ss_run_queue_del_bypid pid = do {
     upd (\<lambda>s. s\<lparr>run_queue := filter (\<lambda>e. forked_pid e \<noteq> pid) (run_queue s)\<rparr>);
     return 0
   }"

section \<open>Calling an action\<close>

text \<open>The variadic arguments are the list \<open>args\<close>; each is copied with \<open>strdup\<close>.\<close>

definition ss_action_entry_call_internal ::
  "env \<Rightarrow> string option \<Rightarrow> int \<Rightarrow> string option list \<Rightarrow> (ss, int) state" where
  "ss_action_entry_call_internal E type argc args =
     (if argc > SYSMAN_MAXARG \<or> type = None then return (-1)
      else do {
        found \<leftarrow> ss_action_entry_find type;
        case found of
          None \<Rightarrow> return 0
        | Some data \<Rightarrow> do {
            ss_run_queue_add E data argc (take (nat argc) args);
            ss_core_action_run;
            return 0
          }
      })"

definition ss_action_entry_call ::
  "env \<Rightarrow> sysnoti \<Rightarrow> int \<Rightarrow> string option list \<Rightarrow> (ss, int) state" where
  "ss_action_entry_call E msg argc argv = do {
     found \<leftarrow> ss_action_entry_find (sn_type msg);
     case found of
       None \<Rightarrow> return (-1)
     | Some data \<Rightarrow> do {
         allowed \<leftarrow> (case is_accessable data of
             None \<Rightarrow> return 1
           | Some lib \<Rightarrow> call E (DL (Is_accessable lib (sn_pid msg))));
         if allowed = 0 then return (-1)
         else do {
           ss_run_queue_add E data argc argv;
           ss_core_action_run;
           return 0
         }
       }
   }"

section \<open>Registration\<close>

definition action_lookup :: "ss \<Rightarrow> string \<Rightarrow> action_entry option" where
  "action_lookup s t = find (\<lambda>d. ae_type d = t) (predef_act_list s)"

definition table_ok :: "ss \<Rightarrow> bool" where
  "table_ok s \<longleftrightarrow> distinct (map ae_type (predef_act_list s))"

lemma off_log_table_ok [frames]: "off_log table_ok"
  by (auto simp: table_ok_def)

lemma find_Some_exec [simp]: "exec (ss_action_entry_find (Some t)) s = s"
  by (simp add: ss_action_entry_find_def)

lemma find_Some_result [simp]: "result (ss_action_entry_find (Some t)) s = action_lookup s t"
  by (simp add: ss_action_entry_find_def action_lookup_def)

lemma action_lookup_log_call [simp]: "action_lookup (log_call e s) t = action_lookup s t"
  by (simp add: action_lookup_def)

lemma action_lookup_None: "action_lookup s t = None \<longleftrightarrow> t \<notin> ae_type ` set (predef_act_list s)"
  by (auto simp: action_lookup_def find_None_iff)

text \<open>
  Both ways of registering an action keep one contract: on success exactly one entry of
  the given type goes in front of a table that had none of it, on failure the table
  stays as it was.
\<close>

locale registrar =
  fixes add :: "string \<Rightarrow> (ss, int) state"
  assumes add_ok: "alive s \<Longrightarrow> result (add t) s = 0 \<Longrightarrow>
      action_lookup s t = None \<and>
      (\<exists>d. ae_type d = t \<and> predef_act_list (exec (add t) s) = d # predef_act_list s)"
    and add_fail: "result (add t) s \<noteq> 0 \<Longrightarrow>
      result (add t) s = -1 \<and> predef_act_list (exec (add t) s) = predef_act_list s"
    and add_dead: "\<not> alive s \<Longrightarrow> exec (add t) s = s"
begin

lemma duplicate_rejected:
  assumes "alive s" "action_lookup s t \<noteq> None"
  shows "result (add t) s = -1 \<and> predef_act_list (exec (add t) s) = predef_act_list s"
proof -
  have "result (add t) s \<noteq> 0" using add_ok [OF assms(1), of t] assms(2) by auto
  then show ?thesis by (rule add_fail)
qed

lemma pres_table: "pres table_ok (add t)"
proof -
  have "table_ok (exec (add t) s)" if ok: "table_ok s" for s
  proof (cases "alive s \<and> result (add t) s = 0")
    case True
    then obtain d where "ae_type d = t" "action_lookup s t = None"
      "predef_act_list (exec (add t) s) = d # predef_act_list s"
      using add_ok by blast
    then show ?thesis using ok by (simp add: table_ok_def action_lookup_None)
  next
    case False
    then show ?thesis using ok add_fail add_dead by (metis table_ok_def)
  qed
  then show ?thesis by (simp add: pres_def)
qed

lemma lookup_after:
  assumes "alive s" "result (add t) s = 0"
  shows "(\<exists>d. ae_type d = t \<and> action_lookup (exec (add t) s) t = Some d) \<and>
    (\<forall>u. u \<noteq> t \<longrightarrow> action_lookup (exec (add t) s) u = action_lookup s u)"
  using add_ok [OF assms] by (auto simp: action_lookup_def)

end

lemma add_internal_cases:
  fixes E s t f ui acc
  defines "m \<equiv> ss_action_entry_add_internal E t f ui acc"
  shows "result m s = 0 \<and> action_lookup s t = None \<and>
      (alive s \<longrightarrow> (\<exists>d. ae_type d = t \<and> predef_act_list (exec m s) = d # predef_act_list s)) \<or>
    result m s = -1 \<and> predef_act_list (exec m s) = predef_act_list s"
  by (cases f) (simp_all add: m_def ss_action_entry_add_internal_def)

lemma add_internal_dead: "\<not> alive s \<Longrightarrow> exec (ss_action_entry_add_internal E t f ui acc) s = s"
  by (cases f) (simp_all add: ss_action_entry_add_internal_def)

lemma add_shared_cases:
  fixes E pid t path s
  defines "m \<equiv> ss_action_entry_add E pid t path"
  shows "result m s = 0 \<and> action_lookup s t = None \<and>
      (alive s \<longrightarrow> (\<exists>d. ae_type d = t \<and> predef_act_list (exec m s) = d # predef_act_list s)) \<or>
    result m s = -1 \<and> predef_act_list (exec m s) = predef_act_list s"
  by (simp add: m_def ss_action_entry_add_def)

lemma add_shared_dead: "\<not> alive s \<Longrightarrow> exec (ss_action_entry_add E pid t path) s = s"
  by (simp add: ss_action_entry_add_def)

interpretation internal: registrar "\<lambda>t. ss_action_entry_add_internal E t f ui acc"
  for E f ui acc
proof (unfold_locales, goal_cases)
  case (1 s t)
  then show ?case using add_internal_cases [of E t f ui acc s] by auto
next
  case (2 t s)
  then show ?case using add_internal_cases [of E t f ui acc s] by auto
next
  case (3 s t)
  then show ?case by (rule add_internal_dead)
qed

interpretation shared: registrar "\<lambda>t. ss_action_entry_add E pid t path"
  for E pid path
proof (unfold_locales, goal_cases)
  case (1 s t)
  then show ?case using add_shared_cases [of E pid t path s] by auto
next
  case (2 t s)
  then show ?case using add_shared_cases [of E pid t path s] by auto
next
  case (3 s t)
  then show ?case by (rule add_shared_dead)
qed

lemmas table_presI [presI] = internal.pres_table shared.pres_table

lemma add_internal_succeeds:
  assumes "alive s" "e_ret E (trace s) (OS (Malloc 28)) \<noteq> 0" "action_lookup s t = None"
  shows "result (ss_action_entry_add_internal E t (Some f) ui acc) s = 0 \<and>
    action_lookup (exec (ss_action_entry_add_internal E t (Some f) ui acc) s) t =
      Some \<lparr>owner_pid = e_ret E (OS (Malloc 28) # trace s) (OS Getpid), ae_type = t, ae_path = [],
           predefine_action = f, ui_viewable = ui, is_accessable = acc\<rparr>"
  using assms by (simp add: ss_action_entry_add_internal_def action_lookup_def)

section \<open>Effect of the queue operations\<close>

definition new_entry :: "ss \<Rightarrow> action_entry \<Rightarrow> int \<Rightarrow> string option list \<Rightarrow> ss_run_queue_entry" where
  "new_entry s d argc argv =
     \<lparr>rq_addr = next_addr s, rq_state = SS_STATE_INIT, rq_action_entry = d, forked_pid = 0,
      rq_argc = argc, rq_argv = take (nat argc) argv\<rparr>"

abbreviation run_msg :: internal_msg where
  "run_msg \<equiv> \<lparr>im_type = SS_CORE_ACT_RUN, im_pid = 0\<rparr>"

abbreviation clear_msg :: "int \<Rightarrow> internal_msg" where
  "clear_msg p \<equiv> \<lparr>im_type = SS_CORE_ACT_CLEAR, im_pid = p\<rparr>"

lemma exec_core_action_run [simp]:
  "exec ss_core_action_run s = (if alive s then s\<lparr>core_pipe := core_pipe s @ [run_msg]\<rparr> else s)"
  by (simp add: ss_core_action_run_def)

lemma exec_core_action_clear [simp]:
  "exec (ss_core_action_clear p) s =
     (if alive s then s\<lparr>core_pipe := core_pipe s @ [clear_msg p]\<rparr> else s)"
  by (simp add: ss_core_action_clear_def)

lemma exec_run_queue_add:
  "exec (ss_run_queue_add E d argc argv) s =
     (if \<not> alive s then s
      else if e_ret E (trace s) (OS (Malloc 80)) = 0 then log_call (OS (Malloc 80)) s
      else if argc > SYSMAN_MAXARG then (log_call (OS (Malloc 80)) s)\<lparr>halted := Some OutOfBounds\<rparr>
      else (log_call (OS (Malloc 80)) s)\<lparr>run_queue := new_entry s d argc argv # run_queue s,
             next_addr := Suc (next_addr s)\<rparr>)"
  by (simp add: ss_run_queue_add_def new_entry_def)

lemma exec_run_queue_del_bypid [simp]:
  "exec (ss_run_queue_del_bypid p) s =
     (if alive s then s\<lparr>run_queue := filter (\<lambda>e. forked_pid e \<noteq> p) (run_queue s)\<rparr> else s)"
  by (simp add: ss_run_queue_del_bypid_def)

lemma rq_find_mem: "rq_find a s = Some e \<Longrightarrow> e \<in> set (run_queue s) \<and> rq_addr e = a"
  by (auto simp: rq_find_def dest: find_Some_mem)

lemma stops_queue [stops]:
  "obeys_halt ss_core_action_run" "obeys_halt (ss_core_action_clear p)"
  "obeys_halt (ss_action_entry_find t)" "obeys_halt (ss_run_queue_add E d argc argv)"
  "obeys_halt (ss_run_queue_del_bypid p)"
  unfolding ss_core_action_run_def ss_core_action_clear_def ss_action_entry_find_def
    ss_run_queue_add_def ss_run_queue_del_bypid_def
  by (intro stops)+

lemma stops_queue_run [stops]:
  assumes "\<And>e. obeys_halt (f e)"
  shows "obeys_halt (ss_run_queue_run st f)"
  unfolding ss_run_queue_run_def by (intro stops assms)

lemma stops_action_calls [stops]:
  "obeys_halt (ss_action_entry_call_internal E t argc args)"
  "obeys_halt (ss_action_entry_call E msg argc argv)"
  unfolding ss_action_entry_call_internal_def ss_action_entry_call_def
  by (intro stops)+

lemma exec_call_internal:
  "exec (ss_action_entry_call_internal E (Some t) argc args) s =
     (if argc > SYSMAN_MAXARG then s
      else case action_lookup s t of
        None \<Rightarrow> s
      | Some d \<Rightarrow> exec ss_core_action_run (exec (ss_run_queue_add E d argc (take (nat argc) args)) s))"
  by (simp add: ss_action_entry_call_internal_def split: option.split)

section \<open>Posting an action, on the queue alone\<close>

text \<open>
  What \<open>ss_action_entry_call_internal\<close> does to the table, the queue and the pipe when
  there is memory: an unknown type changes nothing, a known one puts one waiting entry in
  front of the queue and one message behind the others.
\<close>

type_synonym queue_view =
  "action_entry list \<times> ss_run_queue_entry list \<times> nat \<times> internal_msg list"

fun post_action :: "string \<Rightarrow> int \<Rightarrow> string option list \<Rightarrow> queue_view \<Rightarrow> queue_view" where
  "post_action t argc args (acts, q, a, p) =
     (case find (\<lambda>d. ae_type d = t) acts of
        None \<Rightarrow> (acts, q, a, p)
      | Some d \<Rightarrow> (acts,
          \<lparr>rq_addr = a, rq_state = SS_STATE_INIT, rq_action_entry = d, forked_pid = 0,
           rq_argc = argc, rq_argv = take (nat argc) args\<rparr> # q, Suc a, p @ [run_msg]))"

lemma call_internal_posts:
  assumes "alive s" "malloc_ok E" "argc \<le> SYSMAN_MAXARG"
  shows "queue_part (exec (ss_action_entry_call_internal E (Some t) argc args) s) =
      post_action t argc args (queue_part s)"
    and "alive (exec (ss_action_entry_call_internal E (Some t) argc args) s)"
  using assms
  by (simp_all add: exec_call_internal exec_run_queue_add malloc_okD new_entry_def queue_part_def
      action_lookup_def split: option.split)

lemma call_internal_components [simp]:
  "bat (exec (ss_action_entry_call_internal E (Some t) argc args) s) = bat s"
  "mem (exec (ss_action_entry_call_internal E (Some t) argc args) s) = mem s"
  "cpu (exec (ss_action_entry_call_internal E (Some t) argc args) s) = cpu s"
  "pre (exec (ss_action_entry_call_internal E (Some t) argc args) s) = pre s"
  "dev (exec (ss_action_entry_call_internal E (Some t) argc args) s) = dev s"
  "files (exec (ss_action_entry_call_internal E (Some t) argc args) s) = files s"
  by (simp_all add: exec_call_internal exec_run_queue_add split: option.split)

lemma emits_call_internal [emitsI]:
  "(\<And>n. P (OS (Malloc n))) \<Longrightarrow> emits P (ss_action_entry_call_internal E t argc args)"
  unfolding ss_action_entry_call_internal_def ss_action_entry_find_def ss_run_queue_add_def
    ss_core_action_run_def
  by (intro emitsI emits_upd; simp)

end
