(* ===== verification/SS_Core.thy ===== *)
theory SS_Core
  imports SS_Queue
begin

text \<open>
  \<open>ss_core.c\<close> and the SIGCHLD handler of \<open>ss_sig_handler.c\<close>: the loop that runs the
  queued actions.  \<open>core_pipe\<close> is the content of the daemon's pipe, oldest message
  first; its capacity is not modelled.  The function pointer stored in an action entry
  is called through the parameter \<open>act\<close>, which the dispatch theory instantiates with
  the model of every registered action.
\<close>

type_synonym action_runner = "action_fn \<Rightarrow> int \<Rightarrow> string option list \<Rightarrow> (ss, int) state"

section \<open>The functions\<close>

definition rq_update :: "nat \<Rightarrow> (ss_run_queue_entry \<Rightarrow> ss_run_queue_entry) \<Rightarrow> (ss, unit) state" where
  "rq_update a f = upd (\<lambda>s. s\<lparr>run_queue := map (\<lambda>e. if rq_addr e = a then f e else e) (run_queue s)\<rparr>)"

definition status_path :: "int \<Rightarrow> string" where
  "status_path pid = ''/proc/'' @ show_int pid @ ''/status''"

definition fast_done :: "nat \<Rightarrow> (ss, unit) state" where
  "fast_done a = do {
     rq_update a (\<lambda>e. e\<lparr>forked_pid := -1\<rparr>);
     rq_update a (\<lambda>e. e\<lparr>rq_state := SS_STATE_DONE\<rparr>);
     ss_core_action_clear (-1);
     return ()
   }"

text \<open>\<open>_ss_core_action_run\<close>\<close>

definition core_action_run :: "env \<Rightarrow> action_runner \<Rightarrow> ss_run_queue_entry \<Rightarrow> (ss, unit) state" where
  "core_action_run E act rq_entry = do {
     rq_update (rq_addr rq_entry) (\<lambda>e. e\<lparr>rq_state := SS_STATE_RUNNING\<rparr>);
     ret \<leftarrow> act (predefine_action (rq_action_entry rq_entry)) (rq_argc rq_entry) (rq_argv rq_entry);
     if ret \<le> 0 then fast_done (rq_addr rq_entry)
     else do {
       r \<leftarrow> call E (FS (Access (status_path ret)));
       if r = 0 then rq_update (rq_addr rq_entry) (\<lambda>e. e\<lparr>forked_pid := ret\<rparr>)
       else fast_done (rq_addr rq_entry)
     }
   }"

definition core_pipe_cb :: "env \<Rightarrow> action_runner \<Rightarrow> (ss, int) state" where
  "core_pipe_cb E act = do {
     active \<leftarrow> call E (ECORE Fd_handler_active);
     if active = 0 then return 1
     else do {
       p \<leftarrow> getv core_pipe;
       case p of
         [] \<Rightarrow> do { halt Blocked; return 1 }
       | m # ms \<Rightarrow> do {
           upd (\<lambda>s. s\<lparr>core_pipe := ms\<rparr>);
           (case im_type m of
              SS_CORE_ACT_RUN \<Rightarrow> ss_run_queue_run SS_STATE_INIT (core_action_run E act)
            | SS_CORE_ACT_CLEAR \<Rightarrow> ss_run_queue_del_bypid (im_pid m));
           return 1
         }
     }
   }"

definition ss_core_init :: "env \<Rightarrow> (ss, int) state" where
  "ss_core_init E = do {
     r \<leftarrow> call E (IPC Pipe);
     if r < 0 then do { halt (Exited 1); return 0 }
     else do {
       call E (ECORE (Fd_handler_add 0));
       return 0
     }
   }"

text \<open>\<open>si_pid\<close> is the child the kernel reports.\<close>

definition sig_child_handler :: "env \<Rightarrow> int \<Rightarrow> (ss, unit) state" where
  "sig_child_handler E si_pid = do {
     pid \<leftarrow> call E (OS (Waitpid si_pid));
     if pid = -1 then return ()
     else do { ss_core_action_clear si_pid; return () }
   }"

definition ss_signal_init :: "env \<Rightarrow> (ss, unit) state" where
  "ss_signal_init E = do {
     call E (OS (Sigaction 17));
     call E (OS (Sigaction 13));
     return ()
   }"

section \<open>The queue invariant\<close>

definition msg_ok :: "internal_msg \<Rightarrow> bool" where
  "msg_ok m \<longleftrightarrow> (im_type m = SS_CORE_ACT_CLEAR \<longrightarrow> im_pid m = -1 \<or> 0 < im_pid m)"

definition run_pending :: "ss \<Rightarrow> bool" where
  "run_pending s \<longleftrightarrow> (\<exists>m \<in> set (core_pipe s). im_type m = SS_CORE_ACT_RUN)"

definition clear_pending :: "ss \<Rightarrow> bool" where
  "clear_pending s \<longleftrightarrow> clear_msg (-1) \<in> set (core_pipe s)"

text \<open>
  What holds of an entry between two callbacks: one that waits has a RUN message under
  way, one that is done has the message that will free it under way, and one that runs
  has the pid of a process.
\<close>

fun entry_ok :: "run_state \<Rightarrow> int \<Rightarrow> bool \<Rightarrow> bool \<Rightarrow> bool" where
  "entry_ok SS_STATE_INIT p run clear \<longleftrightarrow> p = 0 \<and> run"
| "entry_ok SS_STATE_RUNNING p run clear \<longleftrightarrow> 0 < p"
| "entry_ok SS_STATE_DONE p run clear \<longleftrightarrow> p = -1 \<and> clear"

definition queue_shape :: "ss \<Rightarrow> bool" where
  "queue_shape s \<longleftrightarrow>
     distinct (map rq_addr (run_queue s)) \<and>
     (\<forall>e \<in> set (run_queue s). rq_addr e < next_addr s \<and> rq_argc e \<le> SYSMAN_MAXARG) \<and>
     (\<forall>m \<in> set (core_pipe s). msg_ok m)"

definition entries_ok :: "ss \<Rightarrow> bool" where
  "entries_ok s \<longleftrightarrow>
     (\<forall>e \<in> set (run_queue s). entry_ok (rq_state e) (forked_pid e) (run_pending s) (clear_pending s))"

definition queue_inv :: "ss \<Rightarrow> bool" where
  "queue_inv s \<longleftrightarrow> (alive s \<longrightarrow> queue_shape s \<and> entries_ok s)"

lemma off_log_queue [simp]:
  "queue_shape (log_call c s) = queue_shape s" "run_pending (log_call c s) = run_pending s"
  "clear_pending (log_call c s) = clear_pending s" "entries_ok (log_call c s) = entries_ok s"
  "queue_inv (log_call c s) = queue_inv s"
  by (simp_all add: queue_shape_def run_pending_def clear_pending_def entries_ok_def queue_inv_def)

lemma queue_inv_off_log [frames]: "off_log queue_inv"
  by (auto)

text \<open>The invariant reads only the queue and the pipe.\<close>

lemma queue_inv_cong:
  "queue_part s = queue_part t \<Longrightarrow> alive s \<or> \<not> alive t \<Longrightarrow> queue_inv s \<Longrightarrow> queue_inv t"
  by (auto simp: queue_part_def queue_inv_def queue_shape_def entries_ok_def run_pending_def
      clear_pending_def)

section \<open>Posting keeps the invariant\<close>

lemma entry_ok_mono:
  "entry_ok st p r c \<Longrightarrow> (r \<Longrightarrow> r') \<Longrightarrow> (c \<Longrightarrow> c') \<Longrightarrow> entry_ok st p r' c'"
  by (cases st) auto

lemma pres_post_run: "pres queue_inv ss_core_action_run"
  by (auto simp: pres_def queue_inv_def queue_shape_def entries_ok_def run_pending_def
      clear_pending_def msg_ok_def elim: entry_ok_mono)

lemma pres_post_clear:
  assumes "p = -1 \<or> 0 < p"
  shows "pres queue_inv (ss_core_action_clear p)"
  using assms
  by (auto simp: pres_def queue_inv_def queue_shape_def entries_ok_def run_pending_def
      clear_pending_def msg_ok_def elim: entry_ok_mono)

text \<open>Adding an entry and posting RUN is one step of every caller.\<close>

lemma queue_inv_add_run:
  assumes "queue_inv s"
  shows "queue_inv (exec ss_core_action_run (exec (ss_run_queue_add E d argc argv) s))"
  using assms unfolding exec_run_queue_add
  by (auto simp: queue_inv_def queue_shape_def entries_ok_def run_pending_def
      clear_pending_def msg_ok_def new_entry_def elim: entry_ok_mono)

lemma pres_call_internal [presI]: "pres queue_inv (ss_action_entry_call_internal E t argc args)"
proof (cases t)
  case None
  then show ?thesis by (simp add: pres_def ss_action_entry_call_internal_def)
next
  case (Some u)
  then show ?thesis
    using queue_inv_add_run by (simp add: pres_def exec_call_internal split: option.split)
qed

lemma exec_rq_update [simp]:
  "exec (rq_update a f) s =
     (if alive s then s\<lparr>run_queue := map (\<lambda>e. if rq_addr e = a then f e else e) (run_queue s)\<rparr> else s)"
  by (simp add: rq_update_def)

lemma stops_core [stops]: "obeys_halt (rq_update a f)" "obeys_halt (fast_done a)"
  unfolding rq_update_def fast_done_def by (intro stops)+

section \<open>What one run of an entry does\<close>

text \<open>
  What the core loop asks of the functions it calls: they leave the table and the queue
  alone, and all that is written to the pipe while one runs are the messages of the signal
  handler, for processes of \<open>deaths\<close>.
\<close>

locale loop_runner =
  fixes act :: action_runner and deaths :: "int set"
  assumes act_keeps: "frame (\<lambda>s. (predef_act_list s, run_queue s, next_addr s)) (act f argc argv)"
    and act_reports: "\<exists>ps. set ps \<subseteq> {p \<in> deaths. 0 < p} \<and>
      core_pipe (exec (act f argc argv) s) = core_pipe s @ map clear_msg ps"
    and stops_act: "obeys_halt (act f argc argv)"

text \<open>A function that no signal interrupts writes nothing to the pipe.\<close>

locale runner =
  fixes act :: action_runner
  assumes act_frame: "frame queue_part (act f argc argv)"
    and act_stops: "obeys_halt (act f argc argv)"
begin

lemma act_parts:
  "run_queue (exec (act f argc argv) s) = run_queue s"
  "core_pipe (exec (act f argc argv) s) = core_pipe s"
  "next_addr (exec (act f argc argv) s) = next_addr s"
  "predef_act_list (exec (act f argc argv) s) = predef_act_list s"
  using frameD [OF act_frame, of f argc argv s] by (simp_all add: queue_part_def)

end

sublocale runner \<subseteq> loop_runner act "{}"
  by unfold_locales (auto simp: act_parts act_stops frame_def)

text \<open>The state before and after one run; \<open>ps\<close> are the deaths reported during it.\<close>

definition ran :: "ss_run_queue_entry \<Rightarrow> int list \<Rightarrow> ss \<Rightarrow> ss \<Rightarrow> bool" where
  "ran x ps s s' \<longleftrightarrow> (\<exists>p st.
     (st = SS_STATE_RUNNING \<and> 0 < p \<and> core_pipe s' = core_pipe s @ map clear_msg ps \<or>
      st = SS_STATE_DONE \<and> p = -1 \<and> core_pipe s' = core_pipe s @ map clear_msg ps @ [clear_msg (-1)]) \<and>
     run_queue s' = map (\<lambda>y. if rq_addr y = rq_addr x then y\<lparr>rq_state := st, forked_pid := p\<rparr> else y) (run_queue s) \<and>
     next_addr s' = next_addr s)"

context loop_runner
begin

lemma act_fields:
  "run_queue (exec (act f argc argv) s) = run_queue s"
  "next_addr (exec (act f argc argv) s) = next_addr s"
  "predef_act_list (exec (act f argc argv) s) = predef_act_list s"
  using frameD [OF act_keeps, of f argc argv s] by simp_all

lemma core_action_run_stops [stops]: "obeys_halt (core_action_run E act e)"
  unfolding core_action_run_def by (intro stops stops_act)

lemma core_action_ran:
  assumes "alive (exec (core_action_run E act e) s)"
  shows "\<exists>ps. set ps \<subseteq> {p \<in> deaths. 0 < p} \<and> ran e ps s (exec (core_action_run E act e) s)"
proof -
  let ?a = "rq_addr e"
  define s1 where "s1 = s\<lparr>run_queue := map (\<lambda>x. if rq_addr x = ?a then x\<lparr>rq_state := SS_STATE_RUNNING\<rparr> else x) (run_queue s)\<rparr>"
  define m where "m = act (predefine_action (rq_action_entry e)) (rq_argc e) (rq_argv e)"
  define s2 where "s2 = exec m s1"
  have al: "alive s" using core_action_run_stops assms by (rule obeys_halt_alive)
  have run: "exec (core_action_run E act e) s =
      (if result m s1 \<le> 0 then exec (fast_done ?a) s2
       else if e_ret E (trace s2) (FS (Access (status_path (result m s1)))) = 0
         then exec (rq_update ?a (\<lambda>e. e\<lparr>forked_pid := result m s1\<rparr>)) (log_call (FS (Access (status_path (result m s1)))) s2)
         else exec (fast_done ?a) (log_call (FS (Access (status_path (result m s1)))) s2))"
    using al by (simp add: core_action_run_def s1_def s2_def m_def)
  have al2: "alive s2"
  proof (rule ccontr)
    assume "\<not> alive s2"
    then have "\<not> alive (exec (core_action_run E act e) s)"
      using run by (auto simp: fast_done_def split: if_splits)
    with assms show False by simp
  qed
  obtain ps where ps: "set ps \<subseteq> {p \<in> deaths. 0 < p}" "core_pipe s2 = core_pipe s @ map clear_msg ps"
    using act_reports [of "predefine_action (rq_action_entry e)" "rq_argc e" "rq_argv e" s1]
    by (auto simp: s2_def m_def s1_def)
  have q: "run_queue s2 = run_queue s1" "next_addr s2 = next_addr s"
    by (simp_all add: s2_def m_def act_fields s1_def)
  have "ran e ps s (exec (core_action_run E act e) s)"
    unfolding run ran_def using al2 q ps(2)
    by (cases "0 < result m s1") (auto simp: fast_done_def s1_def fun_eq_iff)
  with ps(1) show ?thesis by blast
qed

end

section \<open>Processing a RUN message\<close>

text \<open>The loop invariant: the entries still waiting are among those the loop will visit.\<close>

definition loop_inv :: "nat set \<Rightarrow> ss \<Rightarrow> bool" where
  "loop_inv W s \<longleftrightarrow>
     (alive s \<longrightarrow> queue_shape s \<and>
       (\<forall>e \<in> set (run_queue s).
          entry_ok (rq_state e) (forked_pid e) (rq_addr e \<in> W) (clear_pending s)))"

text \<open>Messages in the pipe plus entries that wait: what the callbacks use up.\<close>

definition is_init :: "ss_run_queue_entry \<Rightarrow> bool" where
  "is_init e \<longleftrightarrow> rq_state e = SS_STATE_INIT"

definition work :: "ss \<Rightarrow> nat" where
  "work s = length (core_pipe s) + length (filter is_init (run_queue s))"

definition run_visit :: "env \<Rightarrow> action_runner \<Rightarrow> ss_run_queue_entry \<Rightarrow> (ss, unit) state" where
  "run_visit E act e = do {
     cur \<leftarrow> getv (rq_find (rq_addr e));
     case cur of
       None \<Rightarrow> return ()
     | Some rq_entry \<Rightarrow>
         if rq_state rq_entry = SS_STATE_INIT then core_action_run E act rq_entry else return ()
   }"

lemma exec_run_visit:
  "exec (run_visit E act e) s =
     (case rq_find (rq_addr e) s of
        None \<Rightarrow> s
      | Some x \<Rightarrow> if rq_state x = SS_STATE_INIT then exec (core_action_run E act x) s else s)"
  by (simp add: run_visit_def split: option.split)

lemma exec_run_init:
  "exec (ss_run_queue_run SS_STATE_INIT (core_action_run E act)) s =
     fold (\<lambda>e. exec (run_visit E act e)) (run_queue s) s"
  by (simp add: ss_run_queue_run_def run_visit_def [abs_def] exec_for_each)

lemma rq_find_unique:
  "queue_shape s \<Longrightarrow> e \<in> set (run_queue s) \<Longrightarrow> rq_find (rq_addr e) s = Some e"
  by (simp add: rq_find_def queue_shape_def find_distinct_key)

lemma ranE:
  assumes "ran x ps s s'"
  obtains p st where "st = SS_STATE_RUNNING \<and> 0 < p \<and> core_pipe s' = core_pipe s @ map clear_msg ps \<or>
      st = SS_STATE_DONE \<and> p = -1 \<and> core_pipe s' = core_pipe s @ map clear_msg ps @ [clear_msg (-1)]"
    "run_queue s' = map (\<lambda>y. if rq_addr y = rq_addr x then y\<lparr>rq_state := st, forked_pid := p\<rparr> else y) (run_queue s)"
    "next_addr s' = next_addr s"
  using assms unfolding ran_def by blast

lemma ran_shape:
  assumes "ran x ps s s'" "queue_shape s" "\<forall>p \<in> set ps. 0 < p"
  shows "queue_shape s'"
  using assms(1)
proof (cases rule: ranE)
  case (1 p st)
  have "map rq_addr (run_queue s') = map rq_addr (run_queue s)"
    unfolding 1(2) by (rule distinct_map_update) simp
  then have "distinct (map rq_addr (run_queue s'))"
    using assms(2) by (simp add: queue_shape_def)
  moreover have "\<forall>m \<in> set (core_pipe s'). msg_ok m"
    using 1(1) assms(2,3) by (auto simp: queue_shape_def msg_ok_def)
  moreover have "\<forall>e \<in> set (run_queue s'). rq_addr e < next_addr s' \<and> rq_argc e \<le> SYSMAN_MAXARG"
    using assms(2) unfolding 1(2,3) queue_shape_def by auto
  ultimately show ?thesis by (simp add: queue_shape_def)
qed

lemma ran_loop_inv:
  assumes r: "ran x ps s s'" and a: "rq_addr x = a" and shape: "queue_shape s" and pos: "\<forall>p \<in> set ps. 0 < p"
    and ok: "\<And>y. y \<in> set (run_queue s) \<Longrightarrow>
      entry_ok (rq_state y) (forked_pid y) (rq_addr y \<in> insert a W) (clear_pending s)"
  shows "loop_inv W s'"
  using r
proof (cases rule: ranE)
  case (1 p st)
  have cl: "clear_pending s \<Longrightarrow> clear_pending s'" "st = SS_STATE_DONE \<Longrightarrow> clear_pending s'"
    using 1(1) by (auto simp: clear_pending_def)
  have "entry_ok (rq_state y) (forked_pid y) (rq_addr y \<in> W) (clear_pending s')"
    if "y \<in> set (run_queue s')" for y
    using that 1(1) cl a unfolding 1(2) by (auto intro: entry_ok_mono [OF ok])
  with ran_shape [OF r shape pos] show ?thesis by (auto simp: loop_inv_def)
qed

lemma ran_work:
  assumes r: "ran x ps s s'" and "queue_shape s" "x \<in> set (run_queue s)" "is_init x"
  shows "work s' \<le> work s + length ps"
  using r
proof (cases rule: ranE)
  case (1 p st)
  have e: "st \<noteq> SS_STATE_INIT" "length (core_pipe s') \<le> Suc (length (core_pipe s)) + length ps"
    using 1(1) by auto
  have "Suc (length (filter is_init (run_queue s'))) = length (filter is_init (run_queue s))"
    unfolding 1(2) using assms(2-4) e(1)
    by (intro length_filter_map_update) (auto simp: queue_shape_def is_init_def)
  with e(2) show ?thesis by (simp add: work_def)
qed

context loop_runner
begin

lemma run_visit_stops [stops]: "obeys_halt (run_visit E act e)"
  unfolding run_visit_def by (intro stops core_action_run_stops)

text \<open>A visit either runs the entry found at the address or leaves the state alone.\<close>

lemma run_visit_cases:
  assumes "queue_shape s"
  obtains (ran) x where "x \<in> set (run_queue s)" "rq_addr x = rq_addr e" "is_init x"
      "exec (run_visit E act e) s = exec (core_action_run E act x) s"
  | (same) "exec (run_visit E act e) s = s"
      "\<And>y. y \<in> set (run_queue s) \<Longrightarrow> rq_addr y = rq_addr e \<Longrightarrow> \<not> is_init y"
proof (cases "rq_find (rq_addr e) s")
  case None
  then have "\<forall>x \<in> set (run_queue s). rq_addr x \<noteq> rq_addr e"
    by (auto simp: rq_find_def find_None_iff)
  with None show thesis by (intro same) (auto simp: exec_run_visit)
next
  case (Some x)
  then have x: "x \<in> set (run_queue s)" "rq_addr x = rq_addr e" by (auto dest: rq_find_mem)
  have uniq: "y = x" if "y \<in> set (run_queue s)" "rq_addr y = rq_addr e" for y
    using rq_find_unique [OF assms that(1)] that(2) Some by simp
  show thesis
  proof (cases "is_init x")
    case True
    show thesis
      by (rule ran [OF x True]) (use Some True in \<open>simp add: exec_run_visit is_init_def\<close>)
  next
    case False
    show thesis
      by (rule same) (use Some False uniq in \<open>simp_all add: exec_run_visit is_init_def\<close>)
  qed
qed

lemma run_visit_inv:
  assumes inv: "loop_inv (insert (rq_addr e) W) s"
  shows "loop_inv W (exec (run_visit E act e) s) \<and>
    (deaths = {} \<longrightarrow> alive (exec (run_visit E act e) s) \<longrightarrow> work (exec (run_visit E act e) s) \<le> work s)"
proof (cases "alive s")
  case False
  then have "exec (run_visit E act e) s = s" by (rule obeys_haltD [OF run_visit_stops])
  with False show ?thesis by (simp add: loop_inv_def)
next
  case True
  with inv have shape: "queue_shape s" and ok: "\<And>y. y \<in> set (run_queue s) \<Longrightarrow>
      entry_ok (rq_state y) (forked_pid y) (rq_addr y \<in> insert (rq_addr e) W) (clear_pending s)"
    by (auto simp: loop_inv_def)
  from shape show ?thesis
  proof (cases rule: run_visit_cases [of s e E])
    case (ran x)
    let ?t = "exec (run_visit E act e) s"
    show ?thesis
    proof (cases "alive ?t")
      case True
      then obtain ps where ps: "set ps \<subseteq> {p \<in> deaths. 0 < p}" "SS_Core.ran x ps s ?t"
        using core_action_ran [of E x s] ran(4) by auto
      then have "loop_inv W ?t" by (intro ran_loop_inv [OF ps(2) ran(2) shape _ ok]) auto
      moreover have "deaths = {} \<Longrightarrow> work ?t \<le> work s"
        using ran_work [OF ps(2) shape ran(1,3)] ps(1) by simp
      ultimately show ?thesis by simp
    qed (simp add: loop_inv_def)
  next
    case same
    have "entry_ok (rq_state y) (forked_pid y) (rq_addr y \<in> W) (clear_pending s)"
      if "y \<in> set (run_queue s)" for y
      using ok [OF that] same(2) [OF that]
      by (cases "rq_state y") (auto simp: is_init_def)
    with same(1) shape show ?thesis by (auto simp: loop_inv_def)
  qed
qed

lemma run_visits_inv:
  assumes "loop_inv (rq_addr ` set es) s"
  shows "loop_inv {} (fold (\<lambda>e. exec (run_visit E act e)) es s) \<and>
    (deaths = {} \<longrightarrow> alive (fold (\<lambda>e. exec (run_visit E act e)) es s) \<longrightarrow>
      work (fold (\<lambda>e. exec (run_visit E act e)) es s) \<le> work s)"
  using assms
proof (induction es arbitrary: s)
  case Nil
  then show ?case by simp
next
  case (Cons e es)
  let ?t = "exec (run_visit E act e) s"
  have 1: "loop_inv (rq_addr ` set es) ?t \<and> (deaths = {} \<longrightarrow> alive ?t \<longrightarrow> work ?t \<le> work s)"
    using Cons.prems run_visit_inv [of e "rq_addr ` set es" s E] by simp
  have 2: "alive (fold (\<lambda>e. exec (run_visit E act e)) es ?t) \<Longrightarrow> alive ?t"
  proof (rule ccontr)
    assume "alive (fold (\<lambda>e. exec (run_visit E act e)) es ?t)" "\<not> alive ?t"
    moreover have "obeys_halt (for_each (run_visit E act) es)" by (intro stops)
    ultimately show False by (metis exec_for_each obeys_halt_alive)
  qed
  show ?case using Cons.IH [of ?t] 1 2 by (auto intro: order_trans)
qed

text \<open>After a RUN message nothing waits, and each entry runs or is about to be freed.\<close>

lemma run_init_inv:
  fixes E s
  assumes "alive s" "queue_shape s"
    and "\<And>e. e \<in> set (run_queue s) \<Longrightarrow> entry_ok (rq_state e) (forked_pid e) True (clear_pending s)"
  defines "t \<equiv> exec (ss_run_queue_run SS_STATE_INIT (core_action_run E act)) s"
  shows "queue_inv t \<and> (alive t \<longrightarrow> filter is_init (run_queue t) = []) \<and>
    (deaths = {} \<longrightarrow> alive t \<longrightarrow> work t \<le> work s)"
proof -
  have "loop_inv (rq_addr ` set (run_queue s)) s"
    using assms(1-3) by (auto simp: loop_inv_def elim: entry_ok_mono)
  from run_visits_inv [OF this, of E] have "loop_inv {} t"
      "deaths = {} \<longrightarrow> alive t \<longrightarrow> work t \<le> work s"
    by (simp_all add: t_def exec_run_init)
  moreover from this(1) have "\<not> is_init e" if "alive t" "e \<in> set (run_queue t)" for e
    using that by (cases "rq_state e") (auto simp: loop_inv_def is_init_def)
  moreover have "queue_inv t"
    using \<open>loop_inv {} t\<close>
    by (auto simp: loop_inv_def queue_inv_def entries_ok_def elim: entry_ok_mono)
  ultimately show ?thesis by (simp add: filter_empty_conv)
qed

end

lemma clear_inv:
  assumes "alive s" "queue_inv s" "core_pipe s = clear_msg p # ms"
  shows "queue_inv (s\<lparr>core_pipe := ms, run_queue := filter (\<lambda>e. forked_pid e \<noteq> p) (run_queue s)\<rparr>)"
proof -
  have run: "run_pending s \<Longrightarrow> \<exists>m \<in> set ms. im_type m = SS_CORE_ACT_RUN"
    using assms(3) by (auto simp: run_pending_def)
  have clear: "clear_pending s \<Longrightarrow> p \<noteq> -1 \<Longrightarrow> clear_msg (-1) \<in> set ms"
    using assms(3) by (auto simp: clear_pending_def)
  have ok: "entry_ok (rq_state e) (forked_pid e) (run_pending s) (clear_pending s)"
    if "e \<in> set (run_queue s)" for e
    using assms(1,2) that by (simp add: queue_inv_def entries_ok_def)
  have "entry_ok (rq_state e) (forked_pid e) (\<exists>m \<in> set ms. im_type m = SS_CORE_ACT_RUN)
      (clear_msg (-1) \<in> set ms)" if "e \<in> set (run_queue s)" "forked_pid e \<noteq> p" for e
    using ok [OF that(1)] that(2) run clear by (cases "rq_state e") auto
  then show ?thesis
    using assms by (auto simp: queue_inv_def queue_shape_def entries_ok_def run_pending_def
        clear_pending_def distinct_map_filter_key)
qed

lemma run_msg_entries:
  assumes "alive s" "queue_inv s" "core_pipe s = m # ms" "im_type m = SS_CORE_ACT_RUN"
  shows "queue_shape (s\<lparr>core_pipe := ms\<rparr>) \<and>
    (\<forall>e \<in> set (run_queue s). entry_ok (rq_state e) (forked_pid e) True (clear_pending (s\<lparr>core_pipe := ms\<rparr>)))"
proof -
  have "clear_pending s \<Longrightarrow> clear_pending (s\<lparr>core_pipe := ms\<rparr>)"
    using assms(3,4) by (auto simp: clear_pending_def)
  then show ?thesis
    using assms by (auto simp: queue_inv_def queue_shape_def entries_ok_def elim!: entry_ok_mono)
qed

section \<open>The callback, and a run of callbacks\<close>

lemma exec_core_pipe_cb:
  "exec (core_pipe_cb E act) s =
     (let s1 = log_call (ECORE Fd_handler_active) s in
      if e_ret E (trace s) (ECORE Fd_handler_active) = 0 then s1
      else case core_pipe s of
        [] \<Rightarrow> exec (halt Blocked) s1
      | m # ms \<Rightarrow>
          let s2 = (if alive s then s1\<lparr>core_pipe := ms\<rparr> else s) in
          (case im_type m of
             SS_CORE_ACT_RUN \<Rightarrow> exec (ss_run_queue_run SS_STATE_INIT (core_action_run E act)) s2
           | SS_CORE_ACT_CLEAR \<Rightarrow> exec (ss_run_queue_del_bypid (im_pid m)) s2))"
  by (cases "alive s")
    (simp_all add: core_pipe_cb_def Let_def split: list.split ss_core_cmd_type.split)

fun pipe_callbacks :: "env \<Rightarrow> action_runner \<Rightarrow> nat \<Rightarrow> ss \<Rightarrow> ss" where
  "pipe_callbacks E act 0 s = s"
| "pipe_callbacks E act (Suc n) s =
     (if core_pipe s = [] then s else pipe_callbacks E act n (exec (core_pipe_cb E act) s))"

context loop_runner
begin

lemma core_pipe_cb_stops [stops]: "obeys_halt (core_pipe_cb E act)"
proof -
  have "obeys_halt (case im_type m of
      SS_CORE_ACT_RUN \<Rightarrow> ss_run_queue_run SS_STATE_INIT (core_action_run E act)
    | SS_CORE_ACT_CLEAR \<Rightarrow> ss_run_queue_del_bypid (im_pid m))" for m
    by (cases "im_type m") (auto intro: stops core_action_run_stops)
  then show ?thesis unfolding core_pipe_cb_def by (intro stops)
qed

text \<open>One callback keeps the invariant, and one that is not spurious uses up some work.\<close>

lemma core_pipe_cb_run_inv:
  fixes E s
  assumes "alive s" "queue_inv s" "core_pipe s = m # ms" "im_type m = SS_CORE_ACT_RUN"
  defines "t \<equiv> exec (ss_run_queue_run SS_STATE_INIT (core_action_run E act)) (s\<lparr>core_pipe := ms\<rparr>)"
  shows "queue_inv t \<and> (deaths = {} \<longrightarrow> alive t \<longrightarrow> work t < work s)"
proof -
  have "queue_inv t \<and> (deaths = {} \<longrightarrow> alive t \<longrightarrow> work t \<le> work (s\<lparr>core_pipe := ms\<rparr>))"
    unfolding t_def
    using run_msg_entries [OF assms(1-4)] assms(1) run_init_inv [of "s\<lparr>core_pipe := ms\<rparr>" E] by simp
  moreover have "work (s\<lparr>core_pipe := ms\<rparr>) < work s"
    using assms(3) by (simp add: work_def)
  ultimately show ?thesis by auto
qed

lemma core_pipe_cb_clear_inv:
  assumes "alive s" "queue_inv s" "core_pipe s = m # ms" "im_type m = SS_CORE_ACT_CLEAR"
  defines "t \<equiv> s\<lparr>core_pipe := ms, run_queue := filter (\<lambda>e. forked_pid e \<noteq> im_pid m) (run_queue s)\<rparr>"
  shows "queue_inv t \<and> work t < work s"
proof -
  have "m = clear_msg (im_pid m)" using assms(4) by (cases m) simp
  then have "queue_inv t"
    using clear_inv [OF assms(1,2), of "im_pid m" ms] assms(3) by (simp add: t_def)
  moreover have "length (filter is_init (run_queue t)) \<le> length (filter is_init (run_queue s))"
    unfolding t_def by (simp add: filter_filter conj_commute) (metis filter_filter length_filter_le)
  ultimately show ?thesis using assms(3) by (simp add: work_def t_def)
qed

text \<open>One callback keeps the invariant, and one that is not spurious uses up some work.\<close>

lemma core_pipe_cb_inv:
  fixes E s
  assumes inv: "queue_inv s"
  defines "t \<equiv> exec (core_pipe_cb E act) s"
  shows "queue_inv t \<and> (deaths = {} \<longrightarrow> alive t \<longrightarrow>
    e_ret E (trace s) (ECORE Fd_handler_active) \<noteq> 0 \<longrightarrow> work t < work s)"
proof (cases "alive s \<and> e_ret E (trace s) (ECORE Fd_handler_active) \<noteq> 0")
  case False
  show ?thesis
  proof (cases "alive s")
    case True
    with False have "t = log_call (ECORE Fd_handler_active) s"
      by (simp add: t_def exec_core_pipe_cb)
    with inv True False show ?thesis by simp
  next
    case False
    then have "t = s" unfolding t_def by (rule obeys_haltD [OF core_pipe_cb_stops])
    with inv False show ?thesis by simp
  qed
next
  case True
  define s1 where "s1 = log_call (ECORE Fd_handler_active) s"
  have s1: "alive s1" "queue_inv s1" "work s1 = work s" "core_pipe s1 = core_pipe s"
    using True inv by (simp_all add: s1_def work_def)
  show ?thesis
  proof (cases "core_pipe s")
    case Nil
    with True show ?thesis by (simp add: t_def exec_core_pipe_cb queue_inv_def)
  next
    case (Cons m ms)
    show ?thesis
    proof (cases "im_type m")
      case SS_CORE_ACT_RUN
      then have "t = exec (ss_run_queue_run SS_STATE_INIT (core_action_run E act)) (s1\<lparr>core_pipe := ms\<rparr>)"
        using True Cons by (simp add: t_def exec_core_pipe_cb s1_def)
      then show ?thesis
        using core_pipe_cb_run_inv [OF s1(1,2), of m ms] Cons s1(3,4) SS_CORE_ACT_RUN by auto
    next
      case SS_CORE_ACT_CLEAR
      then have "t = s1\<lparr>core_pipe := ms, run_queue := filter (\<lambda>e. forked_pid e \<noteq> im_pid m) (run_queue s1)\<rparr>"
        using True Cons by (simp add: t_def exec_core_pipe_cb s1_def)
      then show ?thesis
        using core_pipe_cb_clear_inv [OF s1(1,2), of m ms] Cons s1(3,4) SS_CORE_ACT_CLEAR by auto
    qed
  qed
qed

lemma pres_core_pipe_cb [presI]: "pres queue_inv (core_pipe_cb E act)"
  using core_pipe_cb_inv by (simp add: pres_def)

end

context runner
begin

lemma pipe_callbacks_dead: "\<not> alive s \<Longrightarrow> pipe_callbacks E act n s = s"
  by (induction n) (simp_all add: obeys_haltD [OF core_pipe_cb_stops])

text \<open>As many callbacks as there is work empty the pipe.\<close>

lemma pipe_callbacks_drain:
  assumes "queue_inv s" "\<And>h. e_ret E h (ECORE Fd_handler_active) \<noteq> 0"
    and "work s \<le> n" "alive (pipe_callbacks E act n s)"
  shows "core_pipe (pipe_callbacks E act n s) = [] \<and> queue_inv (pipe_callbacks E act n s)"
  using assms(1,3,4)
proof (induction n arbitrary: s)
  case 0
  then show ?case by (simp add: work_def)
next
  case (Suc n)
  show ?case
  proof (cases "core_pipe s = []")
    case True
    with Suc.prems show ?thesis by simp
  next
    case False
    let ?t = "exec (core_pipe_cb E act) s"
    have "alive ?t"
      using Suc.prems(3) False pipe_callbacks_dead [of ?t E n] by (cases "alive ?t") simp_all
    then have "queue_inv ?t" "work ?t < work s"
      using core_pipe_cb_inv [OF Suc.prems(1), of E] assms(2) by auto
    then show ?thesis using Suc.IH [of ?t] Suc.prems False by simp
  qed
qed

text \<open>With the pipe empty the invariant leaves only entries that run a process.\<close>

lemma drained_entries:
  assumes "queue_inv s" "alive s" "core_pipe s = []" "e \<in> set (run_queue s)"
  shows "rq_state e = SS_STATE_RUNNING \<and> 0 < forked_pid e"
proof -
  have "entry_ok (rq_state e) (forked_pid e) False False"
    using assms by (auto simp: queue_inv_def entries_ok_def run_pending_def clear_pending_def)
  then show ?thesis by (cases "rq_state e") auto
qed

end

section \<open>Signals that arrive while a function runs\<close>

text \<open>
  A process an action has started may end before the function that started it returns.  The
  signal handler then runs before the core loop has stored the pid.  \<open>sig\<close> gives the pids
  the kernel reports when the calls made so far are those of its argument; pids are positive.
\<close>

definition interrupted :: "env \<Rightarrow> (hist \<Rightarrow> int list) \<Rightarrow> action_runner \<Rightarrow> action_runner" where
  "interrupted E sig act f argc argv = do {
     ret \<leftarrow> act f argc argv;
     pids \<leftarrow> getv (\<lambda>s. filter (\<lambda>p. 0 < p) (sig (trace s)));
     for_each (sig_child_handler E) pids;
     return ret
   }"

definition reported :: "(hist \<Rightarrow> int list) \<Rightarrow> int set" where
  "reported sig = (\<Union>h. set (sig h))"

text \<open>The handler writes one message for each process that can be waited for.\<close>

lemma sig_child_reports:
  "\<exists>ps. set ps \<subseteq> {p} \<and> core_pipe (exec (sig_child_handler E p) s) = core_pipe s @ map clear_msg ps"
  by (cases "alive s \<and> e_ret E (trace s) (OS (Waitpid p)) \<noteq> -1")
    (auto simp: sig_child_handler_def intro: exI [of _ "[p]"] exI [of _ "[]"])

lemma sig_children_report:
  "\<exists>ps. set ps \<subseteq> set pids \<and>
     core_pipe (exec (for_each (sig_child_handler E) pids) s) = core_pipe s @ map clear_msg ps"
proof (induction pids arbitrary: s)
  case Nil
  then show ?case by simp
next
  case (Cons p pids)
  obtain ps qs where "set ps \<subseteq> {p}" "set qs \<subseteq> set pids"
    "core_pipe (exec (sig_child_handler E p) s) = core_pipe s @ map clear_msg ps"
    "core_pipe (exec (for_each (sig_child_handler E) pids) (exec (sig_child_handler E p) s)) =
      core_pipe (exec (sig_child_handler E p) s) @ map clear_msg qs"
    using sig_child_reports [of p E s] Cons.IH [of "exec (sig_child_handler E p) s"] by blast
  then show ?case by (intro exI [of _ "ps @ qs"]) auto
qed

lemma sig_child_rules [stops]: "obeys_halt (sig_child_handler E p)"
  unfolding sig_child_handler_def by (intro stops)

lemma sig_child_keeps: "frame (\<lambda>s. (predef_act_list s, run_queue s, next_addr s)) (sig_child_handler E p)"
  by (simp add: frame_def sig_child_handler_def)

context runner
begin

lemma interrupted_runner: "loop_runner (interrupted E sig act) (reported sig)"
proof
  fix f argc argv s
  define pids where "pids = filter (\<lambda>p. 0 < p) (sig (trace (exec (act f argc argv) s)))"
  define t where "t = exec (act f argc argv) s"
  have "exec (interrupted E sig act f argc argv) s = exec (for_each (sig_child_handler E) pids) t"
    by (simp add: interrupted_def pids_def t_def)
  moreover obtain ps where "set ps \<subseteq> set pids"
    "core_pipe (exec (for_each (sig_child_handler E) pids) t) = core_pipe t @ map clear_msg ps"
    using sig_children_report by blast
  moreover have "set pids \<subseteq> {p \<in> reported sig. 0 < p}" by (auto simp: pids_def reported_def)
  ultimately show "\<exists>ps. set ps \<subseteq> {p \<in> reported sig. 0 < p} \<and>
      core_pipe (exec (interrupted E sig act f argc argv) s) = core_pipe s @ map clear_msg ps"
    by (auto simp: t_def act_parts)
next
  fix f argc argv
  show "frame (\<lambda>s. (predef_act_list s, run_queue s, next_addr s)) (interrupted E sig act f argc argv)"
    unfolding interrupted_def by (intro frames sig_child_keeps act_keeps)
  show "obeys_halt (interrupted E sig act f argc argv)"
    unfolding interrupted_def by (intro stops act_stops)
qed

end

end
