(* ===== verification/SS_Invariant.thy ===== *)
theory SS_Invariant
  imports SS_Core
begin

text \<open>
  The invariant of the whole daemon on the table, the queue and the pipe, and the two locales
  every component proves its handlers in: what a callback, and what the start-up, must keep.
\<close>

section \<open>The invariant of the daemon\<close>

text \<open>The name each built-in function is registered under; a function found by \<open>dlsym\<close> has none.\<close>

fun home_name :: "action_fn \<Rightarrow> string option" where
  "home_name Fn_lowmem_def_predefine_action = Some PREDEF_LOWMEM"
| "home_name Fn_lowbat_def_predefine_action = Some PREDEF_LOWBAT"
| "home_name Fn_usbcon_def_predefine_action = Some PREDEF_USBCON"
| "home_name Fn_earjackcon_def_predefine_action = Some PREDEF_EARJACKCON"
| "home_name Fn_poweroff_def_predefine_action = Some PREDEF_POWEROFF"
| "home_name Fn_launching_predefine_action = Some PREDEF_PWROFF_POPUP"
| "home_name Fn_restart_def_predefine_action = Some PREDEF_REBOOT"
| "home_name Fn_set_foregrd_action = Some PREDEF_FOREGRD"
| "home_name Fn_set_backgrd_action = Some PREDEF_BACKGRD"
| "home_name Fn_set_active_action = Some PREDEF_ACTIVE"
| "home_name Fn_set_inactive_action = Some PREDEF_INACTIVE"
| "home_name Fn_set_oomadj_action = Some OOMADJ_SET"
| "home_name Fn_set_datetime_action = Some PREDEF_SET_DATETIME"
| "home_name Fn_set_timezone_action = Some PREDEF_SET_TIMEZONE"
| "home_name Fn_set_max_frequency_action = Some PREDEF_SET_MAX_FREQUENCY"
| "home_name Fn_set_min_frequency_action = Some PREDEF_SET_MIN_FREQUENCY"
| "home_name Fn_release_max_frequency_action = Some PREDEF_RELEASE_MAX_FREQUENCY"
| "home_name Fn_release_min_frequency_action = Some PREDEF_RELEASE_MIN_FREQUENCY"
| "home_name Fn_ss_mmc_inserted = Some PREDEF_MOUNT_MMC"
| "home_name Fn_ss_mmc_unmounted = Some PREDEF_UNMOUNT_MMC"
| "home_name Fn_ss_mmc_format = Some PREDEF_FORMAT_MMC"
| "home_name Fn_ss_usb_storage_added = Some PREDEF_USB_STORAGE_ADD"
| "home_name Fn_ss_usb_storage_removed = Some PREDEF_USB_STORAGE_REMOVE"
| "home_name (Fn_ext p) = None"

definition well_bound :: "action_entry \<Rightarrow> bool" where
  "well_bound d \<longleftrightarrow> (case home_name (predefine_action d) of
     Some t \<Rightarrow> ae_type d = t
   | None \<Rightarrow> predefine_action d = Fn_ext (ae_path d))"

text \<open>
  Every entry of the table has the function that belongs to its name, and what waits or
  runs in the queue is an entry of the table.
\<close>

definition queue_typed :: "ss \<Rightarrow> bool" where
  "queue_typed s \<longleftrightarrow> (\<forall>d \<in> set (predef_act_list s). well_bound d) \<and>
     (\<forall>e \<in> set (run_queue s). rq_action_entry e \<in> set (predef_act_list s))"

definition daemon_inv :: "ss \<Rightarrow> bool" where
  "daemon_inv s \<longleftrightarrow> queue_inv s \<and> table_ok s \<and> queue_typed s"

lemma off_log_typed [simp]: "queue_typed (log_call c s) = queue_typed s"
  by (simp add: queue_typed_def)

lemma off_log_daemon [simp]: "daemon_inv (log_call c s) = daemon_inv s"
  by (simp add: daemon_inv_def table_ok_def)

lemma typed_run_queue_add:
  assumes "queue_typed s" "d \<in> set (predef_act_list s)"
  shows "queue_typed (exec (ss_run_queue_add E d argc argv) s)"
  using assms by (auto simp: queue_typed_def exec_run_queue_add new_entry_def)

text \<open>Adding an entry of the table to the queue and posting RUN.\<close>

lemma daemon_inv_add_run:
  assumes "daemon_inv s" "d \<in> set (predef_act_list s)"
  shows "daemon_inv (exec ss_core_action_run (exec (ss_run_queue_add E d argc argv) s))"
proof -
  have "queue_typed (exec ss_core_action_run (exec (ss_run_queue_add E d argc argv) s))"
    using typed_run_queue_add [of s d E argc argv] assms by (auto simp: daemon_inv_def queue_typed_def)
  then show ?thesis
    using queue_inv_add_run [of s E d argc argv] assms(1)
    by (simp add: daemon_inv_def table_ok_def exec_run_queue_add)
qed

lemma lookup_mem: "action_lookup s t = Some d \<Longrightarrow> d \<in> set (predef_act_list s) \<and> ae_type d = t"
  by (auto simp: action_lookup_def dest: find_Some_mem)

section \<open>What the callbacks ask of an invariant\<close>

text \<open>
  All that the handlers of the daemon do to the queue, the table and the pipe is to queue an
  action of the table.  An invariant that survives this, and does not look at the rest of
  the state, survives every handler; each component adds its handlers to the locale.
\<close>

locale callback_safe =
  fixes I :: "ss \<Rightarrow> bool"
  assumes light: "queue_part s = queue_part t \<Longrightarrow> alive s \<or> \<not> alive t \<Longrightarrow> I s \<Longrightarrow> I t"
    and post: "I s \<Longrightarrow> d \<in> set (predef_act_list s) \<Longrightarrow>
      I (exec ss_core_action_run (exec (ss_run_queue_add E d argc argv) s))"
begin

lemma I_log [simp]: "I (log_call c s) = I s"
  using light [of s "log_call c s"] light [of "log_call c s" s] by (auto simp: queue_part_def)

text \<open>A computation that leaves the queue, the table and the pipe alone keeps it.\<close>

lemma pres_light:
  assumes "frame queue_part m" "obeys_halt m"
  shows "pres I m"
proof -
  have "I (exec m s)" if "I s" for s
  proof (rule light [OF _ _ that])
    show "queue_part s = queue_part (exec m s)" using assms(1) by (simp add: frameD)
    show "alive s \<or> \<not> alive (exec m s)" using obeys_halt_alive [OF assms(2)] by blast
  qed
  then show ?thesis by (simp add: pres_def)
qed

lemma pres_prims [presI]:
  "pres I (call E e)" "pres I (call_out E e v)" "pres I (call_str E e)"
  "pres I (set_bat f1)" "pres I (set_mem f2)" "pres I (set_cpu f3)"
  "pres I (set_pre f4)" "pres I (set_dev f5)" "pres I (halt f)"
  "pres I (deref p)" "pres I (fopen E q m)" "pres I (fprintf E q t)"
  by (auto intro!: pres_light frames stops light_deref)

lemma pres_posts [presI]: "pres I (ss_action_entry_call_internal E t argc args)"
proof (cases t)
  case None
  then show ?thesis by (simp add: pres_def ss_action_entry_call_internal_def)
next
  case (Some u)
  then show ?thesis
    using post by (simp add: pres_def exec_call_internal lookup_mem split: option.split)
qed

end

text \<open>The start-up also registers actions.\<close>

locale startup_safe = callback_safe +
  assumes register: "I s \<Longrightarrow> well_bound d \<Longrightarrow> action_lookup s (ae_type d) = None \<Longrightarrow>
      I (s\<lparr>predef_act_list := d # predef_act_list s\<rparr>)"
begin

lemma pres_add_internal [presI]:
  assumes "home_name f = Some t"
  shows "pres I (ss_action_entry_add_internal E t (Some f) ui acc)"
proof -
  have "I (exec (ss_action_entry_add_internal E t (Some f) ui acc) s)" if "I s" for s
  proof -
    define u where "u = log_call (OS Getpid) (log_call (OS (Malloc 28)) s)"
    have "I u" using that by (simp add: u_def)
    then have "action_lookup s t = None \<Longrightarrow> well_bound d \<Longrightarrow> ae_type d = t \<Longrightarrow>
        I (u\<lparr>predef_act_list := d # predef_act_list u\<rparr>)" for d
      by (intro register) (simp_all add: u_def)
    then show ?thesis
      using that assms by (simp add: ss_action_entry_add_internal_def u_def [symmetric] well_bound_def)
        (simp add: u_def)
  qed
  then show ?thesis by (simp add: pres_def)
qed

lemma pres_add_shared [presI]: "pres I (ss_action_entry_add E pid t path)"
proof -
  have "I (exec (ss_action_entry_add E pid t path) s)" if "I s" for s
  proof -
    define u where "u = log_call (DL (Dlsym path ''ss_ui_viewable'')) (log_call (DL (Dlsym path ''ss_is_accessable''))
      (log_call (DL (Dlsym path ''ss_predefine_action'')) (log_call (DL (Dlopen path)) (log_call (OS (Malloc 28)) s))))"
    have "I u" using that by (simp add: u_def)
    then have "action_lookup s t = None \<Longrightarrow> well_bound d \<Longrightarrow> ae_type d = t \<Longrightarrow>
        I (u\<lparr>predef_act_list := d # predef_act_list u\<rparr>)" for d
      by (intro register) (simp_all add: u_def)
    then show ?thesis
      using that by (simp add: ss_action_entry_add_def u_def [symmetric] well_bound_def) (simp add: u_def)
  qed
  then show ?thesis by (simp add: pres_def)
qed

lemma pres_core_init [presI]: "pres I (ss_core_init E)" "pres I (ss_signal_init E)"
  unfolding ss_core_init_def ss_signal_init_def by (intro presI)+

end

section \<open>Registration and the callbacks keep the invariant\<close>

lemma queue_inv_register: "queue_inv (s\<lparr>predef_act_list := l\<rparr>) = queue_inv s"
  by (simp add: queue_inv_def queue_shape_def entries_ok_def run_pending_def clear_pending_def)

text \<open>Putting a well-bound entry with a new name in front of the table.\<close>

lemma daemon_inv_register:
  assumes "daemon_inv s" "well_bound d" "action_lookup s (ae_type d) = None"
  shows "daemon_inv (s\<lparr>predef_act_list := d # predef_act_list s\<rparr>)"
  using assms
  by (auto simp: daemon_inv_def queue_inv_register table_ok_def queue_typed_def action_lookup_None)

interpretation inv: startup_safe daemon_inv
proof (unfold_locales, goal_cases)
  case (1 s t)
  then have "queue_inv t" using queue_inv_cong [of s t] by (simp add: daemon_inv_def)
  with 1 show ?case by (simp add: daemon_inv_def table_ok_def queue_typed_def queue_part_def)
next
  case (2 s d E argc argv)
  then show ?case by (rule daemon_inv_add_run)
next
  case (3 s d)
  then show ?case by (rule daemon_inv_register)
qed

text \<open>What is queued stays queued as the same action.\<close>

definition queued_actions :: "ss \<Rightarrow> action_entry list \<times> action_entry list" where
  "queued_actions s = (predef_act_list s, map rq_action_entry (run_queue s))"

lemma typed_mono:
  assumes "queue_typed s" "predef_act_list t = predef_act_list s"
    and "set (map rq_action_entry (run_queue t)) \<subseteq> set (map rq_action_entry (run_queue s))"
  shows "queue_typed t"
proof -
  have "rq_action_entry e \<in> set (predef_act_list t)" if "e \<in> set (run_queue t)" for e
  proof -
    have "rq_action_entry e \<in> rq_action_entry ` set (run_queue s)" using assms(3) that by auto
    then show ?thesis using assms(1,2) by (auto simp: queue_typed_def)
  qed
  then show ?thesis using assms(1,2) by (simp add: queue_typed_def)
qed

lemma frames_queued [frames]:
  "frame queued_actions (fast_done a)"
  "(\<And>e. rq_action_entry (f e) = rq_action_entry e) \<Longrightarrow> frame queued_actions (rq_update a f)"
  "frame queued_actions (call E c)"
  by (auto simp: frame_def queued_actions_def fast_done_def)

lemma frame_queued_light: "frame queue_part m \<Longrightarrow> frame queued_actions m"
  by (simp add: frame_def queued_actions_def queue_part_def)

context loop_runner
begin

lemma frame_core_action_run: "frame queued_actions (core_action_run E act e)"
proof -
  have "frame queued_actions (act f argc argv)" for f argc argv
    by (simp add: frame_def queued_actions_def act_fields)
  then show ?thesis unfolding core_action_run_def by (intro frames; simp)
qed

lemma frame_run_visit: "frame queued_actions (run_visit E act e)"
  unfolding run_visit_def by (intro frame_bind frame_getv frame_case_option frame_if frame_return frame_core_action_run)

lemma typed_core_pipe_cb:
  assumes "queue_typed s"
  shows "queue_typed (exec (core_pipe_cb E act) s)"
proof -
  define visits where "visits = (\<lambda>es. for_each (run_visit E act) es)"
  have "frame queued_actions (visits es)" for es
    unfolding visits_def by (intro frame_for_each frame_run_visit)
  then have run: "queued_actions (exec (ss_run_queue_run SS_STATE_INIT (core_action_run E act)) u) = queued_actions u" for u
    by (simp add: exec_run_init exec_for_each [symmetric] visits_def frameD)
  have same: "queued_actions t = queued_actions s \<Longrightarrow> queue_typed t" for t
    by (rule typed_mono [OF assms]) (simp_all add: queued_actions_def)
  show ?thesis
  proof (cases "alive s \<and> e_ret E (trace s) (ECORE Fd_handler_active) \<noteq> 0 \<and> core_pipe s \<noteq> []")
    case False
    then have "queued_actions (exec (core_pipe_cb E act) s) = queued_actions s"
      using obeys_haltD [OF core_pipe_cb_stops, of s E]
      by (cases "alive s") (auto simp: exec_core_pipe_cb queued_actions_def Let_def)
    then show ?thesis by (rule same)
  next
    case True
    then obtain m ms where p: "core_pipe s = m # ms" by (cases "core_pipe s") auto
    show ?thesis
    proof (cases "im_type m")
      case SS_CORE_ACT_RUN
      then have "queued_actions (exec (core_pipe_cb E act) s) = queued_actions s"
        using True p run by (simp add: exec_core_pipe_cb queued_actions_def)
      then show ?thesis by (rule same)
    next
      case SS_CORE_ACT_CLEAR
      then show ?thesis using True p by (intro typed_mono [OF assms]) (auto simp: exec_core_pipe_cb)
    qed
  qed
qed

lemma table_core_pipe_cb: "predef_act_list (exec (core_pipe_cb E act) s) = predef_act_list s"
proof -
  have "frame queued_actions (for_each (run_visit E act) es)" for es
    by (intro frame_for_each frame_run_visit)
  then have run: "predef_act_list (exec (ss_run_queue_run SS_STATE_INIT (core_action_run E act)) u) = predef_act_list u" for u
    by (simp add: exec_run_init exec_for_each [symmetric] frame_def queued_actions_def)
  show ?thesis
    by (simp add: exec_core_pipe_cb run Let_def split: list.split ss_core_cmd_type.split)
qed

lemma pres_daemon_pipe [presI]: "pres daemon_inv (core_pipe_cb E act)"
proof -
  have "daemon_inv (exec (core_pipe_cb E act) s)" if "daemon_inv s" for s
    using that core_pipe_cb_inv [of s E] typed_core_pipe_cb [of s E] table_core_pipe_cb [of E s]
    by (simp add: daemon_inv_def table_ok_def)
  then show ?thesis by (simp add: pres_def)
qed

end

lemma pres_sig_child [presI]:
  assumes "0 < pid"
  shows "pres daemon_inv (sig_child_handler E pid)"
proof -
  have "daemon_inv (exec (sig_child_handler E pid) s)" if "daemon_inv s" for s
  proof -
    have "queue_inv (exec (ss_core_action_clear pid) (log_call c s))" for c
      using presD [OF pres_post_clear] assms that by (simp add: daemon_inv_def del: exec_core_action_clear)
    then show ?thesis using that by (auto simp: sig_child_handler_def daemon_inv_def table_ok_def queue_typed_def)
  qed
  then show ?thesis by (simp add: pres_def)
qed

end
