(* ===== verification/SS_Cpu.thy ===== *)
theory SS_Cpu
  imports SS_Invariant
begin

text \<open>
  \<open>ss_cpu_handler.c\<close>: processes ask for an upper or a lower bound of the CPU frequency;
  the daemon keeps one entry per process and direction and gives the kernel the
  tightest bound.  An entry of a list is removed by its address; the lists never hold two
  entries of one process, so removing an equal entry is the same.
\<close>

section \<open>The lists\<close>

definition DEFAULT_MAX_CPU_FREQ :: int where "DEFAULT_MAX_CPU_FREQ = 1200000"
definition DEFAULT_MIN_CPU_FREQ :: int where "DEFAULT_MIN_CPU_FREQ = 100000"
definition POWER_SAVING_CPUFREQ :: int where "POWER_SAVING_CPUFREQ = 800000"

definition proc_path :: "int \<Rightarrow> string" where
  "proc_path pid = ''/proc/'' @ show_int pid"

definition is_entry_enable :: "env \<Rightarrow> int \<Rightarrow> (ss, bool) state" where
  "is_entry_enable E pid = do {
     r \<leftarrow> call E (FS (Access (proc_path pid)));
     return (\<not> r < 0)
   }"

definition remove_entry_from_max_cpu_freq_list :: "env \<Rightarrow> int \<Rightarrow> (ss, int) state" where
  "remove_entry_from_max_cpu_freq_list E pid = do {
     set_cpu (\<lambda>c. c\<lparr>cur_max_cpu_freq := INT_MAX\<rparr>);
     entries \<leftarrow> getv (\<lambda>s. max_cpu_freq_list (cpu s));
     for_each (\<lambda>e. do {
       enable \<leftarrow> is_entry_enable E (cf_pid e);
       if \<not> enable \<or> cf_pid e = pid
       then set_cpu (\<lambda>c. c\<lparr>max_cpu_freq_list := remove1 e (max_cpu_freq_list c)\<rparr>)
       else set_cpu (\<lambda>c. if cf_freq e < cur_max_cpu_freq c then c\<lparr>cur_max_cpu_freq := cf_freq e\<rparr> else c)
     }) entries;
     return 0
   }"

definition remove_entry_from_min_cpu_freq_list :: "env \<Rightarrow> int \<Rightarrow> (ss, int) state" where
  "remove_entry_from_min_cpu_freq_list E pid = do {
     set_cpu (\<lambda>c. c\<lparr>cur_min_cpu_freq := INT_MIN\<rparr>);
     entries \<leftarrow> getv (\<lambda>s. min_cpu_freq_list (cpu s));
     for_each (\<lambda>e. do {
       enable \<leftarrow> is_entry_enable E (cf_pid e);
       if \<not> enable \<or> cf_pid e = pid
       then set_cpu (\<lambda>c. c\<lparr>min_cpu_freq_list := remove1 e (min_cpu_freq_list c)\<rparr>)
       else set_cpu (\<lambda>c. if cf_freq e > cur_min_cpu_freq c then c\<lparr>cur_min_cpu_freq := cf_freq e\<rparr> else c)
     }) entries;
     return 0
   }"

definition add_entry_to_max_cpu_freq_list :: "env \<Rightarrow> int \<Rightarrow> int \<Rightarrow> (ss, int) state" where
  "add_entry_to_max_cpu_freq_list E pid freq = do {
     remove_entry_from_max_cpu_freq_list E pid;
     set_cpu (\<lambda>c. if freq < cur_max_cpu_freq c then c\<lparr>cur_max_cpu_freq := freq\<rparr> else c);
     entry \<leftarrow> call E (OS (Malloc 8));
     if entry = 0 then return (-1)
     else do {
       set_cpu (\<lambda>c. c\<lparr>max_cpu_freq_list := \<lparr>cf_pid = pid, cf_freq = freq\<rparr> # max_cpu_freq_list c\<rparr>);
       l \<leftarrow> getv (\<lambda>s. max_cpu_freq_list (cpu s));
       if l = [] then return (-1) else return 0
     }
   }"

definition add_entry_to_min_cpu_freq_list :: "env \<Rightarrow> int \<Rightarrow> int \<Rightarrow> (ss, int) state" where
  "add_entry_to_min_cpu_freq_list E pid freq = do {
     remove_entry_from_min_cpu_freq_list E pid;
     set_cpu (\<lambda>c. if freq > cur_min_cpu_freq c then c\<lparr>cur_min_cpu_freq := freq\<rparr> else c);
     entry \<leftarrow> call E (OS (Malloc 8));
     if entry = 0 then return (-1)
     else do {
       set_cpu (\<lambda>c. c\<lparr>min_cpu_freq_list := \<lparr>cf_pid = pid, cf_freq = freq\<rparr> # min_cpu_freq_list c\<rparr>);
       l \<leftarrow> getv (\<lambda>s. min_cpu_freq_list (cpu s));
       if l = [] then return (-1) else return 0
     }
   }"

definition write_max_cpu_freq :: "env \<Rightarrow> int \<Rightarrow> (ss, int) state" where
  "write_max_cpu_freq E freq = do {
     ret \<leftarrow> call E (OEM (Put OEM_scaling_max_freq freq));
     return (if ret < 0 then -1 else 0)
   }"

definition write_min_cpu_freq :: "env \<Rightarrow> int \<Rightarrow> (ss, int) state" where
  "write_min_cpu_freq E freq = do {
     ret \<leftarrow> call E (OEM (Put OEM_scaling_min_freq freq));
     return (if ret < 0 then -1 else 0)
   }"

section \<open>The actions\<close>

definition write_cur_max :: "env \<Rightarrow> (ss, int) state" where
  "write_cur_max E = do {
     cur \<leftarrow> getv (\<lambda>s. cur_max_cpu_freq (cpu s));
     write_max_cpu_freq E cur
   }"

definition write_cur_min :: "env \<Rightarrow> (ss, int) state" where
  "write_cur_min E = do {
     cur \<leftarrow> getv (\<lambda>s. cur_min_cpu_freq (cpu s));
     write_min_cpu_freq E cur
   }"

definition set_max_frequency_action :: "env \<Rightarrow> int \<Rightarrow> string option list \<Rightarrow> (ss, int) state" where
  "set_max_frequency_action E argc argv =
     (if argc < 2 then return (-1)
      else do {
        a0 \<leftarrow> deref (argv_at argv 0);
        a1 \<leftarrow> deref (argv_at argv 1);
        r \<leftarrow> add_entry_to_max_cpu_freq_list E (atoi a0) (atoi a1);
        if r < 0 then return (-1) else write_cur_max E
      })"

definition set_min_frequency_action :: "env \<Rightarrow> int \<Rightarrow> string option list \<Rightarrow> (ss, int) state" where
  "set_min_frequency_action E argc argv =
     (if argc < 2 then return (-1)
      else do {
        a0 \<leftarrow> deref (argv_at argv 0);
        a1 \<leftarrow> deref (argv_at argv 1);
        r \<leftarrow> add_entry_to_min_cpu_freq_list E (atoi a0) (atoi a1);
        if r < 0 then return (-1) else write_cur_min E
      })"

definition release_max_frequency_action ::
  "env \<Rightarrow> int \<Rightarrow> string option list \<Rightarrow> (ss, int) state" where
  "release_max_frequency_action E argc argv =
     (if argc < 1 then return (-1)
      else do {
        a0 \<leftarrow> deref (argv_at argv 0);
        r \<leftarrow> remove_entry_from_max_cpu_freq_list E (atoi a0);
        if r < 0 then return (-1)
        else do {
          set_cpu (\<lambda>c. if cur_max_cpu_freq c = INT_MAX
                       then c\<lparr>cur_max_cpu_freq := max_cpu_freq_limit c\<rparr> else c);
          write_cur_max E
        }
      })"

definition release_min_frequency_action ::
  "env \<Rightarrow> int \<Rightarrow> string option list \<Rightarrow> (ss, int) state" where
  "release_min_frequency_action E argc argv =
     (if argc < 1 then return (-1)
      else do {
        a0 \<leftarrow> deref (argv_at argv 0);
        r \<leftarrow> remove_entry_from_min_cpu_freq_list E (atoi a0);
        if r < 0 then return (-1)
        else do {
          set_cpu (\<lambda>c. if cur_min_cpu_freq c = INT_MIN
                       then c\<lparr>cur_min_cpu_freq := min_cpu_freq_limit c\<rparr> else c);
          write_cur_min E
        }
      })"

section \<open>Power saving\<close>

text \<open>The value of the key that changed is the argument \<open>key\<close>.\<close>

definition power_saving_cb :: "env \<Rightarrow> int \<Rightarrow> (ss, int) state" where
  "power_saving_cb E key = do {
     ret \<leftarrow> (if key = 1 then do {
         (_, cpu_stat) \<leftarrow> call_out E (VCONF (Get_bool VK_PWRSV_CUSTMODE_CPU)) (-1);
         if cpu_stat = 1 then do {
           pid \<leftarrow> call E (OS Getpid);
           add_entry_to_max_cpu_freq_list E pid POWER_SAVING_CPUFREQ
         } else return 0
       } else do {
         pid \<leftarrow> call E (OS Getpid);
         ret \<leftarrow> remove_entry_from_max_cpu_freq_list E pid;
         set_cpu (\<lambda>c. if cur_max_cpu_freq c = INT_MIN
                      then c\<lparr>cur_max_cpu_freq := max_cpu_freq_limit c\<rparr> else c);
         return ret
       });
     if ret < 0 then return (-1) else write_cur_max E
   }"

definition power_saving_cpu_cb :: "env \<Rightarrow> int \<Rightarrow> (ss, int) state" where
  "power_saving_cpu_cb E key = do {
     (_, stat) \<leftarrow> call_out E (VCONF (Get_bool VK_PWRSV_SYSMODE_STATUS)) (-1);
     if stat \<noteq> 1 then return 0
     else do {
       ret \<leftarrow> (if key = 1 then do {
           pid \<leftarrow> call E (OS Getpid);
           add_entry_to_max_cpu_freq_list E pid POWER_SAVING_CPUFREQ
         } else do {
           pid \<leftarrow> call E (OS Getpid);
           ret \<leftarrow> remove_entry_from_max_cpu_freq_list E pid;
           set_cpu (\<lambda>c. if cur_max_cpu_freq c = INT_MAX
                        then c\<lparr>cur_max_cpu_freq := max_cpu_freq_limit c\<rparr> else c);
           return ret
         });
       if ret < 0 then return (-1) else write_cur_max E
     }
   }"

definition set_freq_limit :: "env \<Rightarrow> (ss, unit) state" where
  "set_freq_limit E = do {
     lim \<leftarrow> getv (\<lambda>s. max_cpu_freq_limit (cpu s));
     (ret, v) \<leftarrow> call_out E (OEM (Get OEM_cpuinfo_max_freq)) lim;
     set_cpu (\<lambda>c. c\<lparr>max_cpu_freq_limit := if ret < 0 then DEFAULT_MAX_CPU_FREQ else v\<rparr>);
     lim \<leftarrow> getv (\<lambda>s. min_cpu_freq_limit (cpu s));
     (ret, v) \<leftarrow> call_out E (OEM (Get OEM_cpuinfo_min_freq)) lim;
     set_cpu (\<lambda>c. c\<lparr>min_cpu_freq_limit := if ret < 0 then DEFAULT_MIN_CPU_FREQ else v\<rparr>);
     (_, stat) \<leftarrow> call_out E (VCONF (Get_bool VK_PWRSV_SYSMODE_STATUS)) (-1);
     (_, cpu_stat) \<leftarrow> (if stat = 1 then call_out E (VCONF (Get_bool VK_PWRSV_CUSTMODE_CPU)) (-1)
                        else return (0, -1));
     if cpu_stat = 1 then do {
       pid \<leftarrow> call E (OS Getpid);
       ret \<leftarrow> add_entry_to_max_cpu_freq_list E pid POWER_SAVING_CPUFREQ;
       if ret < 0 then return ()
       else do { write_cur_max E; return () }
     } else return ()
   }"

definition ss_cpu_handler_init :: "env \<Rightarrow> (ss, int) state" where
  "ss_cpu_handler_init E = do {
     set_freq_limit E;
     ss_action_entry_add_internal E PREDEF_SET_MAX_FREQUENCY (Some Fn_set_max_frequency_action) None None;
     ss_action_entry_add_internal E PREDEF_SET_MIN_FREQUENCY (Some Fn_set_min_frequency_action) None None;
     ss_action_entry_add_internal E PREDEF_RELEASE_MAX_FREQUENCY (Some Fn_release_max_frequency_action) None None;
     ss_action_entry_add_internal E PREDEF_RELEASE_MIN_FREQUENCY (Some Fn_release_min_frequency_action) None None;
     call E (VCONF (Notify_key_changed VK_PWRSV_SYSMODE_STATUS));
     call E (VCONF (Notify_key_changed VK_PWRSV_CUSTMODE_CPU));
     return 0
   }"

section \<open>Frames\<close>

lemmas cpu_action_defs = set_max_frequency_action_def set_min_frequency_action_def
  release_max_frequency_action_def release_min_frequency_action_def
  add_entry_to_max_cpu_freq_list_def add_entry_to_min_cpu_freq_list_def
  remove_entry_from_max_cpu_freq_list_def remove_entry_from_min_cpu_freq_list_def
  write_cur_max_def write_cur_min_def write_max_cpu_freq_def write_min_cpu_freq_def
  is_entry_enable_def

lemma frames_cpu [frames]:
  "frame queue_part (set_max_frequency_action E argc argv)"
  "frame queue_part (set_min_frequency_action E argc argv)"
  "frame queue_part (release_max_frequency_action E argc argv)"
  "frame queue_part (release_min_frequency_action E argc argv)"
  "frame queue_part (power_saving_cb E k)" "frame queue_part (power_saving_cpu_cb E k)"
  "frame queue_part (set_freq_limit E)"
  unfolding cpu_action_defs power_saving_cb_def power_saving_cpu_cb_def set_freq_limit_def
  by (intro frames light_deref)+

lemma stops_cpu [stops]:
  "obeys_halt (set_max_frequency_action E argc argv)"
  "obeys_halt (set_min_frequency_action E argc argv)"
  "obeys_halt (release_max_frequency_action E argc argv)"
  "obeys_halt (release_min_frequency_action E argc argv)"
  "obeys_halt (power_saving_cb E k)" "obeys_halt (power_saving_cpu_cb E k)"
  "obeys_halt (set_freq_limit E)"
  unfolding cpu_action_defs power_saving_cb_def power_saving_cpu_cb_def set_freq_limit_def
  by (intro stops)+

section \<open>What the removal loop computes\<close>

text \<open>The entries that stay: those of other processes that still exist when they are asked for.\<close>

fun kept_entries :: "env \<Rightarrow> int \<Rightarrow> cpu_freq_entry list \<Rightarrow> hist \<Rightarrow> cpu_freq_entry list" where
  "kept_entries E pid [] h = []"
| "kept_entries E pid (e # es) h =
     (let c = FS (Access (proc_path (cf_pid e))); rest = kept_entries E pid es (c # h) in
      if e_ret E h c < 0 \<or> cf_pid e = pid then rest else e # rest)"

definition tightest :: "(int \<Rightarrow> int \<Rightarrow> int) \<Rightarrow> int \<Rightarrow> cpu_freq_entry list \<Rightarrow> int" where
  "tightest tight free es = fold tight (map cf_freq es) free"

lemma kept_subset: "set (kept_entries E pid es h) \<subseteq> {e \<in> set es. cf_pid e \<noteq> pid}"
  by (induction es arbitrary: h) (auto simp: Let_def)

lemma kept_distinct:
  "distinct (map cf_pid es) \<Longrightarrow> distinct (map cf_pid (kept_entries E pid es h))"
proof (induction es arbitrary: h)
  case Nil
  then show ?case by simp
next
  case (Cons e es)
  then show ?case
    using kept_subset [of E pid es "FS (Access (proc_path (cf_pid e))) # h"] by (auto simp: Let_def)
qed

lemma remove1_new: "e \<notin> set ks \<Longrightarrow> remove1 e (ks @ e # es) = ks @ es"
  by (induction ks) auto

lemma book_loop:
  fixes L :: "cpu_vars \<Rightarrow> cpu_freq_entry list" and C :: "cpu_vars \<Rightarrow> int"
  assumes lens: "\<And>c x. L (setL x c) = x" "\<And>c x. L (setC x c) = L c"
      "\<And>c x. C (setC x c) = x" "\<And>c x. C (setL x c) = C c"
    and body: "\<And>e s. alive s \<Longrightarrow> exec (body e) s =
      (let a = FS (Access (proc_path (cf_pid e))) in
       if e_ret E (trace s) a < 0 \<or> cf_pid e = p
       then (log_call a s)\<lparr>cpu := setL (remove1 e (L (cpu s))) (cpu s)\<rparr>
       else (log_call a s)\<lparr>cpu := setC (tight (cf_freq e) (C (cpu s))) (cpu s)\<rparr>)"
    and "alive s" "L (cpu s) = ks @ es" "distinct (map cf_pid (ks @ es))"
  shows "alive (fold (\<lambda>e. exec (body e)) es s) \<and>
    L (cpu (fold (\<lambda>e. exec (body e)) es s)) = ks @ kept_entries E p es (trace s) \<and>
    C (cpu (fold (\<lambda>e. exec (body e)) es s)) = tightest tight (C (cpu s)) (kept_entries E p es (trace s))"
  using assms(6-)
proof (induction es arbitrary: s ks)
  case Nil
  then show ?case by (simp add: tightest_def)
next
  case (Cons e es)
  let ?a = "FS (Access (proc_path (cf_pid e)))"
  let ?t = "exec (body e) s"
  show ?case
  proof (cases "e_ret E (trace s) ?a < 0 \<or> cf_pid e = p")
    case True
    have t: "?t = (log_call ?a s)\<lparr>cpu := setL (remove1 e (L (cpu s))) (cpu s)\<rparr>"
      using body [OF Cons.prems(1), of e] True by (simp only: Let_def if_True)
    have "e \<notin> set ks" using Cons.prems(3) by auto
    then have "L (cpu ?t) = ks @ es" using Cons.prems(2) by (simp add: t lens remove1_new)
    then show ?thesis
      using Cons.IH [of ?t ks] Cons.prems True by (simp add: t lens)
  next
    case False
    have t: "?t = (log_call ?a s)\<lparr>cpu := setC (tight (cf_freq e) (C (cpu s))) (cpu s)\<rparr>"
      using body [OF Cons.prems(1), of e] False by (simp only: Let_def if_False)
    then show ?thesis
      using Cons.IH [of ?t "ks @ [e]"] Cons.prems False by (simp add: t lens tightest_def Let_def)
  qed
qed

lemma remove_max_effect:
  fixes E p s
  assumes "alive s" "distinct (map cf_pid (max_cpu_freq_list (cpu s)))"
  defines "t \<equiv> exec (remove_entry_from_max_cpu_freq_list E p) s"
  shows "alive t"
    "max_cpu_freq_list (cpu t) = kept_entries E p (max_cpu_freq_list (cpu s)) (trace s)"
    "cur_max_cpu_freq (cpu t) = tightest min INT_MAX (kept_entries E p (max_cpu_freq_list (cpu s)) (trace s))"
proof -
  let ?s = "s\<lparr>cpu := (cpu s)\<lparr>cur_max_cpu_freq := INT_MAX\<rparr>\<rparr>"
  define body where "body e = do {
       enable \<leftarrow> is_entry_enable E (cf_pid e);
       if \<not> enable \<or> cf_pid e = p
       then set_cpu (\<lambda>c. c\<lparr>max_cpu_freq_list := remove1 e (max_cpu_freq_list c)\<rparr>)
       else set_cpu (\<lambda>c. if cf_freq e < cur_max_cpu_freq c then c\<lparr>cur_max_cpu_freq := cf_freq e\<rparr> else c)
     }" for e
  have "t = fold (\<lambda>e. exec (body e)) (max_cpu_freq_list (cpu ?s)) ?s"
    using assms(1) by (simp add: t_def remove_entry_from_max_cpu_freq_list_def exec_for_each body_def)
  moreover have "alive (fold (\<lambda>e. exec (body e)) es ?s) \<and>
      max_cpu_freq_list (cpu (fold (\<lambda>e. exec (body e)) es ?s)) = [] @ kept_entries E p es (trace ?s) \<and>
      cur_max_cpu_freq (cpu (fold (\<lambda>e. exec (body e)) es ?s)) =
        tightest min (cur_max_cpu_freq (cpu ?s)) (kept_entries E p es (trace ?s))"
    if "es = max_cpu_freq_list (cpu s)" for es
    by (rule book_loop [where setL = "\<lambda>x c. c\<lparr>max_cpu_freq_list := x\<rparr>"
          and setC = "\<lambda>x c. c\<lparr>cur_max_cpu_freq := x\<rparr>"])
      (use assms that in \<open>auto simp: body_def is_entry_enable_def Let_def min_def\<close>)
  ultimately show "alive t"
    "max_cpu_freq_list (cpu t) = kept_entries E p (max_cpu_freq_list (cpu s)) (trace s)"
    "cur_max_cpu_freq (cpu t) = tightest min INT_MAX (kept_entries E p (max_cpu_freq_list (cpu s)) (trace s))"
    by simp_all
qed

lemma remove_min_effect:
  fixes E p s
  assumes "alive s" "distinct (map cf_pid (min_cpu_freq_list (cpu s)))"
  defines "t \<equiv> exec (remove_entry_from_min_cpu_freq_list E p) s"
  shows "alive t"
    "min_cpu_freq_list (cpu t) = kept_entries E p (min_cpu_freq_list (cpu s)) (trace s)"
    "cur_min_cpu_freq (cpu t) = tightest max INT_MIN (kept_entries E p (min_cpu_freq_list (cpu s)) (trace s))"
proof -
  let ?s = "s\<lparr>cpu := (cpu s)\<lparr>cur_min_cpu_freq := INT_MIN\<rparr>\<rparr>"
  define body where "body e = do {
       enable \<leftarrow> is_entry_enable E (cf_pid e);
       if \<not> enable \<or> cf_pid e = p
       then set_cpu (\<lambda>c. c\<lparr>min_cpu_freq_list := remove1 e (min_cpu_freq_list c)\<rparr>)
       else set_cpu (\<lambda>c. if cf_freq e > cur_min_cpu_freq c then c\<lparr>cur_min_cpu_freq := cf_freq e\<rparr> else c)
     }" for e
  have "t = fold (\<lambda>e. exec (body e)) (min_cpu_freq_list (cpu ?s)) ?s"
    using assms(1) by (simp add: t_def remove_entry_from_min_cpu_freq_list_def exec_for_each body_def)
  moreover have "alive (fold (\<lambda>e. exec (body e)) es ?s) \<and>
      min_cpu_freq_list (cpu (fold (\<lambda>e. exec (body e)) es ?s)) = [] @ kept_entries E p es (trace ?s) \<and>
      cur_min_cpu_freq (cpu (fold (\<lambda>e. exec (body e)) es ?s)) =
        tightest max (cur_min_cpu_freq (cpu ?s)) (kept_entries E p es (trace ?s))"
    if "es = min_cpu_freq_list (cpu s)" for es
    by (rule book_loop [where setL = "\<lambda>x c. c\<lparr>min_cpu_freq_list := x\<rparr>"
          and setC = "\<lambda>x c. c\<lparr>cur_min_cpu_freq := x\<rparr>"])
      (use assms that in \<open>auto simp: body_def is_entry_enable_def Let_def max_def\<close>)
  ultimately show "alive t"
    "min_cpu_freq_list (cpu t) = kept_entries E p (min_cpu_freq_list (cpu s)) (trace s)"
    "cur_min_cpu_freq (cpu t) = tightest max INT_MIN (kept_entries E p (min_cpu_freq_list (cpu s)) (trace s))"
    by simp_all
qed

section \<open>The book of one direction\<close>

text \<open>
  What the client relies on, for the upper and for the lower bounds: removing keeps the
  entries of the other processes and recomputes the bound; adding removes, tightens the
  bound, and enters the new request when there is memory.
\<close>

locale freq_book =
  fixes entries :: "ss \<Rightarrow> cpu_freq_entry list" and cur :: "ss \<Rightarrow> int"
    and tight :: "int \<Rightarrow> int \<Rightarrow> int" and free :: int
    and remove :: "env \<Rightarrow> int \<Rightarrow> (ss, int) state"
    and add :: "env \<Rightarrow> int \<Rightarrow> int \<Rightarrow> (ss, int) state"
  assumes tight_commute: "tight a b = tight b a"
    and tight_assoc: "tight (tight a b) c = tight a (tight b c)"
    and tight_idem: "tight a a = a"
    and tight_choice: "tight a b = a \<or> tight a b = b"
    and removes: "alive s \<Longrightarrow> distinct (map cf_pid (entries s)) \<Longrightarrow>
      alive (exec (remove E p) s) \<and> entries (exec (remove E p) s) = kept_entries E p (entries s) (trace s) \<and>
      cur (exec (remove E p) s) = tightest tight free (kept_entries E p (entries s) (trace s))"
    and adds: "alive s \<Longrightarrow> distinct (map cf_pid (entries s)) \<Longrightarrow>
      alive (exec (add E p f) s) \<and>
      cur (exec (add E p f) s) = tight f (tightest tight free (kept_entries E p (entries s) (trace s))) \<and>
      (if result (add E p f) s < 0
       then entries (exec (add E p f) s) = kept_entries E p (entries s) (trace s)
       else entries (exec (add E p f) s) =
         \<lparr>cf_pid = p, cf_freq = f\<rparr> # kept_entries E p (entries s) (trace s))"
begin

definition tighter_eq :: "int \<Rightarrow> int \<Rightarrow> bool" where
  "tighter_eq a b \<longleftrightarrow> tight a b = a"

text \<open>The bound is at least as tight as every entry, and is the one of an entry, or free.\<close>

definition bound_ok :: "ss \<Rightarrow> bool" where
  "bound_ok s \<longleftrightarrow> distinct (map cf_pid (entries s)) \<and>
     (\<forall>e \<in> set (entries s). tighter_eq (cur s) (cf_freq e)) \<and>
     (entries s \<noteq> [] \<longrightarrow> cur s \<in> insert free (cf_freq ` set (entries s)))"

lemma tighter_trans: "tighter_eq a b \<Longrightarrow> tighter_eq b c \<Longrightarrow> tighter_eq a c"
  unfolding tighter_eq_def by (metis tight_assoc)

lemma tight_le: "tighter_eq (tight a b) a" "tighter_eq (tight a b) b"
  unfolding tighter_eq_def by (metis tight_assoc tight_commute tight_idem)+

lemma fold_tight_bound:
  "tighter_eq (fold tight fs a) a \<and> (\<forall>f \<in> set fs. tighter_eq (fold tight fs a) f) \<and>
   fold tight fs a \<in> insert a (set fs)"
proof (induction fs arbitrary: a)
  case Nil
  then show ?case by (simp add: tighter_eq_def tight_idem)
next
  case (Cons f fs)
  show ?case
    using Cons [of "tight f a"] tight_le [of f a] tight_choice [of f a]
    by (auto intro: tighter_trans)
qed

lemma tightest_bound:
  "\<forall>e \<in> set es. tighter_eq (tightest tight a es) (cf_freq e)"
  "tightest tight a es \<in> insert a (cf_freq ` set es)"
  using fold_tight_bound [of "map cf_freq es" a] by (auto simp: tightest_def)

lemma remove_ok:
  assumes "alive s" "distinct (map cf_pid (entries s))"
  shows "bound_ok (exec (remove E p) s) \<and> p \<notin> cf_pid ` set (entries (exec (remove E p) s)) \<and>
    (entries (exec (remove E p) s) = [] \<longrightarrow> cur (exec (remove E p) s) = free)"
  using removes [OF assms, of E p] kept_distinct [OF assms(2), of E p "trace s"]
    kept_subset [of E p "entries s" "trace s"]
    tightest_bound [where a = free and es = "kept_entries E p (entries s) (trace s)"]
  by (auto simp: bound_ok_def tightest_def)

lemma add_ok:
  assumes "alive s" "distinct (map cf_pid (entries s))" "0 \<le> result (add E p f) s"
  shows "bound_ok (exec (add E p f) s) \<and>
    \<lparr>cf_pid = p, cf_freq = f\<rparr> \<in> set (entries (exec (add E p f) s))"
proof -
  let ?ks = "kept_entries E p (entries s) (trace s)"
  define b where "b = tight f (tightest tight free ?ks)"
  have e: "entries (exec (add E p f) s) = \<lparr>cf_pid = p, cf_freq = f\<rparr> # ?ks" "cur (exec (add E p f) s) = b"
    using adds [OF assms(1,2), of E p f] assms(3) by (simp_all add: b_def)
  have "tighter_eq b f" "\<forall>e \<in> set ?ks. tighter_eq b (cf_freq e)"
    unfolding b_def using tight_le tightest_bound(1) tighter_trans by blast+
  moreover have "b \<in> insert f (insert free (cf_freq ` set ?ks))"
    unfolding b_def using tight_choice [of f "tightest tight free ?ks"] tightest_bound(2) [where a = free and es = ?ks] by auto
  ultimately show ?thesis
    using kept_distinct [OF assms(2), of E p "trace s"] kept_subset [of E p "entries s" "trace s"]
    by (auto simp: bound_ok_def e)
qed

end

interpretation max_book: freq_book "\<lambda>s. max_cpu_freq_list (cpu s)" "\<lambda>s. cur_max_cpu_freq (cpu s)"
  min INT_MAX remove_entry_from_max_cpu_freq_list add_entry_to_max_cpu_freq_list
proof (unfold_locales, goal_cases)
  case (5 s E p)
  then show ?case using remove_max_effect by blast
next
  case (6 s E p f)
  then show ?case
    using remove_max_effect [of s E p]
    by (auto simp: add_entry_to_max_cpu_freq_list_def min_def)
qed (auto simp: min_def)

interpretation min_book: freq_book "\<lambda>s. min_cpu_freq_list (cpu s)" "\<lambda>s. cur_min_cpu_freq (cpu s)"
  max INT_MIN remove_entry_from_min_cpu_freq_list add_entry_to_min_cpu_freq_list
proof (unfold_locales, goal_cases)
  case (5 s E p)
  then show ?case using remove_min_effect by blast
next
  case (6 s E p f)
  then show ?case
    using remove_min_effect [of s E p]
    by (auto simp: add_entry_to_min_cpu_freq_list_def max_def)
qed (auto simp: max_def)

section \<open>Invariant\<close>

definition book_wf :: "cpu_freq_entry list \<Rightarrow> bool" where
  "book_wf es \<longleftrightarrow> distinct (map cf_pid es) \<and> (\<forall>e \<in> set es. is_int32 (cf_freq e))"

definition cpu_ok :: "ss \<Rightarrow> bool" where
  "cpu_ok s \<longleftrightarrow> book_wf (max_cpu_freq_list (cpu s)) \<and> book_wf (min_cpu_freq_list (cpu s))"

lemma kept_wf: "book_wf es \<Longrightarrow> book_wf (kept_entries E p es h)"
  using kept_distinct [of es E p h] kept_subset [of E p es h] by (auto simp: book_wf_def)

lemma kept_add_wf:
  "book_wf es \<Longrightarrow> is_int32 f \<Longrightarrow> book_wf (\<lparr>cf_pid = p, cf_freq = f\<rparr> # kept_entries E p es h)"
  using kept_wf [of es E p h] kept_subset [of E p es h] by (auto simp: book_wf_def)

lemma Min_is:
  fixes v :: int
  shows "v \<in> f ` set xs \<Longrightarrow> (\<And>x. x \<in> set xs \<Longrightarrow> v \<le> f x) \<Longrightarrow> Min (f ` set xs) = v"
  by (rule Min_eqI) auto

lemma Max_is:
  fixes v :: int
  shows "v \<in> f ` set xs \<Longrightarrow> (\<And>x. x \<in> set xs \<Longrightarrow> f x \<le> v) \<Longrightarrow> Max (f ` set xs) = v"
  by (rule Max_eqI) auto

text \<open>The list of the other direction stays as it is.\<close>

lemma frame_other_book:
  "frame (\<lambda>s. min_cpu_freq_list (cpu s)) (remove_entry_from_max_cpu_freq_list E p)"
  "frame (\<lambda>s. min_cpu_freq_list (cpu s)) (add_entry_to_max_cpu_freq_list E p f)"
  "frame (\<lambda>s. max_cpu_freq_list (cpu s)) (remove_entry_from_min_cpu_freq_list E p)"
  "frame (\<lambda>s. max_cpu_freq_list (cpu s)) (add_entry_to_min_cpu_freq_list E p f)"
proof -
  have o: "off_log (\<lambda>s. min_cpu_freq_list (cpu s))" "off_log (\<lambda>s. max_cpu_freq_list (cpu s))" by auto
  have c: "frame (\<lambda>s. min_cpu_freq_list (cpu s)) (set_cpu g)" if "\<And>c. min_cpu_freq_list (g c) = min_cpu_freq_list c" for g
    by (simp add: frame_def that)
  have d: "frame (\<lambda>s. max_cpu_freq_list (cpu s)) (set_cpu g)" if "\<And>c. max_cpu_freq_list (g c) = max_cpu_freq_list c" for g
    by (simp add: frame_def that)
  show "frame (\<lambda>s. min_cpu_freq_list (cpu s)) (remove_entry_from_max_cpu_freq_list E p)"
    "frame (\<lambda>s. min_cpu_freq_list (cpu s)) (add_entry_to_max_cpu_freq_list E p f)"
    "frame (\<lambda>s. max_cpu_freq_list (cpu s)) (remove_entry_from_min_cpu_freq_list E p)"
    "frame (\<lambda>s. max_cpu_freq_list (cpu s)) (add_entry_to_min_cpu_freq_list E p f)"
    unfolding add_entry_to_max_cpu_freq_list_def add_entry_to_min_cpu_freq_list_def
      remove_entry_from_max_cpu_freq_list_def remove_entry_from_min_cpu_freq_list_def is_entry_enable_def
    by (intro frames o c d; simp)+
qed

lemma write_cur_effect [simp]:
  "exec (write_cur_max E) s = log_call (OEM (Put OEM_scaling_max_freq (cur_max_cpu_freq (cpu s)))) s"
  "exec (write_cur_min E) s = log_call (OEM (Put OEM_scaling_min_freq (cur_min_cpu_freq (cpu s)))) s"
  by (simp_all add: write_cur_max_def write_cur_min_def write_max_cpu_freq_def write_min_cpu_freq_def)

lemma remove_result [simp]:
  "result (remove_entry_from_max_cpu_freq_list E p) s = 0"
  "result (remove_entry_from_min_cpu_freq_list E p) s = 0"
  by (simp_all add: remove_entry_from_max_cpu_freq_list_def remove_entry_from_min_cpu_freq_list_def)

lemma cpu_ok_add_max:
  assumes "cpu_ok s" "alive s" "is_int32 f"
  shows "cpu_ok (exec (add_entry_to_max_cpu_freq_list E p f) s)"
proof -
  have "book_wf (max_cpu_freq_list (cpu (exec (add_entry_to_max_cpu_freq_list E p f) s)))"
    using max_book.adds [of s E p f] assms kept_wf kept_add_wf
    by (simp add: cpu_ok_def book_wf_def split: if_splits)
  then show ?thesis
    using frameD [OF frame_other_book(2), of E p f s] assms(1) by (simp add: cpu_ok_def)
qed

lemma cpu_ok_add_min:
  assumes "cpu_ok s" "alive s" "is_int32 f"
  shows "cpu_ok (exec (add_entry_to_min_cpu_freq_list E p f) s)"
proof -
  have "book_wf (min_cpu_freq_list (cpu (exec (add_entry_to_min_cpu_freq_list E p f) s)))"
    using min_book.adds [of s E p f] assms kept_wf kept_add_wf
    by (simp add: cpu_ok_def book_wf_def split: if_splits)
  then show ?thesis
    using frameD [OF frame_other_book(4), of E p f s] assms(1) by (simp add: cpu_ok_def)
qed

lemma cpu_ok_distinct:
  "cpu_ok s \<Longrightarrow> distinct (map cf_pid (max_cpu_freq_list (cpu s)))"
  "cpu_ok s \<Longrightarrow> distinct (map cf_pid (min_cpu_freq_list (cpu s)))"
  by (simp_all add: cpu_ok_def book_wf_def)

lemma cpu_ok_remove:
  assumes "cpu_ok s" "alive s"
  shows "cpu_ok (exec (remove_entry_from_max_cpu_freq_list E p) s)"
    "cpu_ok (exec (remove_entry_from_min_cpu_freq_list E p) s)"
  using assms max_book.removes [OF assms(2) cpu_ok_distinct(1) [OF assms(1)], of E p]
    min_book.removes [OF assms(2) cpu_ok_distinct(2) [OF assms(1)], of E p] kept_wf
    frameD [OF frame_other_book(1), of E p s] frameD [OF frame_other_book(3), of E p s]
  by (simp_all add: cpu_ok_def)

text \<open>What an action leaves and writes, in terms of the list it leaves.\<close>

lemma set_max_run:
  assumes "2 \<le> argc" "argv_at argv 0 = Some a" "argv_at argv 1 = Some b"
  shows "exec (set_max_frequency_action E argc argv) s =
      (let t = exec (add_entry_to_max_cpu_freq_list E (atoi a) (atoi b)) s in
       if result (add_entry_to_max_cpu_freq_list E (atoi a) (atoi b)) s < 0 then t
       else log_call (OEM (Put OEM_scaling_max_freq (cur_max_cpu_freq (cpu t)))) t)"
    and "result (set_max_frequency_action E argc argv) s = 0 \<Longrightarrow>
      0 \<le> result (add_entry_to_max_cpu_freq_list E (atoi a) (atoi b)) s"
  using assms by (auto simp: set_max_frequency_action_def Let_def split: if_splits)

lemma set_min_run:
  assumes "2 \<le> argc" "argv_at argv 0 = Some a" "argv_at argv 1 = Some b"
  shows "exec (set_min_frequency_action E argc argv) s =
      (let t = exec (add_entry_to_min_cpu_freq_list E (atoi a) (atoi b)) s in
       if result (add_entry_to_min_cpu_freq_list E (atoi a) (atoi b)) s < 0 then t
       else log_call (OEM (Put OEM_scaling_min_freq (cur_min_cpu_freq (cpu t)))) t)"
    and "result (set_min_frequency_action E argc argv) s = 0 \<Longrightarrow>
      0 \<le> result (add_entry_to_min_cpu_freq_list E (atoi a) (atoi b)) s"
  using assms by (auto simp: set_min_frequency_action_def Let_def split: if_splits)

text \<open>The bound is the extreme one of the requests, unless that is the neutral value.\<close>

lemma max_bound_Min:
  assumes "max_book.bound_ok s" "max_cpu_freq_list (cpu s) \<noteq> []"
    and "\<forall>e \<in> set (max_cpu_freq_list (cpu s)). is_int32 (cf_freq e)"
  shows "cur_max_cpu_freq (cpu s) = Min (cf_freq ` set (max_cpu_freq_list (cpu s)))"
proof (rule sym, rule Min_is)
  have le: "cur_max_cpu_freq (cpu s) \<le> cf_freq e" if "e \<in> set (max_cpu_freq_list (cpu s))" for e
    using assms(1) that by (auto simp: max_book.bound_ok_def max_book.tighter_eq_def min_def split: if_splits)
  then show "x \<in> set (max_cpu_freq_list (cpu s)) \<Longrightarrow> cur_max_cpu_freq (cpu s) \<le> cf_freq x" for x .
  obtain e where e: "e \<in> set (max_cpu_freq_list (cpu s))"
    using assms(2) by (cases "max_cpu_freq_list (cpu s)") auto
  have "cur_max_cpu_freq (cpu s) = INT_MAX \<Longrightarrow> cf_freq e = INT_MAX"
    using le [OF e] assms(3) e by (force simp: is_int32_def)
  then show "cur_max_cpu_freq (cpu s) \<in> cf_freq ` set (max_cpu_freq_list (cpu s))"
    using assms(1,2) e by (force simp: max_book.bound_ok_def)
qed

lemma min_bound_Max:
  assumes "min_book.bound_ok s" "min_cpu_freq_list (cpu s) \<noteq> []"
    and "\<forall>e \<in> set (min_cpu_freq_list (cpu s)). is_int32 (cf_freq e)"
  shows "cur_min_cpu_freq (cpu s) = Max (cf_freq ` set (min_cpu_freq_list (cpu s)))"
proof (rule sym, rule Max_is)
  have le: "cf_freq e \<le> cur_min_cpu_freq (cpu s)" if "e \<in> set (min_cpu_freq_list (cpu s))" for e
    using assms(1) that by (auto simp: min_book.bound_ok_def min_book.tighter_eq_def max_def split: if_splits)
  then show "x \<in> set (min_cpu_freq_list (cpu s)) \<Longrightarrow> cf_freq x \<le> cur_min_cpu_freq (cpu s)" for x .
  obtain e where e: "e \<in> set (min_cpu_freq_list (cpu s))"
    using assms(2) by (cases "min_cpu_freq_list (cpu s)") auto
  have "cur_min_cpu_freq (cpu s) = INT_MIN \<Longrightarrow> cf_freq e = INT_MIN"
    using le [OF e] assms(3) e by (force simp: is_int32_def)
  then show "cur_min_cpu_freq (cpu s) \<in> cf_freq ` set (min_cpu_freq_list (cpu s))"
    using assms(1,2) e by (force simp: min_book.bound_ok_def)
qed

lemma max_book_after:
  assumes "cpu_ok t" "max_book.bound_ok t"
  shows "(if \<forall>e \<in> set (max_cpu_freq_list (cpu t)). cf_freq e = INT_MAX
      then max_cpu_freq_list (cpu t) \<noteq> [] \<longrightarrow> cur_max_cpu_freq (cpu t) = INT_MAX
      else cur_max_cpu_freq (cpu t) = Min (cf_freq ` set (max_cpu_freq_list (cpu t))) \<and>
        cur_max_cpu_freq (cpu t) \<noteq> INT_MAX)"
proof -
  have b: "max_cpu_freq_list (cpu t) \<noteq> [] \<Longrightarrow>
      cur_max_cpu_freq (cpu t) = Min (cf_freq ` set (max_cpu_freq_list (cpu t)))"
    using max_bound_Min [OF assms(2)] assms(1) by (simp add: cpu_ok_def book_wf_def)
  have le: "cur_max_cpu_freq (cpu t) \<le> cf_freq e" "cf_freq e \<le> INT_MAX"
    if "e \<in> set (max_cpu_freq_list (cpu t))" for e
    using assms that
    by (auto simp: cpu_ok_def book_wf_def is_int32_def max_book.bound_ok_def max_book.tighter_eq_def
        min_def split: if_splits)
  have all: "cur_max_cpu_freq (cpu t) = INT_MAX"
    if "\<forall>e \<in> set (max_cpu_freq_list (cpu t)). cf_freq e = INT_MAX" "max_cpu_freq_list (cpu t) \<noteq> []"
    using assms(2) that by (auto simp: max_book.bound_ok_def)
  have some: "cur_max_cpu_freq (cpu t) \<noteq> INT_MAX" "max_cpu_freq_list (cpu t) \<noteq> []"
    if "\<not> (\<forall>e \<in> set (max_cpu_freq_list (cpu t)). cf_freq e = INT_MAX)"
    using that le by (force, auto)
  show ?thesis using b all some by auto
qed

lemma min_book_after:
  assumes "cpu_ok t" "min_book.bound_ok t"
  shows "(if \<forall>e \<in> set (min_cpu_freq_list (cpu t)). cf_freq e = INT_MIN
      then min_cpu_freq_list (cpu t) \<noteq> [] \<longrightarrow> cur_min_cpu_freq (cpu t) = INT_MIN
      else cur_min_cpu_freq (cpu t) = Max (cf_freq ` set (min_cpu_freq_list (cpu t))) \<and>
        cur_min_cpu_freq (cpu t) \<noteq> INT_MIN)"
proof -
  have b: "min_cpu_freq_list (cpu t) \<noteq> [] \<Longrightarrow>
      cur_min_cpu_freq (cpu t) = Max (cf_freq ` set (min_cpu_freq_list (cpu t)))"
    using min_bound_Max [OF assms(2)] assms(1) by (simp add: cpu_ok_def book_wf_def)
  have le: "cf_freq e \<le> cur_min_cpu_freq (cpu t)" "INT_MIN \<le> cf_freq e"
    if "e \<in> set (min_cpu_freq_list (cpu t))" for e
    using assms that
    by (auto simp: cpu_ok_def book_wf_def is_int32_def min_book.bound_ok_def min_book.tighter_eq_def
        max_def split: if_splits)
  have all: "cur_min_cpu_freq (cpu t) = INT_MIN"
    if "\<forall>e \<in> set (min_cpu_freq_list (cpu t)). cf_freq e = INT_MIN" "min_cpu_freq_list (cpu t) \<noteq> []"
    using assms(2) that by (auto simp: min_book.bound_ok_def)
  have some: "cur_min_cpu_freq (cpu t) \<noteq> INT_MIN" "min_cpu_freq_list (cpu t) \<noteq> []"
    if "\<not> (\<forall>e \<in> set (min_cpu_freq_list (cpu t)). cf_freq e = INT_MIN)"
    using that le by (force, auto)
  show ?thesis using b all some by auto
qed

lemma set_max_enforces:
  fixes E s
  assumes "cpu_ok s" "alive s" "2 \<le> argc" "argv_at argv 0 = Some a" "argv_at argv 1 = Some b"
    and "result (set_max_frequency_action E argc argv) s = 0"
  defines "u \<equiv> exec (set_max_frequency_action E argc argv) s"
  shows "\<lparr>cf_pid = atoi a, cf_freq = atoi b\<rparr> \<in> set (max_cpu_freq_list (cpu u)) \<and>
    distinct (map cf_pid (max_cpu_freq_list (cpu u))) \<and>
    hd (trace u) = OEM (Put OEM_scaling_max_freq (Min (cf_freq ` set (max_cpu_freq_list (cpu u)))))"
proof -
  let ?e = "\<lparr>cf_pid = atoi a, cf_freq = atoi b\<rparr>"
  note r = set_max_run(2) [OF assms(3-6)]
  define t where "t = exec (add_entry_to_max_cpu_freq_list E (atoi a) (atoi b)) s"
  have t: "cpu_ok t" "max_book.bound_ok t" "?e \<in> set (max_cpu_freq_list (cpu t))" "alive t"
    using cpu_ok_add_max [OF assms(1,2) is_int32_atoi]
      max_book.adds [OF assms(2) cpu_ok_distinct(1) [OF assms(1)]]
      max_book.add_ok [OF assms(2) cpu_ok_distinct(1) [OF assms(1)] r]
    by (simp_all add: t_def)
  have "max_cpu_freq_list (cpu t) \<noteq> []" using t(3) by force
  then have "cur_max_cpu_freq (cpu t) = Min (cf_freq ` set (max_cpu_freq_list (cpu t)))"
    using max_bound_Min [OF t(2)] t(1) by (simp add: cpu_ok_def book_wf_def)
  then show ?thesis
    using t r cpu_ok_distinct(1) [OF t(1)]
    by (simp add: u_def set_max_run(1) [OF assms(3-5)] Let_def t_def [symmetric])
qed

lemma set_min_enforces:
  fixes E s
  assumes "cpu_ok s" "alive s" "2 \<le> argc" "argv_at argv 0 = Some a" "argv_at argv 1 = Some b"
    and "result (set_min_frequency_action E argc argv) s = 0"
  defines "u \<equiv> exec (set_min_frequency_action E argc argv) s"
  shows "\<lparr>cf_pid = atoi a, cf_freq = atoi b\<rparr> \<in> set (min_cpu_freq_list (cpu u)) \<and>
    distinct (map cf_pid (min_cpu_freq_list (cpu u))) \<and>
    hd (trace u) = OEM (Put OEM_scaling_min_freq (Max (cf_freq ` set (min_cpu_freq_list (cpu u)))))"
proof -
  let ?e = "\<lparr>cf_pid = atoi a, cf_freq = atoi b\<rparr>"
  note r = set_min_run(2) [OF assms(3-6)]
  define t where "t = exec (add_entry_to_min_cpu_freq_list E (atoi a) (atoi b)) s"
  have t: "cpu_ok t" "min_book.bound_ok t" "?e \<in> set (min_cpu_freq_list (cpu t))" "alive t"
    using cpu_ok_add_min [OF assms(1,2) is_int32_atoi]
      min_book.adds [OF assms(2) cpu_ok_distinct(2) [OF assms(1)]]
      min_book.add_ok [OF assms(2) cpu_ok_distinct(2) [OF assms(1)] r]
    by (simp_all add: t_def)
  have "min_cpu_freq_list (cpu t) \<noteq> []" using t(3) by force
  then have "cur_min_cpu_freq (cpu t) = Max (cf_freq ` set (min_cpu_freq_list (cpu t)))"
    using min_bound_Max [OF t(2)] t(1) by (simp add: cpu_ok_def book_wf_def)
  then show ?thesis
    using t r cpu_ok_distinct(2) [OF t(1)]
    by (simp add: u_def set_min_run(1) [OF assms(3-5)] Let_def t_def [symmetric])
qed

lemma release_max_enforces:
  fixes E s
  assumes "cpu_ok s" "alive s" "1 \<le> argc" "argv_at argv 0 = Some a"
  defines "u \<equiv> exec (release_max_frequency_action E argc argv) s"
  shows "atoi a \<notin> cf_pid ` set (max_cpu_freq_list (cpu u)) \<and>
    hd (trace u) = OEM (Put OEM_scaling_max_freq
      (if \<forall>e \<in> set (max_cpu_freq_list (cpu u)). cf_freq e = INT_MAX then max_cpu_freq_limit (cpu u)
       else Min (cf_freq ` set (max_cpu_freq_list (cpu u)))))"
proof -
  define t where "t = exec (remove_entry_from_max_cpu_freq_list E (atoi a)) s"
  have t: "cpu_ok t" "max_book.bound_ok t" "alive t" "atoi a \<notin> cf_pid ` set (max_cpu_freq_list (cpu t))"
    "max_cpu_freq_list (cpu t) = [] \<Longrightarrow> cur_max_cpu_freq (cpu t) = INT_MAX"
    using cpu_ok_remove(1) [OF assms(1,2)]
      max_book.removes [OF assms(2) cpu_ok_distinct(1) [OF assms(1)]]
      max_book.remove_ok [OF assms(2) cpu_ok_distinct(1) [OF assms(1)]]
    by (simp_all add: t_def)
  define free where "free \<longleftrightarrow> (\<forall>e \<in> set (max_cpu_freq_list (cpu t)). cf_freq e = INT_MAX)"
  define v where "v = (if cur_max_cpu_freq (cpu t) = INT_MAX then max_cpu_freq_limit (cpu t) else cur_max_cpu_freq (cpu t))"
  have "v = (if free then max_cpu_freq_limit (cpu t) else Min (cf_freq ` set (max_cpu_freq_list (cpu t))))"
    using max_book_after [OF t(1,2)] t(5) unfolding v_def free_def [symmetric] by (cases free) auto
  moreover have "max_cpu_freq_list (cpu u) = max_cpu_freq_list (cpu t)" "max_cpu_freq_limit (cpu u) = max_cpu_freq_limit (cpu t)"
    "hd (trace u) = OEM (Put OEM_scaling_max_freq v)"
    using assms(3,4) t(3) by (simp_all add: u_def release_max_frequency_action_def t_def [symmetric] v_def)
  ultimately show ?thesis using t(4) by (simp only: free_def simp_thms)
qed

lemma release_min_enforces:
  fixes E s
  assumes "cpu_ok s" "alive s" "1 \<le> argc" "argv_at argv 0 = Some a"
  defines "u \<equiv> exec (release_min_frequency_action E argc argv) s"
  shows "atoi a \<notin> cf_pid ` set (min_cpu_freq_list (cpu u)) \<and>
    hd (trace u) = OEM (Put OEM_scaling_min_freq
      (if \<forall>e \<in> set (min_cpu_freq_list (cpu u)). cf_freq e = INT_MIN then min_cpu_freq_limit (cpu u)
       else Max (cf_freq ` set (min_cpu_freq_list (cpu u)))))"
proof -
  define t where "t = exec (remove_entry_from_min_cpu_freq_list E (atoi a)) s"
  have t: "cpu_ok t" "min_book.bound_ok t" "alive t" "atoi a \<notin> cf_pid ` set (min_cpu_freq_list (cpu t))"
    "min_cpu_freq_list (cpu t) = [] \<Longrightarrow> cur_min_cpu_freq (cpu t) = INT_MIN"
    using cpu_ok_remove(2) [OF assms(1,2)]
      min_book.removes [OF assms(2) cpu_ok_distinct(2) [OF assms(1)]]
      min_book.remove_ok [OF assms(2) cpu_ok_distinct(2) [OF assms(1)]]
    by (simp_all add: t_def)
  define free where "free \<longleftrightarrow> (\<forall>e \<in> set (min_cpu_freq_list (cpu t)). cf_freq e = INT_MIN)"
  define v where "v = (if cur_min_cpu_freq (cpu t) = INT_MIN then min_cpu_freq_limit (cpu t) else cur_min_cpu_freq (cpu t))"
  have "v = (if free then min_cpu_freq_limit (cpu t) else Max (cf_freq ` set (min_cpu_freq_list (cpu t))))"
    using min_book_after [OF t(1,2)] t(5) unfolding v_def free_def [symmetric] by (cases free) auto
  moreover have "min_cpu_freq_list (cpu u) = min_cpu_freq_list (cpu t)" "min_cpu_freq_limit (cpu u) = min_cpu_freq_limit (cpu t)"
    "hd (trace u) = OEM (Put OEM_scaling_min_freq v)"
    using assms(3,4) t(3) by (simp_all add: u_def release_min_frequency_action_def t_def [symmetric] v_def)
  ultimately show ?thesis using t(4) by (simp only: free_def simp_thms)
qed

section \<open>Properties\<close>

definition cpu_env :: env where
  "cpu_env = env1\<lparr>e_ret := (\<lambda>h c. case c of OS Getpid \<Rightarrow> 100 | FS f \<Rightarrow> 0 | _ \<Rightarrow> 1)\<rparr>"

definition cpu_state :: ss where
  "cpu_state = boot\<lparr>cpu := (cpu boot)\<lparr>max_cpu_freq_limit := 1400000, min_cpu_freq_limit := 200000,
     max_cpu_freq_list := [\<lparr>cf_pid = 7, cf_freq = 600000\<rparr>], cur_max_cpu_freq := 600000\<rparr>\<rparr>"

lemma cpu_state_ok: "cpu_ok cpu_state" "alive cpu_state"
  by (simp_all add: cpu_state_def cpu_ok_def book_wf_def boot_def alive_def is_int32_def INT_MAX_def INT_MIN_def)

text \<open>
  C26: A granted request for a frequency bound is entered, at most one per process, and
  the value handed to the kernel is the least of the upper bounds on file (the greatest
  of the lower bounds): no stored request is violated.
\<close>

theorem set_frequency_writes_extreme:
  assumes "cpu_ok s" "alive s" "2 \<le> argc" "argv_at argv 0 = Some a" "argv_at argv 1 = Some b"
  shows "(result (set_max_frequency_action E argc argv) s = 0 \<longrightarrow>
     (let t = exec (set_max_frequency_action E argc argv) s; es = max_cpu_freq_list (cpu t) in
      \<lparr>cf_pid = atoi a, cf_freq = atoi b\<rparr> \<in> set es \<and> distinct (map cf_pid es) \<and>
      hd (trace t) = OEM (Put OEM_scaling_max_freq (Min (cf_freq ` set es))))) \<and>
    (result (set_min_frequency_action E argc argv) s = 0 \<longrightarrow>
     (let t = exec (set_min_frequency_action E argc argv) s; es = min_cpu_freq_list (cpu t) in
      \<lparr>cf_pid = atoi a, cf_freq = atoi b\<rparr> \<in> set es \<and> distinct (map cf_pid es) \<and>
      hd (trace t) = OEM (Put OEM_scaling_min_freq (Max (cf_freq ` set es)))))"
  using set_max_enforces [OF assms] set_min_enforces [OF assms] by (simp add: Let_def)

lemma set_frequency_writes_extreme_witness:
  "hd (trace (exec (set_max_frequency_action cpu_env 2 [Some ''12'', Some ''900000'']) cpu_state)) =
     OEM (Put OEM_scaling_max_freq 600000) \<and>
   hd (trace (exec (set_min_frequency_action cpu_env 2 [Some ''12'', Some ''900000'']) cpu_state)) =
     OEM (Put OEM_scaling_min_freq 900000)"
proof -
  have a: "atoi ''12'' = 12" "atoi ''900000'' = 900000" by code_simp+
  have "result (set_max_frequency_action cpu_env 2 [Some ''12'', Some ''900000'']) cpu_state = 0"
    "max_cpu_freq_list (cpu (exec (set_max_frequency_action cpu_env 2 [Some ''12'', Some ''900000'']) cpu_state)) =
      [\<lparr>cf_pid = 12, cf_freq = 900000\<rparr>, \<lparr>cf_pid = 7, cf_freq = 600000\<rparr>]"
    "result (set_min_frequency_action cpu_env 2 [Some ''12'', Some ''900000'']) cpu_state = 0"
    "min_cpu_freq_list (cpu (exec (set_min_frequency_action cpu_env 2 [Some ''12'', Some ''900000'']) cpu_state)) =
      [\<lparr>cf_pid = 12, cf_freq = 900000\<rparr>]"
    by (simp_all add: cpu_action_defs cpu_env_def cpu_state_def boot_def alive_def log_call_def a argv_at_def)
  then show ?thesis
    using set_frequency_writes_extreme [OF cpu_state_ok, of 2 "[Some ''12'', Some ''900000'']" "''12''" "''900000''" cpu_env]
    by (simp add: argv_at_def)
qed

text \<open>
  C27: After a release the process has no entry left, and the kernel gets the extreme one
  of the requests that remain, or the limit read from the hardware when none does.
\<close>

theorem release_frequency_restores:
  assumes "cpu_ok s" "alive s" "1 \<le> argc" "argv_at argv 0 = Some a"
  shows "(let t = exec (release_max_frequency_action E argc argv) s; es = max_cpu_freq_list (cpu t) in
      atoi a \<notin> cf_pid ` set es \<and>
      hd (trace t) = OEM (Put OEM_scaling_max_freq
        (if \<forall>e \<in> set es. cf_freq e = INT_MAX then max_cpu_freq_limit (cpu t) else Min (cf_freq ` set es)))) \<and>
    (let t = exec (release_min_frequency_action E argc argv) s; es = min_cpu_freq_list (cpu t) in
      atoi a \<notin> cf_pid ` set es \<and>
      hd (trace t) = OEM (Put OEM_scaling_min_freq
        (if \<forall>e \<in> set es. cf_freq e = INT_MIN then min_cpu_freq_limit (cpu t) else Max (cf_freq ` set es))))"
  unfolding Let_def by (rule conjI [OF release_max_enforces [OF assms] release_min_enforces [OF assms]])

lemma release_frequency_restores_witness:
  "hd (trace (exec (release_max_frequency_action cpu_env 1 [Some ''7'']) cpu_state)) =
     OEM (Put OEM_scaling_max_freq 1400000)"
proof -
  have a: "atoi ''7'' = 7" by code_simp
  have "max_cpu_freq_list (cpu (exec (release_max_frequency_action cpu_env 1 [Some ''7'']) cpu_state)) = []"
    "max_cpu_freq_limit (cpu (exec (release_max_frequency_action cpu_env 1 [Some ''7'']) cpu_state)) = 1400000"
    by (simp_all add: cpu_action_defs cpu_env_def cpu_state_def boot_def alive_def log_call_def a argv_at_def)
  then show ?thesis
    using release_frequency_restores [OF cpu_state_ok, of 1 "[Some ''7'']" "''7''" cpu_env]
    by (simp add: argv_at_def Let_def)
qed

text \<open>
  When power saving is switched off and no other process has asked for an upper
  bound, the system-mode callback hands \<open>INT_MAX\<close> to the kernel, where the callback of
  the CPU option and the release action hand over the hardware limit: it compares with
  the neutral value of the other direction.
\<close>

theorem power_saving_off_writes_INT_MAX:
  assumes "cpu_ok s" "alive s" "key \<noteq> 1"
    and "\<forall>e \<in> set (max_cpu_freq_list (cpu s)). cf_pid e = e_ret E (trace s) (OS Getpid)"
  shows "hd (trace (exec (power_saving_cb E key) s)) = OEM (Put OEM_scaling_max_freq INT_MAX)"
proof -
  define s1 where "s1 = log_call (OS Getpid) s"
  define pid where "pid = e_ret E (trace s) (OS Getpid)"
  define t where "t = exec (remove_entry_from_max_cpu_freq_list E pid) s1"
  have s1: "alive s1" "distinct (map cf_pid (max_cpu_freq_list (cpu s1)))"
    using assms(1,2) by (simp_all add: s1_def cpu_ok_distinct)
  have "kept_entries E pid (max_cpu_freq_list (cpu s)) h = []" for h
    using kept_subset [of E pid "max_cpu_freq_list (cpu s)" h] assms(4)
    unfolding pid_def [symmetric] by (cases "kept_entries E pid (max_cpu_freq_list (cpu s)) h") auto
  then have "alive t" "cur_max_cpu_freq (cpu t) = INT_MAX"
    using max_book.removes [OF s1, of E pid] by (simp_all add: t_def s1_def tightest_def)
  then show ?thesis
    using assms(3) by (simp add: power_saving_cb_def s1_def [symmetric] pid_def [symmetric]
        t_def [symmetric] INT_MAX_def INT_MIN_def)
qed

lemma power_saving_off_writes_INT_MAX_witness:
  "hd (trace (exec (power_saving_cb cpu_env 0) boot)) = OEM (Put OEM_scaling_max_freq INT_MAX)"
  by (rule power_saving_off_writes_INT_MAX) (simp_all add: cpu_ok_def book_wf_def boot_def alive_def)

end
