(* ===== verification/SS_Noti.thy ===== *)
theory SS_Noti
  imports SS_Invariant
begin

text \<open>
  \<open>ss_noti.c\<close>, \<open>ss_device_plugin.c\<close>, and the loop around \<open>pm_lock_state\<close> and
  \<open>pm_unlock_state\<close> that several handlers contain.
\<close>

section \<open>ss_noti.c\<close>

definition ss_noti_send :: "env \<Rightarrow> string \<Rightarrow> (ss, int) state" where
  "ss_noti_send E filename = call E (HEYNOTI (Publish filename))"

definition ss_noti_init :: "env \<Rightarrow> (ss, int) state" where
  "ss_noti_init E = do {
     fd \<leftarrow> call E (HEYNOTI Noti_init);
     set_dev (\<lambda>d. d\<lparr>noti_fd := fd\<rparr>);
     if fd < 0 then return (-1)
     else do {
       r \<leftarrow> call E (HEYNOTI (Attach_handler fd));
       return (if r < 0 then -1 else 0)
     }
   }"

definition ss_noti_add :: "env \<Rightarrow> string \<Rightarrow> (ss, int) state" where
  "ss_noti_add E noti = do {
     fd \<leftarrow> getv (\<lambda>s. noti_fd (dev s));
     if fd < 0 then return (-1) else call E (HEYNOTI (Subscribe fd noti))
   }"

text \<open>The pair of calls that publishes the event of a given name.\<close>

definition send_named :: "env \<Rightarrow> string \<Rightarrow> (ss, unit) state" where
  "send_named E name = do {
     noti_name \<leftarrow> call_str E (HEYNOTI (Get_snoti_name name));
     ss_noti_send E (str_or_empty noti_name);
     return ()
   }"

section \<open>ss_device_plugin.c\<close>

definition DEVMAN_PLUGIN_PATH :: string where
  "DEVMAN_PLUGIN_PATH = ''/usr/lib/libslp_devman_plugin.so''"

text \<open>\<open>dlerror\<close> is taken to report the failure of \<open>dlsym\<close>, a nonzero value.\<close>

definition ss_devman_plugin_init :: "env \<Rightarrow> (ss, int) state" where
  "ss_devman_plugin_init E = do {
     handle \<leftarrow> call E (DL (Dlopen DEVMAN_PLUGIN_PATH));
     set_dev (\<lambda>d. d\<lparr>dlopen_handle := handle\<rparr>);
     if handle = 0 then return (-1)
     else do {
       get_interface \<leftarrow> call E (DL (Dlsym DEVMAN_PLUGIN_PATH ''OEM_sys_get_devman_plugin_interface''));
       error \<leftarrow> call E (DL Dlerror);
       if error \<noteq> 0 then do { call E (DL Dlclose); return (-1) }
       else do {
         plugin_intf \<leftarrow> call E (DL Plugin_interface);
         if plugin_intf = 0 then do { call E (DL Dlclose); return (-1) }
         else return 0
       }
     }
   }"

definition ss_devman_plugin_fini :: "env \<Rightarrow> (ss, int) state" where
  "ss_devman_plugin_fini E = do {
     handle \<leftarrow> getv (\<lambda>s. dlopen_handle (dev s));
     (if handle \<noteq> 0 then do { call E (DL Dlclose); return () } else return ());
     return 0
   }"

section \<open>Retried power-manager calls\<close>

text \<open>\<open>while (i < RETRY && pm_..._state(...) == -1) { i++; sleep(1); }\<close>\<close>

fun pm_retry :: "env \<Rightarrow> pm_call \<Rightarrow> nat \<Rightarrow> (ss, unit) state" where
  "pm_retry E c 0 = return ()"
| "pm_retry E c (Suc n) = do {
     r \<leftarrow> call E (PM c);
     if r = -1 then do { call E (OS (Sleep 1)); pm_retry E c n } else return ()
   }"

definition RETRY :: nat where "RETRY = 3"

section \<open>Frames\<close>

lemma frames_noti [frames]:
  "off_log f \<Longrightarrow> frame f (ss_noti_send E n)" "off_log f \<Longrightarrow> frame f (send_named E n)"
  "off_log f \<Longrightarrow> frame f (ss_noti_add E n)"
  by (simp_all add: frame_def off_log_def ss_noti_send_def send_named_def ss_noti_add_def)

lemma frame_pm_retry [frames]: "off_log f \<Longrightarrow> frame f (pm_retry E c n)"
  by (induction n) (simp_all add: frame_def off_log_def)

lemma frames_noti_init [frames]:
  "frame queue_part (ss_noti_init E)" "frame queue_part (ss_devman_plugin_init E)"
  "frame queue_part (ss_devman_plugin_fini E)"
  unfolding ss_noti_init_def ss_devman_plugin_init_def ss_devman_plugin_fini_def
  by (intro frames)+

lemma stops_pm_retry [stops]: "obeys_halt (pm_retry E c n)"
  by (induction n) (auto intro!: stops)

lemma stops_noti [stops]:
  "obeys_halt (ss_noti_send E n)" "obeys_halt (send_named E n)" "obeys_halt (ss_noti_init E)"
  "obeys_halt (ss_noti_add E n)" "obeys_halt (ss_devman_plugin_init E)"
  "obeys_halt (ss_devman_plugin_fini E)"
  unfolding ss_noti_send_def send_named_def ss_noti_init_def ss_noti_add_def
    ss_devman_plugin_init_def ss_devman_plugin_fini_def
  by (intro stops)+

context callback_safe
begin

lemma pres_noti [presI]: "pres I (send_named E n)" "pres I (ss_noti_send E n)"
  "pres I (pm_retry E c k)" "pres I (ss_noti_add E n)"
  "pres I (ss_noti_init E)" "pres I (ss_devman_plugin_init E)"
  by (auto intro!: pres_light frames stops)

end

end
