(* ===== verification/SS_Log.thy ===== *)
theory SS_Log
  imports SS_State
begin

text \<open>
  \<open>ss_log.h\<close> and \<open>ss_log.c\<close>: what becomes of a logging macro in a build.  The text that
  is written is not part of the state of the daemon; whether the arguments of a macro are
  evaluated is, because one of them fails an assertion (\<open>print_lowmem_state\<close>).
\<close>

section \<open>Builds\<close>

text \<open>The preprocessor symbols \<open>ss_log.h\<close> tests.\<close>

record build =
  with_debug :: bool
  with_dlog :: bool
  with_syslog :: bool

text \<open>What \<open>CMakeLists.txt\<close> defines: \<open>-DDEBUG -DENABLE_DLOG_OUT\<close>.\<close>

definition shipped :: build where
  "shipped = \<lparr>with_debug = True, with_dlog = True, with_syslog = False\<rparr>"

datatype log_prio = LOG_DEBUG | LOG_INFO | LOG_ERR

datatype log_sink = To_dlog | To_syslog | To_stdout | To_stderr

datatype log_place = No_place | Function_line | File_line

text \<open>Where a macro writes, with which priority and prefix; None when it expands to nothing.\<close>

type_synonym log_out = "(log_sink \<times> log_prio \<times> log_place) option"

section \<open>The functions the macros expand to\<close>

definition system_log :: "build \<Rightarrow> log_sink" where
  "system_log b = (if with_dlog b then To_dlog else To_syslog)"

definition console :: "log_prio \<Rightarrow> log_sink" where
  "console prio = (if prio = LOG_ERR then To_stderr else To_stdout)"

definition LOG_always :: "build \<Rightarrow> log_prio \<Rightarrow> log_out" where
  "LOG_always b prio = Some (system_log b, prio, No_place)"

definition LOGD_always :: "build \<Rightarrow> log_prio \<Rightarrow> log_out" where
  "LOGD_always b prio = Some (system_log b, prio, Function_line)"

definition PRT_always :: "log_prio \<Rightarrow> log_out" where
  "PRT_always prio = Some (console prio, prio, No_place)"

definition PRTD_always :: "log_prio \<Rightarrow> log_out" where
  "PRTD_always prio = Some (console prio, prio, File_line)"

definition NOUT :: log_out where "NOUT = None"

text \<open>The names with one underscore choose between them.\<close>

definition LOGD1 :: "build \<Rightarrow> log_prio \<Rightarrow> log_out" where
  "LOGD1 b prio = (if with_debug b then LOGD_always b prio else NOUT)"

definition LOG1 :: "build \<Rightarrow> log_prio \<Rightarrow> log_out" where
  "LOG1 b prio = (if with_debug b then LOGD_always b prio else LOG_always b prio)"

definition PRTD1 :: "build \<Rightarrow> log_prio \<Rightarrow> log_out" where
  "PRTD1 b prio = (if with_debug b then PRTD_always prio else NOUT)"

definition PRT1 :: "build \<Rightarrow> log_prio \<Rightarrow> log_out" where
  "PRT1 b prio = (if with_debug b then PRTD_always prio else PRT_always prio)"

text \<open>The three trace macros of a debug build are the same call.\<close>

definition PRT_TRACE1 :: "build \<Rightarrow> log_prio \<Rightarrow> log_out" where
  "PRT_TRACE1 b prio = (if with_debug b then LOGD_always b prio else NOUT)"

section \<open>The macros of the program\<close>

datatype log_macro =
    PRT_INFO | PRT_ERR | PRT_DBG | PRT_TRACE | PRT_TRACE_ERR | PRT_TRACE_EM | INFO | ERR | DBG

text \<open>\<open>INFO\<close>, \<open>ERR\<close> and \<open>DBG\<close> go to the system log in some builds and to the console in others.\<close>

fun expand :: "build \<Rightarrow> log_macro \<Rightarrow> log_out" where
  "expand b PRT_INFO = PRT1 b LOG_INFO"
| "expand b PRT_ERR = PRT1 b LOG_ERR"
| "expand b PRT_DBG = PRTD1 b LOG_DEBUG"
| "expand b PRT_TRACE = PRT_TRACE1 b LOG_DEBUG"
| "expand b PRT_TRACE_ERR = PRT_TRACE1 b LOG_ERR"
| "expand b PRT_TRACE_EM = PRT_TRACE1 b LOG_DEBUG"
| "expand b INFO =
     (if with_syslog b then LOG1 b LOG_INFO
      else if with_dlog b then LOG_always b LOG_INFO else PRT1 b LOG_INFO)"
| "expand b ERR =
     (if with_syslog b then LOG1 b LOG_ERR
      else if with_dlog b then LOG_always b LOG_ERR else PRT1 b LOG_ERR)"
| "expand b DBG =
     (if with_syslog b then LOGD1 b LOG_DEBUG
      else if with_dlog b then LOG_always b LOG_DEBUG else PRTD1 b LOG_DEBUG)"

text \<open>The arguments of a macro that expands to nothing are not evaluated.\<close>

definition emit :: "build \<Rightarrow> log_macro \<Rightarrow> (ss, unit) state \<Rightarrow> (ss, unit) state" where
  "emit b m args = (if expand b m = None then return () else args)"

lemmas log_defs = system_log_def console_def LOG_always_def LOGD_always_def PRT_always_def
  PRTD_always_def NOUT_def LOGD1_def LOG1_def PRTD1_def PRT1_def PRT_TRACE1_def

lemma shipped_simps [simp]:
  "with_debug shipped" "with_dlog shipped" "\<not> with_syslog shipped"
  by (simp_all add: shipped_def)

text \<open>The build that is shipped evaluates the arguments of every macro.\<close>

lemma emit_shipped [simp]: "emit shipped m args = args"
  by (cases m) (simp_all add: emit_def log_defs)

text \<open>Only the debug and trace macros can fall silent, and only without \<open>DEBUG\<close>.\<close>

lemma silent_iff:
  "expand b m = None \<longleftrightarrow> \<not> with_debug b \<and>
     (m \<in> {PRT_DBG, PRT_TRACE, PRT_TRACE_ERR, PRT_TRACE_EM} \<or> m = DBG \<and> (with_dlog b \<longrightarrow> with_syslog b))"
  by (cases m) (auto simp: log_defs)

text \<open>An error goes where errors go, whatever the build: never to the standard output.\<close>

lemma errors_written:
  "\<exists>sink place. expand b PRT_ERR = Some (sink, LOG_ERR, place) \<and> sink \<noteq> To_stdout"
  "\<exists>sink place. expand b ERR = Some (sink, LOG_ERR, place) \<and> sink \<noteq> To_stdout"
  by (auto simp: log_defs)

section \<open>Depth of calls\<close>

text \<open>
  The compiler calls the two hooks of \<open>ss_log.c\<close> at the beginning and at the end of every
  function (\<open>-finstrument-functions\<close>).  An activation is the list of the activations of the
  functions it calls.
\<close>

definition initial_trace_depth :: int where "initial_trace_depth = -2"

definition cyg_profile_func_enter :: "int \<Rightarrow> int" where
  "cyg_profile_func_enter g_trace_depth = g_trace_depth + 1"

definition cyg_profile_func_exit :: "int \<Rightarrow> int" where
  "cyg_profile_func_exit g_trace_depth = g_trace_depth - 1"

datatype activation = Activation "activation list"

fun profiled :: "activation \<Rightarrow> int \<Rightarrow> int" where
  "profiled (Activation as) d = cyg_profile_func_exit (fold profiled as (cyg_profile_func_enter d))"

lemma profiled_balanced [simp]: "profiled a d = d"
proof (induction a arbitrary: d)
  case (Activation as)
  then have "fold profiled as x = x" for x by (induction as arbitrary: x) simp_all
  then show ?case by (simp add: cyg_profile_func_enter_def cyg_profile_func_exit_def)
qed

text \<open>
  So the counter is two less than the number of functions that have begun and not ended; the
  list holds, for each of them, the calls it has completed.
\<close>

fun depth_inside :: "activation list list \<Rightarrow> int \<Rightarrow> int" where
  "depth_inside [] d = d"
| "depth_inside (as # ass) d = depth_inside ass (fold profiled as (cyg_profile_func_enter d))"

lemma depth_inside: "depth_inside ass initial_trace_depth = int (length ass) - 2"
proof -
  have "fold profiled as x = x" for as x by (induction as) simp_all
  then have "depth_inside ass d = d + int (length ass)" for d
    by (induction ass arbitrary: d) (simp_all add: cyg_profile_func_enter_def)
  then show ?thesis by (simp add: initial_trace_depth_def)
qed

end
