(* ===== verification/SS_Lowmem.thy ===== *)
theory SS_Lowmem
  imports SS_Invariant SS_Noti SS_Log
begin

text \<open>
  \<open>ss_lowmem_handler.c\<close>: the kernel's memory notifier.  A notification is looked up
  in the table \<open>lpe\<close> with the state before it; the actions publish the memory state,
  free shared memory nobody is attached to, and queue the \<open>lowmem\<close> action.  In the
  critical state a timer repeats the action.  States and times are 32-bit unsigned words.
\<close>

section \<open>The table\<close>

definition MEMNOTIFY_NORMAL :: "32 word" where "MEMNOTIFY_NORMAL = 0x0000"
definition MEMNOTIFY_LOW :: "32 word" where "MEMNOTIFY_LOW = 0xfaac"
definition MEMNOTIFY_CRITICAL :: "32 word" where "MEMNOTIFY_CRITICAL = 0xdead"
definition MEMNOTIFY_REBOOT :: "32 word" where "MEMNOTIFY_REBOOT = 0xb00f"
definition MEM_THRESHOLD_LV1 :: int where "MEM_THRESHOLD_LV1 = 60"
definition MEM_THRESHOLD_LV2 :: int where "MEM_THRESHOLD_LV2 = 40"
definition OOM_TIMER_INTERVAL :: int where "OOM_TIMER_INTERVAL = 5"

lemmas memnotify_defs = MEMNOTIFY_NORMAL_def MEMNOTIFY_LOW_def MEMNOTIFY_CRITICAL_def
  MEMNOTIFY_REBOOT_def

definition lowmem_lpe :: "(32 word \<times> 32 word \<times> mem_act) list" where
  "lowmem_lpe =
    [(MEMNOTIFY_NORMAL, MEMNOTIFY_LOW, Memory_low_act),
     (MEMNOTIFY_NORMAL, MEMNOTIFY_CRITICAL, Memory_oom_act),
     (MEMNOTIFY_LOW, MEMNOTIFY_CRITICAL, Memory_oom_act),
     (MEMNOTIFY_CRITICAL, MEMNOTIFY_CRITICAL, Memory_oom_act),
     (MEMNOTIFY_LOW, MEMNOTIFY_NORMAL, Memory_normal_act),
     (MEMNOTIFY_CRITICAL, MEMNOTIFY_NORMAL, Memory_normal_act)]"

definition mem_lpe_find :: "32 word \<Rightarrow> 32 word \<Rightarrow> mem_act option" where
  "mem_lpe_find cur new =
     map_option (\<lambda>(c, n, a). a) (find (\<lambda>(c, n, a). cur = c \<and> new = n) lowmem_lpe)"

section \<open>The actions\<close>

definition remove_shm :: "env \<Rightarrow> (ss, int) state" where
  "remove_shm E = do {
     maxid \<leftarrow> call E (IPC Shm_info);
     if maxid < 0 then return (-1)
     else do {
       for_each (\<lambda>id. do {
         junk \<leftarrow> get_junk E;
         (shmid, nattch) \<leftarrow> call_out E (IPC (Shm_stat id)) junk;
         if shmid < 0 then return ()
         else if nattch = 0 then do { call E (IPC (Shm_rmid shmid)); return () }
         else return ()
       }) [0..maxid];
       return 0
     }
   }"

definition known_mem_state :: "32 word \<Rightarrow> bool" where
  "known_mem_state st \<longleftrightarrow>
     st = MEMNOTIFY_NORMAL \<or> st = MEMNOTIFY_LOW \<or> st = MEMNOTIFY_CRITICAL \<or> st = MEMNOTIFY_REBOOT"

text \<open>\<open>convert_to_str\<close> fails an assertion on any other state.\<close>

definition convert_to_str :: "32 word \<Rightarrow> (ss, unit) state" where
  "convert_to_str mem_state =
     (if known_mem_state mem_state then return () else halt AssertFailed)"

text \<open>It is called in the arguments of a trace macro, so only in a build that traces.\<close>

definition print_lowmem_state :: "build \<Rightarrow> 32 word \<Rightarrow> (ss, unit) state" where
  "print_lowmem_state b mem_state = do {
     cur \<leftarrow> getv (\<lambda>s. cur_mem_state (mem s));
     emit b PRT_TRACE (do { convert_to_str cur; convert_to_str mem_state })
   }"

definition memory_low_act :: "env \<Rightarrow> (ss, int) state" where
  "memory_low_act E = do {
     remove_shm E;
     send_named E ''RES_CLEANUP'';
     call E (VCONF (Set_int VK_LOW_MEMORY (konst E K_LOW_MEMORY_SOFT_WARNING)));
     ss_action_entry_call_internal E (Some PREDEF_LOWMEM) 1 [Some LOW_MEM_ACT];
     return 0
   }"

text \<open>The first half of \<open>memory_oom_act\<close>, which runs at most once in 15 seconds.\<close>

definition oom_cleanup :: "env \<Rightarrow> (ss, unit) state" where
  "oom_cleanup E = do {
     t \<leftarrow> call E (OS Time);
     let cur_time = word_of_int t;
     old \<leftarrow> getv (\<lambda>s. oom_delete_sm_time (mem s));
     (if cur_time - old > 15 then do {
        remove_shm E;
        set_mem (\<lambda>m. m\<lparr>oom_delete_sm_time := cur_time\<rparr>);
        send_named E ''RES_CLEANUP''
      } else return ())
   }"

definition memory_oom_act :: "env \<Rightarrow> (ss, int) state" where
  "memory_oom_act E = do {
     oom_cleanup E;
     call E (VCONF (Set_int VK_LOW_MEMORY (konst E K_LOW_MEMORY_HARD_WARNING)));
     ss_action_entry_call_internal E (Some PREDEF_LOWMEM) 1 [Some OOM_MEM_ACT];
     return 1
   }"

definition memory_normal_act :: "env \<Rightarrow> (ss, int) state" where
  "memory_normal_act E = do {
     call E (VCONF (Set_int VK_LOW_MEMORY (konst E K_LOW_MEMORY_NORMAL)));
     return 0
   }"

fun mem_action :: "env \<Rightarrow> mem_act \<Rightarrow> (ss, int) state" where
  "mem_action E Memory_low_act = memory_low_act E"
| "mem_action E Memory_oom_act = memory_oom_act E"
| "mem_action E Memory_normal_act = memory_normal_act E"

section \<open>The callback\<close>

definition stop_oom_timer :: "env \<Rightarrow> (ss, unit) state" where
  "stop_oom_timer E = do {
     t \<leftarrow> getv (\<lambda>s. oom_timer (mem s));
     (if t \<noteq> 0 then do {
        call E (ECORE (Timer_del t));
        set_mem (\<lambda>m. m\<lparr>oom_timer := 0\<rparr>)
      } else return ())
   }"

definition lowmem_process :: "env \<Rightarrow> 32 word \<Rightarrow> (ss, int) state" where
  "lowmem_process E mem_state = do {
     cur \<leftarrow> getv (\<lambda>s. cur_mem_state (mem s));
     case mem_lpe_find cur mem_state of
       None \<Rightarrow> return 0
     | Some a \<Rightarrow> do {
         stop_oom_timer E;
         mem_action E a;
         (if mem_state = MEMNOTIFY_CRITICAL then do {
            t \<leftarrow> call E (ECORE (Timer_add OOM_TIMER_INTERVAL (TCB_lowmem a)));
            set_mem (\<lambda>m. m\<lparr>oom_timer := t\<rparr>)
          } else return ());
         return 0
       }
   }"

definition lowmem_read :: "env \<Rightarrow> int \<Rightarrow> (ss, 32 word) state" where
  "lowmem_read E fd = do {
     junk \<leftarrow> get_junk E;
     (_, v) \<leftarrow> call_out E (FS (Read fd)) junk;
     return (word_of_int v)
   }"

text \<open>The callback in any build, and in the one that is shipped.\<close>

definition lowmem_cb_in :: "build \<Rightarrow> env \<Rightarrow> (ss, int) state" where
  "lowmem_cb_in b E = do {
     active \<leftarrow> call E (ECORE Fd_handler_active);
     if active = 0 then return 1
     else do {
       fd \<leftarrow> getv (\<lambda>s. lowmem_fd (mem s));
       mem_state \<leftarrow> lowmem_read E fd;
       print_lowmem_state b mem_state;
       lowmem_process E mem_state;
       set_mem (\<lambda>m. m\<lparr>cur_mem_state := mem_state\<rparr>);
       return 1
     }
   }"

definition lowmem_cb :: "env \<Rightarrow> (ss, int) state" where
  "lowmem_cb E = lowmem_cb_in shipped E"

definition set_threshold :: "env \<Rightarrow> (ss, int) state" where
  "set_threshold E = do {
     r \<leftarrow> call E (OEM (Put OEM_memnotify_threshold_lv1 MEM_THRESHOLD_LV1));
     if 0 > r then return (-1)
     else do {
       r2 \<leftarrow> call E (OEM (Put OEM_memnotify_threshold_lv2 MEM_THRESHOLD_LV2));
       return (if 0 > r2 then -1 else 0)
     }
   }"

definition ss_lowmem_init :: "env \<Rightarrow> (ss, int) state" where
  "ss_lowmem_init E = do {
     node \<leftarrow> peek_str E (OEM (Get OEM_memnotify_node));
     r \<leftarrow> call E (OEM (Get OEM_memnotify_node));
     if 0 > r then return (-1)
     else do {
       fd \<leftarrow> call E (FS (Open (str_or_empty node)));
       set_mem (\<lambda>m. m\<lparr>lowmem_fd := fd\<rparr>);
       if fd < 0 then return (-1)
       else do {
         set_mem (\<lambda>m. m\<lparr>oom_timer := 0\<rparr>);
         call E (ECORE (Fd_handler_add fd));
         r2 \<leftarrow> set_threshold E;
         return (if r2 < 0 then -1 else 0)
       }
     }
   }"

text \<open>The timer callback that the critical state leaves running is \<open>memory_oom_act\<close>.\<close>

definition lowmem_timer_cb :: "env \<Rightarrow> mem_act \<Rightarrow> (ss, int) state" where
  "lowmem_timer_cb E a = mem_action E a"

section \<open>Frames\<close>

lemma frames_remove_shm [frames]: "off_log f \<Longrightarrow> frame f (remove_shm E)"
  unfolding remove_shm_def
  by (intro frame_bind frame_if frame_return frame_for_each frame_case_prod frame_calls frame_reads)

lemma stops_remove_shm [stops]: "obeys_halt (remove_shm E)"
  unfolding remove_shm_def by (intro stops)

lemmas lowmem_defs = lowmem_process_def stop_oom_timer_def lowmem_read_def print_lowmem_state_def emit_shipped
  convert_to_str_def

lemma mem_action_stops [stops]: "obeys_halt (mem_action E a)"
  by (cases a) (simp_all add: memory_low_act_def memory_oom_act_def oom_cleanup_def Let_def memory_normal_act_def stops)

lemma stops_lowmem [stops]: "obeys_halt (lowmem_cb E)" "obeys_halt (ss_lowmem_init E)"
  "obeys_halt (lowmem_timer_cb E a)" "obeys_halt (lowmem_process E st)"
  unfolding lowmem_cb_def lowmem_cb_in_def ss_lowmem_init_def set_threshold_def lowmem_timer_cb_def lowmem_defs
  by (intro stops)+

context callback_safe
begin

lemma pres_remove_shm [presI]: "pres I (remove_shm E)"
  unfolding remove_shm_def by (intro presI)

lemma mem_action_pres [presI]: "pres I (mem_action E a)"
  by (cases a) (simp_all add: memory_low_act_def memory_oom_act_def oom_cleanup_def Let_def memory_normal_act_def presI)

lemma pres_lowmem [presI]: "pres I (lowmem_cb E)" "pres I (ss_lowmem_init E)"
  "pres I (lowmem_timer_cb E a)"
  unfolding lowmem_cb_def lowmem_cb_in_def ss_lowmem_init_def set_threshold_def lowmem_timer_cb_def lowmem_defs
  by (intro presI)+

end

section \<open>Effects\<close>

fun mem_alert :: "mem_act \<Rightarrow> string option" where
  "mem_alert Memory_low_act = Some LOW_MEM_ACT"
| "mem_alert Memory_oom_act = Some OOM_MEM_ACT"
| "mem_alert Memory_normal_act = None"

definition mem_posts :: "mem_act option \<Rightarrow> queue_view \<Rightarrow> queue_view" where
  "mem_posts a q =
     (case a of None \<Rightarrow> q
      | Some b \<Rightarrow> (case mem_alert b of None \<Rightarrow> q | Some x \<Rightarrow> post_action PREDEF_LOWMEM 1 [Some x] q))"

text \<open>Everything a notification may not touch but the queue.\<close>

definition mem_same :: "ss \<Rightarrow> ss \<Rightarrow> bool" where
  "mem_same s t \<longleftrightarrow> alive t = alive s \<and> oom_timer (mem t) = oom_timer (mem s) \<and>
     cur_mem_state (mem t) = cur_mem_state (mem s) \<and> queue_part t = queue_part s"

lemma mem_same_log [simp]: "mem_same s (log_call e t) = mem_same s t" "mem_same s s"
  by (simp_all add: mem_same_def queue_part_def)

lemma mem_same_trans: "mem_same s t \<Longrightarrow> mem_same t u \<Longrightarrow> mem_same s u"
  by (simp add: mem_same_def)

lemma mem_same_remove_shm: "mem_same s (exec (remove_shm E) s)"
proof -
  have "off_log alive" "off_log queue_part" "off_log mem" by (simp_all add: frames)
  then show ?thesis
    using frameD [OF frames_remove_shm, of alive E s] frameD [OF frames_remove_shm, of queue_part E s]
      frameD [OF frames_remove_shm, of mem E s]
    by (simp add: mem_same_def)
qed

lemma mem_same_send: "mem_same s (exec (send_named E n) s)"
  by (simp add: send_named_def ss_noti_send_def)

lemma mem_same_cleanup: "mem_same s (exec (oom_cleanup E) s)"
proof -
  define now where "now = (word_of_int (e_ret E (trace s) (OS Time)) :: 32 word)"
  define r where "r = exec (remove_shm E) (log_call (OS Time) s)"
  have "mem_same s r"
    using mem_same_remove_shm [of "log_call (OS Time) s" E] unfolding r_def
    by (simp add: mem_same_def queue_part_def)
  then have "mem_same s (exec (set_mem (\<lambda>m. m\<lparr>oom_delete_sm_time := now\<rparr>)) r)"
    by (simp add: mem_same_def queue_part_def)
  then have "mem_same s (exec (send_named E ''RES_CLEANUP'') (exec (set_mem (\<lambda>m. m\<lparr>oom_delete_sm_time := now\<rparr>)) r))"
    using mem_same_trans [OF _ mem_same_send] by blast
  then show ?thesis
    by (simp add: oom_cleanup_def Let_def now_def [symmetric] r_def [symmetric])
qed

lemma mem_same_call_internal:
  assumes "mem_same s s1" "alive s" "malloc_ok E"
  shows "alive (exec (ss_action_entry_call_internal E (Some t) 1 args) s1) \<and>
    oom_timer (mem (exec (ss_action_entry_call_internal E (Some t) 1 args) s1)) = oom_timer (mem s) \<and>
    cur_mem_state (mem (exec (ss_action_entry_call_internal E (Some t) 1 args) s1)) = cur_mem_state (mem s) \<and>
    queue_part (exec (ss_action_entry_call_internal E (Some t) 1 args) s1) = post_action t 1 args (queue_part s)"
  using call_internal_posts [OF _ assms(3), of s1 1 t args] assms(1,2)
  by (simp add: mem_same_def SYSMAN_MAXARG_def)

lemma mem_action_effect:
  fixes E s
  assumes "alive s" "malloc_ok E"
  defines "t \<equiv> \<lambda>a. exec (mem_action E a) s"
  shows "alive (t a) \<and> oom_timer (mem (t a)) = oom_timer (mem s) \<and>
    cur_mem_state (mem (t a)) = cur_mem_state (mem s) \<and>
    queue_part (t a) = mem_posts (Some a) (queue_part s)"
proof (cases a)
  case Memory_low_act
  let ?s1 = "log_call (VCONF (Set_int VK_LOW_MEMORY (konst E K_LOW_MEMORY_SOFT_WARNING)))
      (exec (send_named E ''RES_CLEANUP'') (exec (remove_shm E) s))"
  have "mem_same s ?s1"
    using mem_same_trans [OF mem_same_remove_shm mem_same_send] by simp
  from mem_same_call_internal [OF this assms(1,2)] Memory_low_act show ?thesis
    by (simp add: t_def memory_low_act_def mem_posts_def)
next
  case Memory_oom_act
  have "mem_same s (log_call (VCONF (Set_int VK_LOW_MEMORY (konst E K_LOW_MEMORY_HARD_WARNING)))
      (exec (oom_cleanup E) s))"
    using mem_same_cleanup by simp
  from mem_same_call_internal [OF this assms(1,2)] Memory_oom_act show ?thesis
    by (simp add: t_def memory_oom_act_def mem_posts_def)
next
  case Memory_normal_act
  then show ?thesis
    using assms(1) by (simp add: t_def memory_normal_act_def mem_posts_def queue_part_def)
qed

lemma lowmem_process_effect:
  assumes "alive s" "malloc_ok E"
  shows "\<exists>h. queue_part (exec (lowmem_process E st) s) =
      mem_posts (mem_lpe_find (cur_mem_state (mem s)) st) (queue_part s) \<and>
    alive (exec (lowmem_process E st) s) \<and>
    oom_timer (mem (exec (lowmem_process E st) s)) =
      (case mem_lpe_find (cur_mem_state (mem s)) st of
         None \<Rightarrow> oom_timer (mem s)
       | Some a \<Rightarrow> if st = MEMNOTIFY_CRITICAL
           then e_ret E h (ECORE (Timer_add OOM_TIMER_INTERVAL (TCB_lowmem a))) else 0)"
proof (cases "mem_lpe_find (cur_mem_state (mem s)) st")
  case None
  then show ?thesis using assms(1) by (simp add: lowmem_process_def mem_posts_def)
next
  case (Some a)
  define s1 where "s1 = exec (stop_oom_timer E) s"
  define s2 where "s2 = exec (mem_action E a) s1"
  have s1: "alive s1" "queue_part s1 = queue_part s" "oom_timer (mem s1) = 0"
    using assms(1) by (simp_all add: s1_def stop_oom_timer_def queue_part_def)
  then have s2: "alive s2" "queue_part s2 = mem_posts (Some a) (queue_part s)" "oom_timer (mem s2) = 0"
    using mem_action_effect [OF s1(1) assms(2), of a] by (simp_all add: s2_def)
  show ?thesis
    using Some s2 by (intro exI [of _ "trace s2"])
      (simp add: lowmem_process_def s1_def [symmetric] s2_def [symmetric] queue_part_def)
qed

section \<open>Properties\<close>

text \<open>What the callback does once it has read a known state.\<close>

lemma lowmem_cb_run:
  assumes "alive s" "e_ret E (trace s) (ECORE Fd_handler_active) \<noteq> 0"
    and "e_out E (ECORE Fd_handler_active # trace s) (FS (Read (lowmem_fd (mem s)))) = Some v"
    and "known_mem_state (cur_mem_state (mem s))"
  defines "s2 \<equiv> log_call (FS (Read (lowmem_fd (mem s)))) (log_call (ECORE Fd_handler_active) s)"
  shows "known_mem_state (word_of_int v) \<Longrightarrow> exec (lowmem_cb E) s =
      exec (set_mem (\<lambda>m. m\<lparr>cur_mem_state := word_of_int v\<rparr>)) (exec (lowmem_process E (word_of_int v)) s2)"
    and "\<not> known_mem_state (word_of_int v) \<Longrightarrow> exec (lowmem_cb E) s = s2\<lparr>halted := Some AssertFailed\<rparr>"
proof -
  have dead: "exec (lowmem_process E st) (s2\<lparr>halted := Some AssertFailed\<rparr>) = s2\<lparr>halted := Some AssertFailed\<rparr>" for st
    by (rule obeys_haltD [OF stops_lowmem(4)]) simp
  show "known_mem_state (word_of_int v) \<Longrightarrow> exec (lowmem_cb E) s =
      exec (set_mem (\<lambda>m. m\<lparr>cur_mem_state := word_of_int v\<rparr>)) (exec (lowmem_process E (word_of_int v)) s2)"
    using assms(1-4) by (simp add: lowmem_cb_def lowmem_cb_in_def lowmem_read_def print_lowmem_state_def convert_to_str_def s2_def)
  show "\<not> known_mem_state (word_of_int v) \<Longrightarrow> exec (lowmem_cb E) s = s2\<lparr>halted := Some AssertFailed\<rparr>"
    using assms(1-4) dead
    by (simp add: lowmem_cb_def lowmem_cb_in_def lowmem_read_def print_lowmem_state_def convert_to_str_def s2_def [symmetric])
      (simp add: s2_def)
qed

text \<open>
  C34: What a notice of an unknown state does depends on the build: in one with \<open>DEBUG\<close>, such as
  the one that is shipped, tracing it fails an assertion and ends the daemon; in any other
  it posts nothing and leaves the timer alone, and the unknown state is what the next
  notice is compared with.
\<close>

theorem unknown_notice_by_build:
  fixes b E s
  assumes "alive s" "e_ret E (trace s) (ECORE Fd_handler_active) \<noteq> 0"
    and "e_out E (ECORE Fd_handler_active # trace s) (FS (Read (lowmem_fd (mem s)))) = Some v"
    and "\<not> known_mem_state (word_of_int v)"
  defines "t \<equiv> exec (lowmem_cb_in b E) s"
  shows "(if with_debug b then halted t = Some AssertFailed
    else alive t \<and> queue_part t = queue_part s \<and> mem t = (mem s)\<lparr>cur_mem_state := word_of_int v\<rparr>)"
proof (cases "with_debug b")
  case True
  then have eval: "emit b PRT_TRACE m = m" for m by (simp add: emit_def log_defs)
  have dead: "\<not> alive w \<Longrightarrow> exec (lowmem_process E st) w = w" for w st
    by (rule obeys_haltD [OF stops_lowmem(4)])
  show ?thesis
    using assms(1-4) True unfolding t_def
    by (simp add: lowmem_cb_in_def lowmem_read_def print_lowmem_state_def eval convert_to_str_def dead)
next
  case False
  then have skip: "emit b PRT_TRACE m = return ()" for m by (simp add: emit_def log_defs)
  have "mem_lpe_find cur (word_of_int v) = None" for cur
    using assms(4) by (auto simp: mem_lpe_find_def lowmem_lpe_def known_mem_state_def)
  then show ?thesis
    using assms(1-3) False unfolding t_def
    by (simp add: lowmem_cb_in_def lowmem_read_def print_lowmem_state_def skip lowmem_process_def queue_part_def)
qed

lemma unknown_notice_by_build_witness:
  "halted (exec (lowmem_cb_in shipped (env1\<lparr>e_out := \<lambda>_ _. Some 1\<rparr>)) boot) = Some AssertFailed"
  using unknown_notice_by_build [of boot "env1\<lparr>e_out := \<lambda>_ _. Some 1\<rparr>" 1 shipped]
  by (simp add: known_mem_state_def memnotify_defs env1_def)

text \<open>The policy of the table: an alert on entering the low state from normal, and on every critical notice.\<close>

definition mem_alert_policy :: "32 word \<Rightarrow> 32 word \<Rightarrow> string option" where
  "mem_alert_policy cur new =
     (if new = MEMNOTIFY_CRITICAL \<and> cur \<in> {MEMNOTIFY_NORMAL, MEMNOTIFY_LOW, MEMNOTIFY_CRITICAL}
      then Some OOM_MEM_ACT
      else if new = MEMNOTIFY_LOW \<and> cur = MEMNOTIFY_NORMAL then Some LOW_MEM_ACT else None)"

lemma memnotify_distinct [simp]:
  "MEMNOTIFY_NORMAL \<noteq> MEMNOTIFY_LOW" "MEMNOTIFY_LOW \<noteq> MEMNOTIFY_NORMAL"
  "MEMNOTIFY_NORMAL \<noteq> MEMNOTIFY_CRITICAL" "MEMNOTIFY_CRITICAL \<noteq> MEMNOTIFY_NORMAL"
  "MEMNOTIFY_LOW \<noteq> MEMNOTIFY_CRITICAL" "MEMNOTIFY_CRITICAL \<noteq> MEMNOTIFY_LOW"
  by (simp_all add: memnotify_defs)

lemma mem_lpe_cases:
  "mem_lpe_find cur new =
     (if new = MEMNOTIFY_LOW \<and> cur = MEMNOTIFY_NORMAL then Some Memory_low_act
      else if new = MEMNOTIFY_CRITICAL \<and> cur \<in> {MEMNOTIFY_NORMAL, MEMNOTIFY_LOW, MEMNOTIFY_CRITICAL}
        then Some Memory_oom_act
      else if new = MEMNOTIFY_NORMAL \<and> cur \<in> {MEMNOTIFY_LOW, MEMNOTIFY_CRITICAL}
        then Some Memory_normal_act
      else None)"
  by (cases "new = MEMNOTIFY_LOW"; cases "new = MEMNOTIFY_CRITICAL"; cases "new = MEMNOTIFY_NORMAL";
      simp add: mem_lpe_find_def lowmem_lpe_def)

lemma mem_lpe_policy:
  "mem_posts (mem_lpe_find cur new) q =
     (case mem_alert_policy cur new of None \<Rightarrow> q | Some x \<Rightarrow> post_action PREDEF_LOWMEM 1 [Some x] q)"
  unfolding mem_lpe_cases mem_alert_policy_def mem_posts_def
  by (cases "new = MEMNOTIFY_LOW"; cases "new = MEMNOTIFY_CRITICAL") (simp_all del: post_action.simps)

definition mem_env :: "int \<Rightarrow> env" where
  "mem_env v = env1\<lparr>e_out := (\<lambda>_ c. if c = FS (Read 4) then Some v else None)\<rparr>"

definition mem_entry :: action_entry where
  "mem_entry = \<lparr>owner_pid = 1, ae_type = PREDEF_LOWMEM, ae_path = [],
     predefine_action = Fn_lowmem_def_predefine_action, ui_viewable = None, is_accessable = None\<rparr>"

definition mem_state_at :: "32 word \<Rightarrow> ss" where
  "mem_state_at st = boot\<lparr>predef_act_list := [mem_entry],
     mem := \<lparr>lowmem_fd = 4, cur_mem_state = st, oom_timer = 9, oom_delete_sm_time = 0\<rparr>\<rparr>"

lemma mem_env_ok:
  "malloc_ok (mem_env v)" "alive (mem_state_at st)" "lowmem_fd (mem (mem_state_at st)) = 4"
  "cur_mem_state (mem (mem_state_at st)) = st" "oom_timer (mem (mem_state_at st)) = 9"
  "e_ret (mem_env v) h c = 1" "e_out (mem_env v) h (FS (Read 4)) = Some v"
  "trace (mem_state_at st) = []"
  by (simp_all add: mem_env_def malloc_ok_def mem_state_at_def)

text \<open>
  Memory notifications.  Reading one of the four known states makes it the current
  one and queues the out-of-memory alert on every critical notice, the low-memory alert
  on the step from normal to low, and nothing otherwise.
\<close>

theorem memory_notice_queues_alert:
  assumes "alive s" "malloc_ok E" "e_ret E (trace s) (ECORE Fd_handler_active) \<noteq> 0"
    and "e_out E (ECORE Fd_handler_active # trace s) (FS (Read (lowmem_fd (mem s)))) = Some v"
    and "known_mem_state (cur_mem_state (mem s))" "known_mem_state (word_of_int v)"
  shows "alive (exec (lowmem_cb E) s) \<and> cur_mem_state (mem (exec (lowmem_cb E) s)) = word_of_int v \<and>
    queue_part (exec (lowmem_cb E) s) =
      (case mem_alert_policy (cur_mem_state (mem s)) (word_of_int v) of
         None \<Rightarrow> queue_part s
       | Some x \<Rightarrow> post_action PREDEF_LOWMEM 1 [Some x] (queue_part s))"
proof -
  define s2 where "s2 = log_call (FS (Read (lowmem_fd (mem s)))) (log_call (ECORE Fd_handler_active) s)"
  have s2: "alive s2" "queue_part s2 = queue_part s" "mem s2 = mem s"
    using assms(1) by (simp_all add: s2_def queue_part_def)
  from lowmem_process_effect [OF s2(1) assms(2), of "word_of_int v"] show ?thesis
    unfolding lowmem_cb_run(1) [OF assms(1,3,4,5,6)] s2_def [symmetric] using s2
    by (auto simp: mem_lpe_policy)
qed

lemma memory_notice_queues_alert_witness:
  "map rq_argv (run_queue (exec (lowmem_cb (mem_env 0xdead)) (mem_state_at MEMNOTIFY_LOW))) =
     [[Some OOM_MEM_ACT]]"
proof -
  have "queue_part (exec (lowmem_cb (mem_env 0xdead)) (mem_state_at MEMNOTIFY_LOW)) =
      post_action PREDEF_LOWMEM 1 [Some OOM_MEM_ACT] (queue_part (mem_state_at MEMNOTIFY_LOW))"
    using memory_notice_queues_alert [of "mem_state_at MEMNOTIFY_LOW" "mem_env 0xdead" "0xdead"]
    by (simp add: mem_env_ok memnotify_defs known_mem_state_def mem_alert_policy_def del: post_action.simps)
  then show ?thesis by (simp add: queue_part_def mem_state_at_def mem_entry_def)
qed

text \<open>
  A state the kernel is not known to send aborts the daemon on the assertion of the
  tracing code, before the table is even looked at.
\<close>

theorem unknown_memory_state_aborts:
  assumes "alive s" "e_ret E (trace s) (ECORE Fd_handler_active) \<noteq> 0"
    and "e_out E (ECORE Fd_handler_active # trace s) (FS (Read (lowmem_fd (mem s)))) = Some v"
    and "known_mem_state (cur_mem_state (mem s))" "\<not> known_mem_state (word_of_int v)"
  shows "halted (exec (lowmem_cb E) s) = Some AssertFailed \<and>
    queue_part (exec (lowmem_cb E) s) = queue_part s \<and> mem (exec (lowmem_cb E) s) = mem s"
  unfolding lowmem_cb_run(2) [OF assms] by (simp add: queue_part_def)

lemma unknown_memory_state_aborts_witness:
  "halted (exec (lowmem_cb (mem_env 7)) (mem_state_at MEMNOTIFY_NORMAL)) = Some AssertFailed"
  using unknown_memory_state_aborts [of "mem_state_at MEMNOTIFY_NORMAL" "mem_env 7" 7]
  by (simp add: mem_env_ok known_mem_state_def memnotify_defs)

section \<open>The timers of the notifier\<close>

text \<open>
  The timers of the out-of-memory action that ecore still has: made, not a failure, and not
  deleted since.
\<close>

fun oom_timers :: "env \<Rightarrow> hist \<Rightarrow> int set" where
  "oom_timers E [] = {}"
| "oom_timers E (ECORE (Timer_add n (TCB_lowmem a)) # h) =
     oom_timers E h \<union> ({e_ret E h (ECORE (Timer_add n (TCB_lowmem a)))} - {0})"
| "oom_timers E (ECORE (Timer_del t) # h) = oom_timers E h - {t}"
| "oom_timers E (c # h) = oom_timers E h"

definition no_timer_call :: "ecall \<Rightarrow> bool" where
  "no_timer_call c \<longleftrightarrow> (\<forall>n cb t. c \<noteq> ECORE (Timer_add n cb) \<and> c \<noteq> ECORE (Timer_del t))"

lemma oom_timers_other [simp]: "no_timer_call c \<Longrightarrow> oom_timers E (c # h) = oom_timers E h"
  by (cases "(E, c # h)" rule: oom_timers.cases) (simp_all add: no_timer_call_def)

lemma no_timer_calls:
  "no_timer_call (OS f)" "no_timer_call (IPC g)" "no_timer_call (VCONF k)" "no_timer_call (HEYNOTI n)" "no_timer_call (FS d)"
  "no_timer_call (ECORE Fd_handler_active)"
  by (simp_all add: no_timer_call_def)

lemma oom_timers_emits:
  assumes "emits no_timer_call m"
  shows "oom_timers E (trace (exec m s)) = oom_timers E (trace s)"
proof -
  obtain h where "trace (exec m s) = h @ trace s" "list_all no_timer_call h"
    using emitsD [OF assms] by blast
  moreover have "list_all no_timer_call h \<Longrightarrow> oom_timers E (h @ k) = oom_timers E k" for k
    by (induction h) simp_all
  ultimately show ?thesis by simp
qed

lemma emits_mem_action: "emits no_timer_call (mem_action E a)"
  by (cases a; simp only: mem_action.simps memory_low_act_def memory_oom_act_def oom_cleanup_def memory_normal_act_def
      remove_shm_def send_named_def ss_noti_send_def Let_def;
    intro emitsI; simp add: no_timer_calls)

lemma lowmem_process_timers:
  fixes E st s
  assumes "alive s" "malloc_ok E" "oom_timers E (trace s) \<subseteq> {oom_timer (mem s)} - {0}"
  defines "t \<equiv> exec (lowmem_process E st) s"
  shows "(case mem_lpe_find (cur_mem_state (mem s)) st of
      None \<Rightarrow> oom_timer (mem t) = oom_timer (mem s) \<and> oom_timers E (trace t) = oom_timers E (trace s)
    | Some a \<Rightarrow> if st = MEMNOTIFY_CRITICAL
        then oom_timers E (trace t) = {oom_timer (mem t)} - {0} \<and>
          (\<exists>h. trace t = ECORE (Timer_add OOM_TIMER_INTERVAL (TCB_lowmem a)) # h \<and>
            oom_timer (mem t) = e_ret E h (ECORE (Timer_add OOM_TIMER_INTERVAL (TCB_lowmem a))))
        else oom_timer (mem t) = 0 \<and> oom_timers E (trace t) = {})"
proof (cases "mem_lpe_find (cur_mem_state (mem s)) st")
  case None
  then show ?thesis by (simp add: t_def lowmem_process_def)
next
  case (Some a)
  define s1 where "s1 = exec (stop_oom_timer E) s"
  define s2 where "s2 = exec (mem_action E a) s1"
  have s1: "alive s1" "oom_timer (mem s1) = 0" "oom_timers E (trace s1) = {}"
    using assms(1,3) by (auto simp: s1_def stop_oom_timer_def)
  then have s2: "alive s2" "oom_timer (mem s2) = 0" "oom_timers E (trace s2) = {}"
    using mem_action_effect [OF s1(1) assms(2), of a] oom_timers_emits [OF emits_mem_action] by (simp_all add: s2_def)
  define add where "add = ECORE (Timer_add OOM_TIMER_INTERVAL (TCB_lowmem a))"
  have "t = (if st = MEMNOTIFY_CRITICAL
      then exec (set_mem (\<lambda>m. m\<lparr>oom_timer := e_ret E (trace s2) add\<rparr>)) (log_call add s2) else s2)"
    using Some s2(1) by (simp add: t_def lowmem_process_def s1_def [symmetric] s2_def [symmetric] add_def)
  then show ?thesis using Some s2 by (simp add: add_def)
qed

text \<open>
  C39: Life of the repeating out-of-memory timer.  If ecore has at most the timer the daemon
  knows of, this is so after every notice of a known state: a critical notice that comes in
  the normal, the low or the critical state deletes the old timer and leaves exactly the one
  it has just created, which runs the out-of-memory action every five seconds; a step from
  normal to low, and one back to normal from low or critical, leaves none; every other
  notice leaves the timer as it is.
\<close>

theorem oom_timer_follows_state:
  assumes "alive s" "malloc_ok E" "e_ret E (trace s) (ECORE Fd_handler_active) \<noteq> 0"
    and "e_out E (ECORE Fd_handler_active # trace s) (FS (Read (lowmem_fd (mem s)))) = Some v"
    and "known_mem_state (cur_mem_state (mem s))" "known_mem_state (word_of_int v)"
    and "oom_timers E (trace s) \<subseteq> {oom_timer (mem s)} - {0}"
  defines "t \<equiv> exec (lowmem_cb E) s" and "cur \<equiv> cur_mem_state (mem s)" and "new \<equiv> word_of_int v"
    and "add \<equiv> ECORE (Timer_add 5 (TCB_lowmem Memory_oom_act))"
  shows "if new = MEMNOTIFY_CRITICAL \<and> cur \<in> {MEMNOTIFY_NORMAL, MEMNOTIFY_LOW, MEMNOTIFY_CRITICAL}
    then oom_timers E (trace t) = {oom_timer (mem t)} - {0} \<and>
      (\<exists>h. trace t = add # h \<and> oom_timer (mem t) = e_ret E h add)
    else if new = MEMNOTIFY_LOW \<and> cur = MEMNOTIFY_NORMAL \<or>
      new = MEMNOTIFY_NORMAL \<and> cur \<in> {MEMNOTIFY_LOW, MEMNOTIFY_CRITICAL}
    then oom_timer (mem t) = 0 \<and> oom_timers E (trace t) = {}
    else oom_timer (mem t) = oom_timer (mem s) \<and> oom_timers E (trace t) = oom_timers E (trace s)"
proof -
  define s2 where "s2 = log_call (FS (Read (lowmem_fd (mem s)))) (log_call (ECORE Fd_handler_active) s)"
  have s2: "alive s2" "mem s2 = mem s" "oom_timers E (trace s2) = oom_timers E (trace s)"
    using assms(1) by (simp_all add: s2_def no_timer_calls)
  have "t = exec (set_mem (\<lambda>m. m\<lparr>cur_mem_state := new\<rparr>)) (exec (lowmem_process E new) s2)"
    unfolding t_def new_def s2_def by (rule lowmem_cb_run(1) [OF assms(1,3-6)])
  moreover have "alive (exec (lowmem_process E new) s2)"
    using lowmem_process_effect [OF s2(1) assms(2)] by blast
  ultimately have t: "oom_timer (mem t) = oom_timer (mem (exec (lowmem_process E new) s2))"
    "trace t = trace (exec (lowmem_process E new) s2)" by simp_all
  note p = lowmem_process_timers [OF s2(1) assms(2), of new, unfolded s2(2,3), OF assms(7), folded cur_def t]
  show ?thesis
    using p by (simp add: mem_lpe_cases add_def OOM_TIMER_INTERVAL_def split: if_splits) blast+
qed

lemma oom_timer_follows_state_witness:
  "oom_timers (mem_env 0) (trace (exec (lowmem_cb (mem_env 0)) ((mem_state_at MEMNOTIFY_CRITICAL)\<lparr>
     trace := [ECORE (Timer_add 5 (TCB_lowmem Memory_oom_act))],
     mem := \<lparr>lowmem_fd = 4, cur_mem_state = MEMNOTIFY_CRITICAL, oom_timer = 1, oom_delete_sm_time = 0\<rparr>\<rparr>))) = {}"
  using oom_timer_follows_state [of "(mem_state_at MEMNOTIFY_CRITICAL)\<lparr>
      trace := [ECORE (Timer_add 5 (TCB_lowmem Memory_oom_act))],
      mem := \<lparr>lowmem_fd = 4, cur_mem_state = MEMNOTIFY_CRITICAL, oom_timer = 1, oom_delete_sm_time = 0\<rparr>\<rparr>" "mem_env 0" 0]
  by (simp add: mem_env_ok memnotify_defs known_mem_state_def)

text \<open>
  C40: Going from critical to low is not in the table: the notice is swallowed, the
  repeating timer keeps firing the out-of-memory action, and the published memory state
  stays at the hard warning.
\<close>

theorem critical_to_low_keeps_killing:
  assumes "alive s" "e_ret E (trace s) (ECORE Fd_handler_active) \<noteq> 0"
    and "e_out E (ECORE Fd_handler_active # trace s) (FS (Read (lowmem_fd (mem s)))) = Some v"
    and "cur_mem_state (mem s) = MEMNOTIFY_CRITICAL" "word_of_int v = MEMNOTIFY_LOW"
  shows "oom_timer (mem (exec (lowmem_cb E) s)) = oom_timer (mem s) \<and>
    cur_mem_state (mem (exec (lowmem_cb E) s)) = MEMNOTIFY_LOW \<and>
    trace (exec (lowmem_cb E) s) =
      FS (Read (lowmem_fd (mem s))) # ECORE Fd_handler_active # trace s"
proof -
  have "known_mem_state (cur_mem_state (mem s))" "known_mem_state (word_of_int v)"
    using assms(4,5) by (simp_all add: known_mem_state_def)
  from lowmem_cb_run(1) [OF assms(1-3) this] show ?thesis
    using assms(1,4,5) by (simp add: lowmem_process_def mem_lpe_cases)
qed

lemma critical_to_low_keeps_killing_witness:
  "oom_timer (mem (exec (lowmem_cb (mem_env 64172)) (mem_state_at MEMNOTIFY_CRITICAL))) = 9"
  using critical_to_low_keeps_killing [of "mem_state_at MEMNOTIFY_CRITICAL" "mem_env 64172" 64172]
  by (simp add: mem_env_ok MEMNOTIFY_LOW_def)

lemma remove_shm_logs:
  assumes "alive s"
  shows "IPC Shm_info \<in> set (trace (exec (remove_shm E) s))"
proof -
  have e: "emits (\<lambda>_. True) (for_each (\<lambda>id. do {
         junk \<leftarrow> get_junk E;
         (shmid, nattch) \<leftarrow> call_out E (IPC (Shm_stat id)) junk;
         if shmid < 0 then return ()
         else if nattch = 0 then do { call E (IPC (Shm_rmid shmid)); return () }
         else return ()
       }) xs)" for xs
    by (intro emitsI TrueI)
  show ?thesis
    using assms trace_grows [OF e, of "log_call (IPC Shm_info) s"] by (auto simp: remove_shm_def)
qed

text \<open>
  The clean-up of shared memory is throttled by the clock: it runs exactly when the
  unsigned 32-bit difference to the last one exceeds 15 seconds, and then remembers the
  time.  A clock that was set back by anything but a few seconds therefore does not
  suppress it: the difference wraps around.
\<close>

theorem oom_cleanup_throttled:
  assumes "alive s" "now = (word_of_int (e_ret E (trace s) (OS Time)) :: 32 word)"
    and "old = oom_delete_sm_time (mem s)"
  shows "(let due = 15 < (uint now - uint old) mod 2 ^ 32; t = exec (oom_cleanup E) s in
     oom_delete_sm_time (mem t) = (if due then now else old) \<and>
     (IPC Shm_info \<in> set (trace t) \<longleftrightarrow> due \<or> IPC Shm_info \<in> set (trace s)))"
proof -
  let ?s1 = "log_call (OS Time) s"
  let ?r = "exec (remove_shm E) ?s1"
  have due: "15 < now - old \<longleftrightarrow> 15 < (uint now - uint old) mod 2 ^ 32"
    by (simp add: word_less_def uint_word_ariths)
  have al: "alive ?r" using frameD [OF frames_remove_shm, of alive E ?s1] assms(1) by (simp add: frames)
  have "IPC Shm_info \<in> set (trace ?r)" using remove_shm_logs [of ?s1] assms(1) by simp
  then show ?thesis
    using assms al unfolding Let_def due [symmetric]
    by (auto simp: oom_cleanup_def Let_def send_named_def ss_noti_send_def)
qed

lemma oom_cleanup_throttled_witness:
  "oom_delete_sm_time (mem (exec (oom_cleanup (env1\<lparr>e_ret := (\<lambda>_ _. 100)\<rparr>)) boot)) = 100"
  using oom_cleanup_throttled [of boot 100 "env1\<lparr>e_ret := (\<lambda>_ _. 100)\<rparr>" 0]
  by (simp add: boot_def alive_def Let_def)

end
