(* ===== verification/SS_UsbStorage.thy ===== *)
theory SS_UsbStorage
  imports SS_Noti
begin

text \<open>
  \<open>ss_usb_storage_handler.c\<close>: mounting and unmounting USB mass storage below a tmpfs
  that protects the mount point.  The entries of \<open>/etc/mtab\<close> are the file names the
  environment gives for that path.
\<close>

section \<open>Mounting one device\<close>

definition MTAB_FILE :: string where "MTAB_FILE = ''/etc/mtab''"
definition MOUNT_POINT :: string where "MOUNT_POINT = ''/opt/storage/usb''"
definition BUF_MAX :: nat where "BUF_MAX = 512"

text \<open>\<open>strrchr(s, '/')\<close> and \<open>strstr\<close> as a test.\<close>

definition strrchr_slash :: "string \<Rightarrow> string option" where
  "strrchr_slash s =
     (if CHR ''/'' \<in> set s then Some (CHR ''/'' # rev (takeWhile (\<lambda>c. c \<noteq> CHR ''/'') (rev s))) else None)"

fun strstr :: "string \<Rightarrow> string \<Rightarrow> bool" where
  "strstr [] needle \<longleftrightarrow> needle = []"
| "strstr (c # cs) needle \<longleftrightarrow> prefix needle (c # cs) \<or> strstr cs needle"

text \<open>The path below the mount point, as \<open>snprintf\<close> cuts it.\<close>

definition mount_path :: "string \<Rightarrow> string" where
  "mount_path rel = take (BUF_MAX - 1) (MOUNT_POINT @ rel)"

definition ss_mount_device :: "env \<Rightarrow> string \<Rightarrow> (ss, int) state" where
  "ss_mount_device E devname = do {
     acc \<leftarrow> call E (FS (Access devname));
     if acc \<noteq> 0 then return (-1)
     else case strrchr_slash devname of
       None \<Rightarrow> return (-1)
     | Some rel \<Rightarrow> do {
         let mnt = mount_path rel;
         r \<leftarrow> call E (FS (Mkdir mnt 493));
         errno \<leftarrow> get_errno E;
         if r < 0 \<and> errno \<noteq> EEXIST then return (-1)
         else do {
           m \<leftarrow> call E (FS (Mount devname mnt ''vfat''));
           if m < 0 then do { call E (FS (Rmdir mnt)); return (-1) } else return 0
         }
       }
   }"

definition ss_unmount_device :: "env \<Rightarrow> string \<Rightarrow> (ss, int) state" where
  "ss_unmount_device E mnt_point = do {
     acc \<leftarrow> call E (FS (Access mnt_point));
     if acc \<noteq> 0 then return (-1)
     else do {
       ret \<leftarrow> call E (FS (Umount mnt_point MNT_DETACH));
       if ret < 0 then do { call E (FS (Rmdir mnt_point)); return (-1) }
       else do {
         call E (POPUP Bundle_create);
         call E (POPUP (Bundle_add ''_SYSPOPUP_CONTENT_'' ''otg_remove''));
         call E (POPUP (Syspopup_launch ''usbotg-syspopup''));
         call E (POPUP Bundle_free);
         call E (FS (Rmdir mnt_point));
         return 0
       }
     }
   }"

section \<open>The two actions\<close>

text \<open>The counters the other processes watch: they start again at 1 after \<open>INT_MAX\<close>.\<close>

definition bump :: "int \<Rightarrow> int" where
  "bump v = (if v < INT_MAX then v + 1 else 1)"

definition mount_tempfs :: "env \<Rightarrow> (ss, bool) state" where
  "mount_tempfs E = do {
     mounted \<leftarrow> getv (\<lambda>s. tempfs_mounted (dev s));
     if mounted = 1 then return True
     else do {
       r \<leftarrow> call E (FS (Mount ''tmpfs'' MOUNT_POINT ''tmpfs''));
       errno \<leftarrow> get_errno E;
       if r < 0 then return (errno = EBUSY)
       else do {
         c \<leftarrow> call E (FS (Chmod MOUNT_POINT 493));
         if c < 0 then do { call E (FS (Umount MOUNT_POINT MNT_DETACH)); return False }
         else do { set_dev (\<lambda>d. d\<lparr>tempfs_mounted := 1\<rparr>); return True }
       }
     }
   }"

definition announce_added :: "env \<Rightarrow> string \<Rightarrow> (ss, int) state" where
  "announce_added E mnt = do {
     set_dev (\<lambda>d. d\<lparr>added_noti_value := bump (added_noti_value d)\<rparr>);
     v \<leftarrow> getv (\<lambda>s. added_noti_value (dev s));
     r \<leftarrow> call E (VCONF (Set_int VK_ADDED_USB_STORAGE v));
     (if r < 0 then do { call E (VCONF (Set_int VK_ADDED_USB_STORAGE (-1))); return () } else return ());
     call E (POPUP Bundle_create);
     call E (POPUP (Bundle_add ''_SYSPOPUP_CONTENT_'' ''otg_add''));
     call E (POPUP (Bundle_add ''path'' mnt));
     call E (POPUP (Syspopup_launch ''usbotg-syspopup''));
     call E (POPUP Bundle_free);
     return 0
   }"

text \<open>\<open>setmntent\<close> may return NULL, which \<open>getmntent\<close> dereferences.\<close>

definition check_mounted :: "env \<Rightarrow> string \<Rightarrow> string \<Rightarrow> (ss, int) state" where
  "check_mounted E buf_dev mnt = do {
     file \<leftarrow> call E (FS (Fopen MTAB_FILE Rd));
     if file = 0 then do { halt NullDeref; return (-1) }
     else do {
       entries \<leftarrow> readdir_all E MTAB_FILE;
       if \<exists>fsname \<in> set entries. strstr fsname buf_dev then announce_added E mnt
       else return (-1)
     }
   }"

definition ss_usb_storage_added :: "env \<Rightarrow> int \<Rightarrow> string option list \<Rightarrow> (ss, int) state" where
  "ss_usb_storage_added E argc argv =
     (case argv_at argv 0 of
        None \<Rightarrow> return (-1)
      | Some buf_dev \<Rightarrow>
          if argc \<noteq> 1 then return (-1)
          else do {
            acc \<leftarrow> call E (FS (Access MOUNT_POINT));
            made \<leftarrow> (if acc < 0 then do {
                m \<leftarrow> call E (FS (Mkdir MOUNT_POINT 493));
                return (\<not> m < 0)
              } else return True);
            if \<not> made then return (-1)
            else do {
              ok \<leftarrow> mount_tempfs E;
              if \<not> ok then return (-1)
              else case strrchr_slash buf_dev of
                None \<Rightarrow> return (-1)
              | Some rel \<Rightarrow> do {
                  ss_mount_device E buf_dev;
                  check_mounted E buf_dev (mount_path rel)
                }
            }
          })"

definition announce_removed :: "env \<Rightarrow> (ss, int) state" where
  "announce_removed E = do {
     set_dev (\<lambda>d. d\<lparr>removed_noti_value := bump (removed_noti_value d)\<rparr>);
     v \<leftarrow> getv (\<lambda>s. removed_noti_value (dev s));
     w \<leftarrow> call E (VCONF (Set_int VK_REMOVED_USB_STORAGE v));
     (if w < 0 then do { call E (VCONF (Set_int VK_ADDED_USB_STORAGE (-1))); return () } else return ());
     return 0
   }"

definition ss_usb_storage_removed :: "env \<Rightarrow> int \<Rightarrow> string option list \<Rightarrow> (ss, int) state" where
  "ss_usb_storage_removed E argc argv =
     (case argv_at argv 0 of
        None \<Rightarrow> return (-1)
      | Some buf_dev_name \<Rightarrow>
          if argc \<noteq> 1 then return (-1)
          else do {
            r \<leftarrow> ss_unmount_device E (mount_path (''/'' @ buf_dev_name));
            if r = 0 then do {
              u \<leftarrow> call E (FS (Umount MOUNT_POINT MNT_DETACH));
              (if u = 0 then set_dev (\<lambda>d. d\<lparr>tempfs_mounted := 1\<rparr>) else return ());
              announce_removed E
            } else return 0
          })"

definition ss_usb_storage_init :: "env \<Rightarrow> (ss, int) state" where
  "ss_usb_storage_init E = do {
     ss_action_entry_add_internal E PREDEF_USB_STORAGE_ADD (Some Fn_ss_usb_storage_added) None None;
     ss_action_entry_add_internal E PREDEF_USB_STORAGE_REMOVE (Some Fn_ss_usb_storage_removed) None None;
     return 0
   }"

lemmas usb_storage_defs = announce_removed_def ss_usb_storage_added_def ss_usb_storage_removed_def check_mounted_def
  announce_added_def mount_tempfs_def ss_unmount_device_def ss_mount_device_def

lemma frames_usb_storage [frames]:
  "frame queue_part (ss_usb_storage_added E argc argv)"
  "frame queue_part (ss_usb_storage_removed E argc argv)"
  unfolding usb_storage_defs by (intro frames)+

lemma stops_usb_storage [stops]:
  "obeys_halt (ss_usb_storage_added E argc argv)" "obeys_halt (ss_usb_storage_removed E argc argv)"
  unfolding usb_storage_defs by (intro stops)+

section \<open>Counters\<close>

lemma bump_range: "0 \<le> v \<Longrightarrow> v \<le> INT_MAX \<Longrightarrow> 1 \<le> bump v \<and> bump v \<le> INT_MAX \<and> bump v \<noteq> v"
  by (auto simp: bump_def INT_MAX_def)

definition counters_ok :: "ss \<Rightarrow> bool" where
  "counters_ok s \<longleftrightarrow> 0 \<le> added_noti_value (dev s) \<and> added_noti_value (dev s) \<le> INT_MAX \<and>
     0 \<le> removed_noti_value (dev s) \<and> removed_noti_value (dev s) \<le> INT_MAX"

text \<open>What may change of the handler's own variables.\<close>

definition usb_vars :: "ss \<Rightarrow> int \<times> int" where
  "usb_vars s = (added_noti_value (dev s), removed_noti_value (dev s))"

lemma off_log_usb_vars: "off_log usb_vars" "off_log alive"
  by (simp_all add: off_log_def usb_vars_def)

lemma frame_mount_device:
  "off_log f \<Longrightarrow> frame f (ss_mount_device E d)" "off_log f \<Longrightarrow> frame f (ss_unmount_device E d)"
  by (simp_all add: frame_def off_log_def ss_mount_device_def ss_unmount_device_def Let_def split: option.split)

lemma frame_tempfs: "frame usb_vars (mount_tempfs E)" "frame alive (mount_tempfs E)"
  by (simp_all add: frame_def mount_tempfs_def usb_vars_def)

lemma announce_effect:
  assumes "alive s"
  shows "usb_vars (exec (announce_added E m) s) = (bump (added_noti_value (dev s)), removed_noti_value (dev s))"
    "result (announce_added E m) s = 0"
    "\<exists>h. trace (exec (announce_added E m) s) =
       h @ VCONF (Set_int VK_ADDED_USB_STORAGE (bump (added_noti_value (dev s)))) # trace s"
  using assms by (auto simp: announce_added_def usb_vars_def)

lemma check_mounted_cases:
  assumes "alive s"
  obtains (announced) "exec (check_mounted E d m) s = exec (announce_added E m) (log_call (FS (Fopen MTAB_FILE Rd)) s)"
      "result (check_mounted E d m) s = 0"
  | (not_found) "usb_vars (exec (check_mounted E d m) s) = usb_vars s" "result (check_mounted E d m) s = -1"
proof (cases "e_ret E (trace s) (FS (Fopen MTAB_FILE Rd)) \<noteq> 0 \<and>
    (\<exists>fsname \<in> set (e_dir E (FS (Fopen MTAB_FILE Rd) # trace s) MTAB_FILE). strstr fsname d)")
  case True
  then show thesis
    using assms announce_effect(2) [of "log_call (FS (Fopen MTAB_FILE Rd)) s" E m]
    by (intro announced) (simp_all add: check_mounted_def)
next
  case False
  show thesis
  proof (cases "e_ret E (trace s) (FS (Fopen MTAB_FILE Rd)) = 0")
    case True
    then show thesis using assms by (intro not_found) (simp_all add: check_mounted_def usb_vars_def)
  next
    case nz: False
    with False have "\<not> (\<exists>fsname \<in> set (e_dir E (FS (Fopen MTAB_FILE Rd) # trace s) MTAB_FILE). strstr fsname d)"
      by blast
    with nz show thesis using assms by (intro not_found) (simp_all add: check_mounted_def usb_vars_def)
  qed
qed

lemma check_mounted_effect:
  assumes "alive s"
  shows "usb_vars (exec (check_mounted E d m) s) =
      (if result (check_mounted E d m) s = 0
       then (bump (added_noti_value (dev s)), removed_noti_value (dev s)) else usb_vars s) \<and>
    (result (check_mounted E d m) s = 0 \<longrightarrow>
      VCONF (Set_int VK_ADDED_USB_STORAGE (bump (added_noti_value (dev s)))) \<in>
        set (trace (exec (check_mounted E d m) s)))"
proof (rule check_mounted_cases [OF assms, of E d m])
  assume a: "exec (check_mounted E d m) s = exec (announce_added E m) (log_call (FS (Fopen MTAB_FILE Rd)) s)"
    "result (check_mounted E d m) s = 0"
  have al: "alive (log_call (FS (Fopen MTAB_FILE Rd)) s)" using assms by simp
  from announce_effect(3) [OF al, of E m] have
    "VCONF (Set_int VK_ADDED_USB_STORAGE (bump (added_noti_value (dev s)))) \<in> set (trace (exec (check_mounted E d m) s))"
    unfolding a(1) by auto
  then show ?thesis using announce_effect(1) [OF al, of E m] a by simp
next
  assume "usb_vars (exec (check_mounted E d m) s) = usb_vars s" "result (check_mounted E d m) s = -1"
  then show ?thesis by simp
qed

text \<open>The state the last step of the added action starts from.\<close>

lemma added_run:
  assumes "alive s"
  shows "(result (ss_usb_storage_added E argc argv) s = -1 \<and>
      usb_vars (exec (ss_usb_storage_added E argc argv) s) = usb_vars s) \<or>
    (\<exists>d m u. alive u \<and> usb_vars u = usb_vars s \<and>
      exec (ss_usb_storage_added E argc argv) s = exec (check_mounted E d m) u \<and>
      result (ss_usb_storage_added E argc argv) s = result (check_mounted E d m) u)"
proof (cases "argv_at argv 0")
  case None
  then show ?thesis by (simp add: ss_usb_storage_added_def)
next
  case (Some d)
  define made where "made = do {
     acc \<leftarrow> call E (FS (Access MOUNT_POINT));
     if acc < 0 then do { m \<leftarrow> call E (FS (Mkdir MOUNT_POINT 493)); return (\<not> m < 0) } else return True
   }"
  define s1 where "s1 = exec made s"
  define s2 where "s2 = exec (mount_tempfs E) s1"
  have s1: "alive s1" "usb_vars s1 = usb_vars s" using assms by (simp_all add: s1_def made_def usb_vars_def)
  have s2: "alive s2" "usb_vars s2 = usb_vars s"
    using frameD [OF frame_tempfs(1)] frameD [OF frame_tempfs(2)] s1 by (simp_all add: s2_def)
  have s3: "alive (exec (ss_mount_device E d) s2)" "usb_vars (exec (ss_mount_device E d) s2) = usb_vars s"
    using frameD [OF frame_mount_device(1), of alive E d s2] frameD [OF frame_mount_device(1), of usb_vars E d s2] s2
    by (simp_all add: off_log_usb_vars)
  have run: "ss_usb_storage_added E argc argv = (if argc \<noteq> 1 then return (-1) else do {
      m \<leftarrow> made;
      if \<not> m then return (-1)
      else do {
        ok \<leftarrow> mount_tempfs E;
        if \<not> ok then return (-1)
        else case strrchr_slash d of
          None \<Rightarrow> return (-1)
        | Some rel \<Rightarrow> do {
            ss_mount_device E d;
            check_mounted E d (mount_path rel)
          }
      }
    })"
    using Some by (simp add: ss_usb_storage_added_def made_def)
  consider "result (ss_usb_storage_added E argc argv) s = -1"
      "exec (ss_usb_storage_added E argc argv) s \<in> {s, s1, s2}"
    | rel where "exec (ss_usb_storage_added E argc argv) s =
        exec (check_mounted E d (mount_path rel)) (exec (ss_mount_device E d) s2)"
      "result (ss_usb_storage_added E argc argv) s =
        result (check_mounted E d (mount_path rel)) (exec (ss_mount_device E d) s2)"
    unfolding run using s1_def s2_def
    by (cases "argc \<noteq> 1"; cases "result made s"; cases "result (mount_tempfs E) s1"; cases "strrchr_slash d") auto
  then show ?thesis
  proof cases
    case 1
    then show ?thesis using s1 s2 by auto
  next
    case 2
    then show ?thesis using s3 by blast
  qed
qed

text \<open>A removal in which everything can be unmounted.\<close>

definition unmountable :: "env \<Rightarrow> bool" where
  "unmountable E \<longleftrightarrow> (\<forall>h p f. e_ret E h (FS (Umount p f)) = 0) \<and> (\<forall>h p. e_ret E h (FS (Access p)) = 0)"

lemma unmount_device_ok:
  assumes "unmountable E"
  shows "result (ss_unmount_device E p) s = 0" "alive (exec (ss_unmount_device E p) s) = alive s"
    "dev (exec (ss_unmount_device E p) s) = dev s"
  using assms by (simp_all add: unmountable_def ss_unmount_device_def)

lemma removed_ok:
  fixes argv
  assumes "unmountable E" "alive s" "argv_at argv 0 = Some d"
  defines "t \<equiv> exec (ss_usb_storage_removed E 1 argv) s" and "v \<equiv> bump (removed_noti_value (dev s))"
  shows "alive t" "dev t = (dev s)\<lparr>tempfs_mounted := 1, removed_noti_value := v\<rparr>"
    "\<exists>h. trace t = (if e_ret E h (VCONF (Set_int VK_REMOVED_USB_STORAGE v)) < 0
       then [VCONF (Set_int VK_ADDED_USB_STORAGE (-1))] else []) @ VCONF (Set_int VK_REMOVED_USB_STORAGE v) # h"
proof -
  define s1 where "s1 = exec (ss_unmount_device E (mount_path (''/'' @ d))) s"
  have s1: "alive s1" "dev s1 = dev s"
    using unmount_device_ok [OF assms(1)] assms(2) by (simp_all add: s1_def)
  define s2 where "s2 = (log_call (FS (Umount MOUNT_POINT MNT_DETACH)) s1)
      \<lparr>dev := (dev s)\<lparr>tempfs_mounted := 1\<rparr>\<rparr>"
  have s2: "alive s2" "dev s2 = (dev s)\<lparr>tempfs_mounted := 1\<rparr>" using s1 by (simp_all add: s2_def)
  have u: "e_ret E h (FS (Umount p f)) = 0" for h p f using assms(1) by (simp add: unmountable_def)
  have s1': "exec (ss_unmount_device E (mount_path (CHR ''/'' # d))) s = s1" by (simp add: s1_def)
  have run: "t = exec (announce_removed E) s2"
    using assms(3) s1 unmount_device_ok(1) [OF assms(1)] u
    by (simp add: t_def ss_usb_storage_removed_def s1' s2_def)
  show "alive t" "dev t = (dev s)\<lparr>tempfs_mounted := 1, removed_noti_value := v\<rparr>"
    using s2 by (simp_all add: run announce_removed_def v_def)
  show "\<exists>h. trace t = (if e_ret E h (VCONF (Set_int VK_REMOVED_USB_STORAGE v)) < 0
       then [VCONF (Set_int VK_ADDED_USB_STORAGE (-1))] else []) @ VCONF (Set_int VK_REMOVED_USB_STORAGE v) # h"
    using s2 by (intro exI [of _ "trace s2"]) (simp add: run announce_removed_def v_def)
qed

section \<open>Properties\<close>

definition usb_env :: env where
  "usb_env = env1\<lparr>e_ret := (\<lambda>h c. case c of FS (Fopen p m) \<Rightarrow> 1
       | VCONF (Set_int k v) \<Rightarrow> if k = VK_REMOVED_USB_STORAGE then -1 else 0 | _ \<Rightarrow> 0),
     e_dir := (\<lambda>_ _. [''tmpfs'', ''/dev/sda1''])\<rparr>"

text \<open>
  Adding a USB storage device either succeeds, and then the counter the other
  processes watch takes a new value within 1 and INT_MAX and that value is published, or
  fails with -1 and leaves both counters as they were.
\<close>

theorem usb_added_announces_new_value:
  assumes "alive s" "counters_ok s"
  shows "(result (ss_usb_storage_added E argc argv) s = 0 \<longrightarrow>
      (let v = added_noti_value (dev (exec (ss_usb_storage_added E argc argv) s)) in
       1 \<le> v \<and> v \<le> INT_MAX \<and> v \<noteq> added_noti_value (dev s) \<and>
       VCONF (Set_int VK_ADDED_USB_STORAGE v) \<in> set (trace (exec (ss_usb_storage_added E argc argv) s)))) \<and>
    (result (ss_usb_storage_added E argc argv) s \<noteq> 0 \<longrightarrow>
      usb_vars (exec (ss_usb_storage_added E argc argv) s) = usb_vars s) \<and>
    removed_noti_value (dev (exec (ss_usb_storage_added E argc argv) s)) = removed_noti_value (dev s)"
  using added_run [OF assms(1), of E argc argv]
proof (elim disjE exE conjE)
  fix d m u
  assume u: "alive u" "usb_vars u = usb_vars s"
    "exec (ss_usb_storage_added E argc argv) s = exec (check_mounted E d m) u"
    "result (ss_usb_storage_added E argc argv) s = result (check_mounted E d m) u"
  have "1 \<le> bump (added_noti_value (dev s)) \<and> bump (added_noti_value (dev s)) \<le> INT_MAX \<and>
      bump (added_noti_value (dev s)) \<noteq> added_noti_value (dev s)"
    using assms(2) bump_range unfolding counters_ok_def by blast
  then show ?thesis
    using check_mounted_effect [OF u(1), of E d m] u(2)
    unfolding u(3,4) Let_def by (auto simp: usb_vars_def split: if_splits)
qed (simp add: usb_vars_def)

lemma usb_added_announces_new_value_witness:
  "added_noti_value (dev (exec (ss_usb_storage_added usb_env 1 [Some ''/dev/sda1'']) boot)) \<noteq> 0"
proof -
  have a: "strstr ''/dev/sda1'' ''/dev/sda1''" "strrchr_slash ''/dev/sda1'' = Some ''/sda1''"
    by code_simp+
  have "result (ss_usb_storage_added usb_env 1 [Some ''/dev/sda1'']) boot = 0"
    by (simp add: usb_storage_defs usb_env_def argv_at_def a boot_def alive_def log_call_def)
  then show ?thesis
    using usb_added_announces_new_value [of boot usb_env 1 "[Some ''/dev/sda1'']"]
    by (simp add: counters_ok_def boot_def alive_def INT_MAX_def Let_def)
qed

text \<open>
  Removing a device that unmounts cleanly leaves \<open>tempfs_mounted\<close> set although the
  tmpfs has just been unmounted, so the next device is mounted without the tmpfs that
  protects the mount point.
\<close>

theorem tempfs_not_mounted_again:
  assumes "alive s" "argv_at argv 0 = Some d" "unmountable E"
    and "dev u = dev (exec (ss_usb_storage_removed E 1 argv) s)"
  shows "exec (mount_tempfs F) u = u \<and> result (mount_tempfs F) u"
  using removed_ok(2) [OF assms(3,1,2)] assms(4) by (simp add: mount_tempfs_def)

lemma usb_env_unmountable: "unmountable usb_env"
  by (simp add: usb_env_def unmountable_def)

lemma tempfs_not_mounted_again_witness:
  "exec (mount_tempfs env1) (exec (ss_usb_storage_removed usb_env 1 [Some ''sda1'']) boot) =
     exec (ss_usb_storage_removed usb_env 1 [Some ''sda1'']) boot"
  using tempfs_not_mounted_again [OF boot_simps(3) _ usb_env_unmountable, of "[Some ''sda1'']" "''sda1''" _ env1]
  by (simp add: argv_at_def)

text \<open>
  When the counter of removed devices cannot be published, the error value is
  written to the key of the added devices.
\<close>

theorem removal_error_written_to_added_key:
  assumes "alive s" "argv_at argv 0 = Some d" "unmountable E"
    and "\<And>h v. e_ret E h (VCONF (Set_int VK_REMOVED_USB_STORAGE v)) < 0"
  shows "hd (trace (exec (ss_usb_storage_removed E 1 argv) s)) =
    VCONF (Set_int VK_ADDED_USB_STORAGE (-1))"
  using removed_ok(3) [OF assms(3,1,2)] assms(4) by auto

lemma removal_error_written_to_added_key_witness:
  "hd (trace (exec (ss_usb_storage_removed usb_env 1 [Some ''sda1'']) boot)) =
     VCONF (Set_int VK_ADDED_USB_STORAGE (-1))"
  by (rule removal_error_written_to_added_key [OF boot_simps(3) _ usb_env_unmountable, where d = "''sda1''"])
    (simp_all add: usb_env_def argv_at_def)

end
