(* ===== verification/SS_Lowbat.thy ===== *)
theory SS_Lowbat
  imports SS_Invariant SS_Noti
begin

text \<open>
  \<open>ss_lowbat_handler.c\<close>: the battery monitor.  A poll reads the capacity, publishes the
  charge level and, when the level moves along an entry of the table \<open>lpe\<close>, queues an
  alert.  The table's fields are unsigned, so the state \<open>BATTERY_UNKNOWN\<close> (-1) never
  equals one; states are ints here.
\<close>

section \<open>Levels and the table\<close>

definition BAT_MON_INTERVAL :: int where "BAT_MON_INTERVAL = 30"
definition BAT_MON_INTERVAL_MIN :: int where "BAT_MON_INTERVAL_MIN = 2"
definition BATTERY_UNKNOWN :: int where "BATTERY_UNKNOWN = -1"
definition BATTERY_FULL :: int where "BATTERY_FULL = 100"
definition BATTERY_NORMAL :: int where "BATTERY_NORMAL = 100"
definition BATTERY_WARNING_LOW :: int where "BATTERY_WARNING_LOW = 15"
definition BATTERY_CRITICAL_LOW :: int where "BATTERY_CRITICAL_LOW = 5"
definition BATTERY_POWER_OFF :: int where "BATTERY_POWER_OFF = 1"
definition BATTERY_REAL_POWER_OFF :: int where "BATTERY_REAL_POWER_OFF = 0"
definition MAX_BATTERY_ERROR :: int where "MAX_BATTERY_ERROR = 10"

lemmas battery_defs = BATTERY_UNKNOWN_def BATTERY_FULL_def BATTERY_NORMAL_def
  BATTERY_WARNING_LOW_def BATTERY_CRITICAL_LOW_def BATTERY_POWER_OFF_def BATTERY_REAL_POWER_OFF_def

datatype bat_act = Battery_warning_low_act | Battery_critical_low_act | Battery_power_off_act

definition lowbat_lpe :: "(int \<times> int \<times> bat_act) list" where
  "lowbat_lpe =
    [(BATTERY_NORMAL, BATTERY_WARNING_LOW, Battery_warning_low_act),
     (BATTERY_WARNING_LOW, BATTERY_CRITICAL_LOW, Battery_critical_low_act),
     (BATTERY_CRITICAL_LOW, BATTERY_POWER_OFF, Battery_critical_low_act),
     (BATTERY_POWER_OFF, BATTERY_REAL_POWER_OFF, Battery_power_off_act),
     (BATTERY_NORMAL, BATTERY_CRITICAL_LOW, Battery_critical_low_act),
     (BATTERY_WARNING_LOW, BATTERY_POWER_OFF, Battery_critical_low_act),
     (BATTERY_CRITICAL_LOW, BATTERY_REAL_POWER_OFF, Battery_power_off_act),
     (BATTERY_NORMAL, BATTERY_POWER_OFF, Battery_critical_low_act),
     (BATTERY_WARNING_LOW, BATTERY_REAL_POWER_OFF, Battery_power_off_act),
     (BATTERY_NORMAL, BATTERY_REAL_POWER_OFF, Battery_power_off_act)]"

fun bat_action :: "env \<Rightarrow> bat_act \<Rightarrow> (ss, int) state" where
  "bat_action E Battery_warning_low_act = do {
     send_named E ''LOW_POWER'';
     ss_action_entry_call_internal E (Some PREDEF_LOWBAT) 1 [Some WARNING_LOW_BAT_ACT];
     return 0
   }"
| "bat_action E Battery_critical_low_act = do {
     ss_action_entry_call_internal E (Some PREDEF_LOWBAT) 1 [Some CRITICAL_LOW_BAT_ACT];
     return 0
   }"
| "bat_action E Battery_power_off_act = do {
     ss_action_entry_call_internal E (Some PREDEF_LOWBAT) 1 [Some POWER_OFF_BAT_ACT];
     return 0
   }"

text \<open>The two searches of \<open>lowbat_process\<close>: from the unknown state the first entry with the new level.\<close>

definition lpe_find :: "int \<Rightarrow> int \<Rightarrow> bat_act option" where
  "lpe_find cur new =
     (if cur = BATTERY_UNKNOWN
      then map_option (\<lambda>(c, n, a). a) (find (\<lambda>(c, n, a). n = new) lowbat_lpe)
      else map_option (\<lambda>(c, n, a). a) (find (\<lambda>(c, n, a). c = cur \<and> n = new) lowbat_lpe))"

section \<open>Charging\<close>

definition ss_lowbat_set_charge_on :: "env \<Rightarrow> int \<Rightarrow> (ss, int) state" where
  "ss_lowbat_set_charge_on E onoff = do {
     r \<leftarrow> call E (VCONF (Set_int VK_BATTERY_CHARGE_NOW onoff));
     return (if r \<noteq> 0 then -1 else 0)
   }"

definition ss_lowbat_is_charge_in_now :: "env \<Rightarrow> (ss, int) state" where
  "ss_lowbat_is_charge_in_now E = do {
     (r, val) \<leftarrow> call_out E (OEM (Get OEM_battery_charge_now)) 0;
     if 0 > r then do { ss_lowbat_set_charge_on E 0; return 0 }
     else if val = 1 then do { ss_lowbat_set_charge_on E 1; return 1 }
     else do { ss_lowbat_set_charge_on E 0; return 0 }
   }"

section \<open>One poll\<close>

definition set_status_low :: "env \<Rightarrow> int \<Rightarrow> kname \<Rightarrow> (ss, int) state" where
  "set_status_low E vconf_state k =
     (if vconf_state \<noteq> konst E k
      then call E (VCONF (Set_int VK_BATTERY_STATUS_LOW (konst E k)))
      else return 0)"

text \<open>The new level and the value of \<open>ret\<close>.\<close>

definition publish_level :: "env \<Rightarrow> int \<Rightarrow> int \<Rightarrow> (ss, int \<times> int) state" where
  "publish_level E cap vconf_state =
     (if cap \<le> BATTERY_REAL_POWER_OFF then do {
        ret \<leftarrow> set_status_low E vconf_state K_BAT_POWER_OFF;
        return (BATTERY_REAL_POWER_OFF, ret)
      } else if cap \<le> BATTERY_POWER_OFF then do {
        ret \<leftarrow> set_status_low E vconf_state K_BAT_POWER_OFF;
        return (BATTERY_POWER_OFF, ret)
      } else if cap \<le> BATTERY_CRITICAL_LOW then do {
        ret \<leftarrow> set_status_low E vconf_state K_BAT_CRITICAL_LOW;
        return (BATTERY_CRITICAL_LOW, ret)
      } else if cap \<le> BATTERY_WARNING_LOW then do {
        ret \<leftarrow> set_status_low E vconf_state K_BAT_WARNING_LOW;
        return (BATTERY_WARNING_LOW, ret)
      } else do {
        ret \<leftarrow> (if cap = BATTERY_FULL then do {
            (_, bat_full) \<leftarrow> call_out E (OEM (Get OEM_battery_charge_full)) (-1);
            if bat_full = 1 then set_status_low E vconf_state K_BAT_FULL
            else set_status_low E vconf_state K_BAT_NORMAL
          } else set_status_low E vconf_state K_BAT_NORMAL);
        return (BATTERY_NORMAL, ret)
      })"

definition publish_capacity :: "env \<Rightarrow> int \<Rightarrow> (ss, unit) state" where
  "publish_capacity E bat_percent = do {
     cur_cap \<leftarrow> getv (\<lambda>s. cur_bat_capacity (bat s));
     (if bat_percent \<noteq> cur_cap then do {
        r \<leftarrow> call E (VCONF (Set_int VK_BATTERY_CAPACITY bat_percent));
        if r = 0 then set_bat (\<lambda>b. b\<lparr>cur_bat_capacity := bat_percent\<rparr>) else return ()
      } else return ())
   }"

text \<open>From the comparison of the two states to the end.\<close>

definition bat_transition :: "env \<Rightarrow> int \<Rightarrow> (ss, int) state" where
  "bat_transition E new_bat_state = do {
     cur \<leftarrow> getv (\<lambda>s. cur_bat_state (bat s));
     if cur = new_bat_state \<and> cur \<noteq> BATTERY_POWER_OFF then return 0
     else case lpe_find cur new_bat_state of
       Some a \<Rightarrow> do {
         bat_action E a;
         set_bat (\<lambda>b. b\<lparr>cur_bat_state := new_bat_state\<rparr>);
         return 0
       }
     | None \<Rightarrow> do {
         set_bat (\<lambda>b. b\<lparr>cur_bat_state := new_bat_state\<rparr>);
         return (-1)
       }
   }"

definition lowbat_process :: "env \<Rightarrow> int \<Rightarrow> (ss, int) state" where
  "lowbat_process E bat_percent =
     (if bat_percent < 0 then return (-1)
      else do {
        publish_capacity E bat_percent;
        (g, vconf_state) \<leftarrow> call_out E (VCONF (Get_int VK_BATTERY_STATUS_LOW)) (-1);
        if 0 > g then return (-1)
        else do {
          (new_bat_state, ret) \<leftarrow> publish_level E bat_percent vconf_state;
          if ret < 0 then return (-1)
          else do {
            ss_lowbat_is_charge_in_now E;
            bat_transition E new_bat_state
          }
        }
      })"

definition lowbat_read :: "env \<Rightarrow> (ss, int) state" where
  "lowbat_read E = do {
     junk \<leftarrow> get_junk E;
     (_, bat_percent) \<leftarrow> call_out E (OEM (Get OEM_battery_capacity)) junk;
     return bat_percent
   }"

definition ss_lowbat_monitor :: "env \<Rightarrow> (ss, int) state" where
  "ss_lowbat_monitor E = do {
     bat_percent \<leftarrow> lowbat_read E;
     timer \<leftarrow> getv (\<lambda>s. lowbat_timer (bat s));
     if bat_percent < 0 then do {
       call E (ECORE (Timer_interval_set timer BAT_MON_INTERVAL_MIN));
       set_bat (\<lambda>b. b\<lparr>bat_err_count := bat_err_count b + 1\<rparr>);
       errs \<leftarrow> getv (\<lambda>s. bat_err_count (bat s));
       if errs > MAX_BATTERY_ERROR then return 0 else return 1
     } else do {
       r \<leftarrow> lowbat_process E (if bat_percent > 100 then 100 else bat_percent);
       call E (ECORE (Timer_interval_set timer (if r < 0 then BAT_MON_INTERVAL_MIN else BAT_MON_INTERVAL)));
       return 1
     }
   }"

definition wakeup_cb :: "env \<Rightarrow> int \<Rightarrow> (ss, int) state" where
  "wakeup_cb E pm_state = do {
     (if pm_state = konst E K_PM_STATE_LCDOFF then do { ss_lowbat_monitor E; return () } else return ());
     return 0
   }"

definition check_battery :: "env \<Rightarrow> (ss, int) state" where
  "check_battery E = do {
     (_, ret) \<leftarrow> call_out E (OEM (Get OEM_battery_present)) (-1);
     return ret
   }"

definition ss_lowbat_init :: "env \<Rightarrow> (ss, int) state" where
  "ss_lowbat_init E = do {
     t \<leftarrow> call E (ECORE (Timer_add BAT_MON_INTERVAL_MIN TCB_ss_lowbat_monitor));
     set_bat (\<lambda>b. b\<lparr>lowbat_timer := t\<rparr>);
     ss_lowbat_is_charge_in_now E;
     call E (VCONF (Notify_key_changed VK_PM_STATE));
     return 0
   }"

lemmas lowbat_defs = ss_lowbat_monitor_def lowbat_read_def lowbat_process_def publish_capacity_def
  bat_transition_def publish_level_def
  set_status_low_def ss_lowbat_is_charge_in_now_def ss_lowbat_set_charge_on_def

lemma stops_bat_action [stops]: "obeys_halt (bat_action E a)"
  by (cases a) (auto intro!: stops)

lemma stops_lowbat [stops]:
  "obeys_halt (ss_lowbat_is_charge_in_now E)" "obeys_halt (lowbat_process E p)"
  "obeys_halt (ss_lowbat_monitor E)" "obeys_halt (wakeup_cb E k)" "obeys_halt (ss_lowbat_init E)"
  unfolding wakeup_cb_def ss_lowbat_init_def lowbat_defs by (intro stops)+

section \<open>What a poll does\<close>

context callback_safe
begin

lemma pres_bat_action [presI]: "pres I (bat_action E a)"
  by (cases a) (auto intro!: presI)

lemma pres_lowbat [presI]:
  "pres I (ss_lowbat_monitor E)" "pres I (wakeup_cb E k)"
  "pres I (ss_lowbat_init E)" "pres I (ss_lowbat_is_charge_in_now E)"
  unfolding wakeup_cb_def ss_lowbat_init_def lowbat_defs by (intro presI)+

end

definition bat_level :: "int \<Rightarrow> int" where
  "bat_level cap =
     (if cap \<le> 0 then 0 else if cap \<le> 1 then 1 else if cap \<le> 5 then 5
      else if cap \<le> 15 then 15 else 100)"

definition bat_states :: "int set" where
  "bat_states = {-1, 0, 1, 5, 15, 100}"

text \<open>The alert policy the table encodes: an alert whenever the level drops.\<close>

definition bat_alert :: "int \<Rightarrow> int \<Rightarrow> string option" where
  "bat_alert old new =
     (if new < (if old = -1 then 100 else old)
      then Some (if new = 15 then WARNING_LOW_BAT_ACT
                 else if new = 0 then POWER_OFF_BAT_ACT else CRITICAL_LOW_BAT_ACT)
      else None)"

fun alert_name :: "bat_act \<Rightarrow> string" where
  "alert_name Battery_warning_low_act = WARNING_LOW_BAT_ACT"
| "alert_name Battery_critical_low_act = CRITICAL_LOW_BAT_ACT"
| "alert_name Battery_power_off_act = POWER_OFF_BAT_ACT"

lemma bat_level_cases: "bat_level p \<in> {0, 1, 5, 15, 100}"
  by (simp add: bat_level_def)

lemma lpe_is_alert:
  assumes "old \<in> bat_states"
  shows "map_option alert_name (lpe_find old (bat_level p)) = bat_alert old (bat_level p)"
proof -
  have "map_option alert_name (lpe_find old new) = bat_alert old new" if "new \<in> {0, 1, 5, 15, 100}" for new
    using assms that unfolding bat_states_def
    by (elim insertE emptyE) (simp_all add: lpe_find_def lowbat_lpe_def battery_defs bat_alert_def)
  then show ?thesis using bat_level_cases .
qed

lemma bat_action_posts:
  assumes "alive s" "malloc_ok E"
  shows "queue_part (exec (bat_action E a) s) = post_action PREDEF_LOWBAT 1 [Some (alert_name a)] (queue_part s) \<and>
    alive (exec (bat_action E a) s) \<and> bat (exec (bat_action E a) s) = bat s"
proof -
  let ?s = "exec (send_named E ''LOW_POWER'') s"
  have "queue_part ?s = queue_part s" "alive ?s" "bat ?s = bat s"
    using assms(1) by (simp_all add: send_named_def ss_noti_send_def queue_part_def)
  then show ?thesis
    using call_internal_posts [OF _ assms(2)] assms(1)
    by (cases a) (simp_all add: SYSMAN_MAXARG_def)
qed

text \<open>The status key accepts what is written to it and can be read.\<close>

definition status_works :: "env \<Rightarrow> bool" where
  "status_works E \<longleftrightarrow> (\<forall>h. 0 \<le> e_ret E h (VCONF (Get_int VK_BATTERY_STATUS_LOW))) \<and>
     (\<forall>h v. 0 \<le> e_ret E h (VCONF (Set_int VK_BATTERY_STATUS_LOW v)))"

definition same_but_log :: "ss \<Rightarrow> ss \<Rightarrow> bool" where
  "same_but_log s t \<longleftrightarrow> queue_part t = queue_part s \<and> bat t = bat s \<and> alive t = alive s"

lemma same_but_log_refl [simp]: "same_but_log s s" "same_but_log s (log_call e t) = same_but_log s t"
  by (simp_all add: same_but_log_def queue_part_def)

lemma set_status_low_effect [simp]:
  "same_but_log t (exec (set_status_low E v k) s) = same_but_log t s"
  "status_works E \<Longrightarrow> 0 \<le> result (set_status_low E v k) s"
  by (simp_all add: set_status_low_def status_works_def)

lemma publish_level_effect:
  "fst (result (publish_level E cap v) s) = bat_level cap"
  "same_but_log s (exec (publish_level E cap v) s)"
  "status_works E \<Longrightarrow> 0 \<le> snd (result (publish_level E cap v) s)"
  by (simp_all add: publish_level_def bat_level_def battery_defs split: prod.split)

lemma is_charge_effect: "same_but_log s (exec (ss_lowbat_is_charge_in_now E) s)"
  by (simp add: ss_lowbat_is_charge_in_now_def ss_lowbat_set_charge_on_def split: prod.split)

lemma same_but_log_trans: "same_but_log s t \<Longrightarrow> same_but_log t u \<Longrightarrow> same_but_log s u"
  by (simp add: same_but_log_def)

definition alert_posts :: "int \<Rightarrow> int \<Rightarrow> queue_view \<Rightarrow> queue_view" where
  "alert_posts old new q =
     (case bat_alert old new of None \<Rightarrow> q | Some a \<Rightarrow> post_action PREDEF_LOWBAT 1 [Some a] q)"

lemma bat_transition_effect:
  assumes "alive s" "malloc_ok E" "cur_bat_state (bat s) \<in> bat_states"
  shows "bat (exec (bat_transition E (bat_level p)) s) = (bat s)\<lparr>cur_bat_state := bat_level p\<rparr> \<and>
    alive (exec (bat_transition E (bat_level p)) s) \<and>
    queue_part (exec (bat_transition E (bat_level p)) s) =
      alert_posts (cur_bat_state (bat s)) (bat_level p) (queue_part s)"
proof -
  let ?old = "cur_bat_state (bat s)" and ?new = "bat_level p"
  note al = lpe_is_alert [OF assms(3), of p]
  show ?thesis
  proof (cases "lpe_find ?old ?new")
    case None
    with al have "bat_alert ?old ?new = None" by simp
    with None assms(1) show ?thesis
      by (simp add: bat_transition_def alert_posts_def queue_part_def)
  next
    case (Some a)
    with al have alert: "bat_alert ?old ?new = Some (alert_name a)" by simp
    then have "?old \<noteq> ?new" using bat_level_cases [of p] by (auto simp: bat_alert_def)
    with Some alert bat_action_posts [OF assms(1,2), of a] show ?thesis
      by (simp add: bat_transition_def alert_posts_def queue_part_def)
  qed
qed

lemma publish_capacity_effect:
  assumes "alive s"
  shows "\<exists>c. same_but_log (s\<lparr>bat := (bat s)\<lparr>cur_bat_capacity := c\<rparr>\<rparr>) (exec (publish_capacity E p) s)"
proof -
  let ?t = "exec (publish_capacity E p) s"
  have "same_but_log (s\<lparr>bat := (bat s)\<lparr>cur_bat_capacity := cur_bat_capacity (bat ?t)\<rparr>\<rparr>) ?t"
    using assms by (simp add: publish_capacity_def same_but_log_def queue_part_def)
  then show ?thesis ..
qed

lemma lowbat_process_run:
  assumes "alive s" "0 \<le> p" "status_works E"
  shows "\<exists>s1 c. same_but_log (s\<lparr>bat := (bat s)\<lparr>cur_bat_capacity := c\<rparr>\<rparr>) s1 \<and>
    exec (lowbat_process E p) s = exec (bat_transition E (bat_level p)) s1"
proof -
  define s0 where "s0 = exec (publish_capacity E p) s"
  define g where "g = VCONF (Get_int VK_BATTERY_STATUS_LOW)"
  define v where "v = (case e_out E (trace s0) g of None \<Rightarrow> -1 | Some x \<Rightarrow> x)"
  define s1 where "s1 = exec (publish_level E p v) (log_call g s0)"
  define s2 where "s2 = exec (ss_lowbat_is_charge_in_now E) s1"
  obtain c where "same_but_log (s\<lparr>bat := (bat s)\<lparr>cur_bat_capacity := c\<rparr>\<rparr>) s0"
    unfolding s0_def using publish_capacity_effect [OF assms(1)] by blast
  moreover have "same_but_log (log_call g s0) s1" unfolding s1_def by (rule publish_level_effect(2))
  moreover have "same_but_log s1 s2" unfolding s2_def by (rule is_charge_effect)
  ultimately have "same_but_log (s\<lparr>bat := (bat s)\<lparr>cur_bat_capacity := c\<rparr>\<rparr>) s2"
    by (simp add: same_but_log_def queue_part_def)
  moreover have "exec (lowbat_process E p) s = exec (bat_transition E (bat_level p)) s2"
  proof -
    obtain lv r where lr: "result (publish_level E p v) (log_call g s0) = (lv, r)" by fastforce
    then have "lv = bat_level p" "\<not> r < 0"
      using publish_level_effect(1) [of E p v "log_call g s0"]
        publish_level_effect(3) [OF assms(3), of p v "log_call g s0"] by simp_all
    moreover have "\<not> e_ret E (trace s0) g < 0"
      using assms(3) by (simp add: status_works_def g_def not_less)
    ultimately show ?thesis
      using assms(2) lr
      by (simp add: lowbat_process_def s0_def [symmetric] g_def [symmetric]
          v_def [symmetric] s1_def [symmetric] s2_def [symmetric])
  qed
  ultimately show ?thesis by blast
qed

text \<open>
  One poll that reads \<open>p\<close>: the level, the queue and the published capacity.
\<close>

lemma lowbat_process_effect:
  assumes "alive s" "malloc_ok E" "0 \<le> p" "status_works E" "cur_bat_state (bat s) \<in> bat_states"
  shows "cur_bat_state (bat (exec (lowbat_process E p) s)) = bat_level p \<and>
    alive (exec (lowbat_process E p) s) \<and>
    bat_err_count (bat (exec (lowbat_process E p) s)) = bat_err_count (bat s) \<and>
    queue_part (exec (lowbat_process E p) s) =
      alert_posts (cur_bat_state (bat s)) (bat_level p) (queue_part s)"
proof -
  obtain s1 c where s1: "same_but_log (s\<lparr>bat := (bat s)\<lparr>cur_bat_capacity := c\<rparr>\<rparr>) s1"
    "exec (lowbat_process E p) s = exec (bat_transition E (bat_level p)) s1"
    using lowbat_process_run [OF assms(1,3,4)] by blast
  have "alive s1" "queue_part s1 = queue_part s" "bat s1 = (bat s)\<lparr>cur_bat_capacity := c\<rparr>"
    using s1(1) assms(1) by (simp_all add: same_but_log_def queue_part_def)
  then show ?thesis
    using bat_transition_effect [OF _ assms(2), of s1 p] assms(5) by (simp add: s1(2))
qed

section \<open>Properties\<close>

definition bat_env :: "int \<Rightarrow> env" where
  "bat_env p = env1\<lparr>e_out := (\<lambda>_ c. if c = OEM (Get OEM_battery_capacity) then Some p else None)\<rparr>"

definition bat_entry :: action_entry where
  "bat_entry = \<lparr>owner_pid = 1, ae_type = PREDEF_LOWBAT, ae_path = [],
     predefine_action = Fn_lowbat_def_predefine_action, ui_viewable = None, is_accessable = None\<rparr>"

definition bat_state_at :: "int \<Rightarrow> ss" where
  "bat_state_at lv = boot\<lparr>predef_act_list := [bat_entry], bat := (bat boot)\<lparr>cur_bat_state := lv\<rparr>\<rparr>"

lemma bat_env_ok: "malloc_ok (bat_env p)" "status_works (bat_env p)"
  by (simp_all add: bat_env_def malloc_ok_def status_works_def)

text \<open>What a poll that reads a capacity leaves.\<close>

lemma monitor_effect:
  assumes "alive s" "malloc_ok E" "status_works E" "cur_bat_state (bat s) \<in> bat_states"
    and "e_out E (trace s) (OEM (Get OEM_battery_capacity)) = Some p" "0 \<le> p"
  shows "alive (exec (ss_lowbat_monitor E) s) \<and> cur_bat_state (bat (exec (ss_lowbat_monitor E) s)) = bat_level (min p 100) \<and>
    queue_part (exec (ss_lowbat_monitor E) s) =
      alert_posts (cur_bat_state (bat s)) (bat_level (min p 100)) (queue_part s)"
proof -
  let ?s1 = "log_call (OEM (Get OEM_battery_capacity)) s"
  have m: "(if p > 100 then 100 else p) = min p 100" by simp
  have run: "exec (ss_lowbat_monitor E) s = log_call (ECORE (Timer_interval_set (lowbat_timer (bat s))
      (if result (lowbat_process E (min p 100)) ?s1 < 0 then BAT_MON_INTERVAL_MIN else BAT_MON_INTERVAL)))
      (exec (lowbat_process E (min p 100)) ?s1)"
    unfolding ss_lowbat_monitor_def lowbat_read_def m [symmetric] using assms(5,6) by simp
  have s1: "bat ?s1 = bat s" "queue_part ?s1 = queue_part s" "alive ?s1"
    using assms(1) by (simp_all add: queue_part_def)
  have "0 \<le> min p 100" using assms(6) by simp
  from lowbat_process_effect [OF s1(3) assms(2) this assms(3)] show ?thesis
    unfolding run using assms(4) s1 by (simp add: queue_part_def)
qed

text \<open>
  C15: Battery alerts.  A poll that reads a capacity moves the state to the level of that
  capacity (capped at 100) and queues exactly one alert when the level dropped below the
  previous one, or below normal when there was none, with the argument that belongs to
  the new level; otherwise it leaves the queue alone.
\<close>

theorem lowbat_alerts_exactly_on_drop:
  assumes "alive s" "malloc_ok E" "status_works E" "cur_bat_state (bat s) \<in> bat_states"
    and "e_out E (trace s) (OEM (Get OEM_battery_capacity)) = Some p" "0 \<le> p"
  shows "cur_bat_state (bat (exec (ss_lowbat_monitor E) s)) = bat_level (min p 100) \<and>
    queue_part (exec (ss_lowbat_monitor E) s) =
      alert_posts (cur_bat_state (bat s)) (bat_level (min p 100)) (queue_part s)"
  using monitor_effect [OF assms] by blast

lemma lowbat_alerts_exactly_on_drop_witness:
  "map (\<lambda>e. rq_argv e) (run_queue (exec (ss_lowbat_monitor (bat_env 4)) (bat_state_at 15))) =
     [[Some CRITICAL_LOW_BAT_ACT]]"
proof -
  have "queue_part (exec (ss_lowbat_monitor (bat_env 4)) (bat_state_at 15)) =
      alert_posts 15 5 (queue_part (bat_state_at 15))"
    using lowbat_alerts_exactly_on_drop [OF _ bat_env_ok, of "bat_state_at 15" 4 4]
    by (simp add: bat_state_at_def boot_def alive_def bat_states_def bat_env_def bat_level_def)
  then show ?thesis
    by (simp add: queue_part_def alert_posts_def bat_alert_def bat_state_at_def bat_entry_def)
qed

text \<open>
  Failed reads of the battery gauge are counted and never forgiven: a good reading
  leaves the count alone, and the monitor stops for good (its timer callback returns 0)
  at the eleventh failure since the daemon started, however long ago the others were.
\<close>

theorem read_errors_never_forgiven:
  assumes "alive s" "malloc_ok E" "status_works E" "cur_bat_state (bat s) \<in> bat_states"
    and "e_out E (trace s) (OEM (Get OEM_battery_capacity)) = Some p"
  shows "bat_err_count (bat (exec (ss_lowbat_monitor E) s)) = bat_err_count (bat s) + (if p < 0 then 1 else 0) \<and>
    (result (ss_lowbat_monitor E) s = 0 \<longleftrightarrow> p < 0 \<and> 10 \<le> bat_err_count (bat s))"
proof (cases "p < 0")
  case True
  then show ?thesis
    using assms(1,5) by (simp add: ss_lowbat_monitor_def lowbat_read_def MAX_BATTERY_ERROR_def)
next
  case False
  let ?s1 = "log_call (OEM (Get OEM_battery_capacity)) s"
  have "0 \<le> (if p > 100 then 100 else p)" using False by simp
  from lowbat_process_effect [OF _ assms(2) this assms(3), of ?s1] show ?thesis
    using False assms(1,4,5) by (simp add: ss_lowbat_monitor_def lowbat_read_def)
qed

lemma read_errors_never_forgiven_witness:
  "bat_err_count (bat (exec (ss_lowbat_monitor (bat_env (-1))) (bat_state_at 15))) = 1"
  using read_errors_never_forgiven [OF _ bat_env_ok, of "bat_state_at 15" "-1" "-1"]
  by (simp add: bat_state_at_def boot_def alive_def bat_states_def bat_env_def)

definition battery_write_ok :: "env \<Rightarrow> ecall \<Rightarrow> bool" where
  "battery_write_ok E c \<longleftrightarrow>
     (\<forall>v. c = VCONF (Set_int VK_BATTERY_CAPACITY v) \<longrightarrow> 0 \<le> v \<and> v \<le> 100) \<and>
     (\<forall>v. c = VCONF (Set_int VK_BATTERY_STATUS_LOW v) \<longrightarrow>
        v \<in> konst E ` {K_BAT_POWER_OFF, K_BAT_CRITICAL_LOW, K_BAT_WARNING_LOW, K_BAT_NORMAL, K_BAT_FULL})"

lemma emits_bat_action [emitsI]: "emits (battery_write_ok E) (bat_action E a)"
  unfolding send_named_def ss_noti_send_def
  by (cases a) (simp_all add: emitsI battery_write_ok_def send_named_def ss_noti_send_def)

lemma emits_set_status [emitsI]:
  "k \<in> {K_BAT_POWER_OFF, K_BAT_CRITICAL_LOW, K_BAT_WARNING_LOW, K_BAT_NORMAL, K_BAT_FULL} \<Longrightarrow>
     emits (battery_write_ok E) (set_status_low E v k)"
  unfolding set_status_low_def by (intro emitsI) (auto simp: battery_write_ok_def)

lemma emits_publish_level [emitsI]: "emits (battery_write_ok E) (publish_level E p v)"
  unfolding publish_level_def by (intro emitsI) (simp_all add: battery_write_ok_def)

lemma emits_publish_capacity: "0 \<le> p \<Longrightarrow> p \<le> 100 \<Longrightarrow> emits (battery_write_ok E) (publish_capacity E p)"
  unfolding publish_capacity_def by (intro emitsI) (simp add: battery_write_ok_def)

lemma emits_is_charge [emitsI]: "emits (battery_write_ok E) (ss_lowbat_is_charge_in_now E)"
  unfolding ss_lowbat_is_charge_in_now_def ss_lowbat_set_charge_on_def
  by (intro emitsI) (simp_all add: battery_write_ok_def)

lemma emits_transition [emitsI]: "emits (battery_write_ok E) (bat_transition E p)"
  unfolding bat_transition_def by (intro emitsI)

lemma emits_process: "p \<le> 100 \<Longrightarrow> emits (battery_write_ok E) (lowbat_process E p)"
proof (cases "p < 0")
  case True
  then show ?thesis by (simp add: lowbat_process_def emitsI)
next
  case False
  assume "p \<le> 100"
  with False have c: "emits (battery_write_ok E) (publish_capacity E p)"
    by (intro emits_publish_capacity) simp_all
  show ?thesis
    unfolding lowbat_process_def by (intro emitsI c) (simp add: battery_write_ok_def)
qed

lemma emits_monitor: "emits (battery_write_ok E) (ss_lowbat_monitor E)"
  unfolding ss_lowbat_monitor_def lowbat_read_def
  by (intro emitsI emits_process) (simp_all add: battery_write_ok_def)

text \<open>
  The monitor publishes a capacity only within 0 and 100 and, as battery status, only
  one of the five documented constants.
\<close>

theorem monitor_publishes_legal_values:
  "c \<in> set (trace (exec (ss_lowbat_monitor E) s)) \<Longrightarrow> c \<notin> set (trace s) \<Longrightarrow> battery_write_ok E c"
  using emits_trace [OF emits_monitor] by blast

lemma monitor_publishes_legal_values_witness:
  "battery_write_ok (bat_env 250) (VCONF (Set_int VK_BATTERY_CAPACITY 100))"
proof -
  have "VCONF (Set_int VK_BATTERY_CAPACITY 100) \<in> set (trace (exec (ss_lowbat_monitor (bat_env 250)) boot))"
    by (simp add: lowbat_defs bat_env_def boot_def alive_def log_call_def battery_defs lpe_find_def lowbat_lpe_def)
  then show ?thesis by (rule monitor_publishes_legal_values) simp
qed

end
