(* ===== verification/SS_Mmc.thy ===== *)
theory SS_Mmc
  imports SS_Noti
begin

text \<open>
  \<open>ss_mmc_handler.c\<close>: mounting, unmounting and formatting the SD card.  \<open>mmc_status\<close>
  is the daemon's copy of the vconf key of the same meaning.  The mode \<open>lstat\<close> stores is
  an int; the text read from a file of sysfs is what the environment gives for the
  \<open>read\<close>.
\<close>

section \<open>Finding the block device\<close>

definition MMC_DEV :: string where "MMC_DEV = ''/dev/mmcblk''"

definition S_ISDIR :: "int \<Rightarrow> bool" where "S_ISDIR m \<longleftrightarrow> (m div 4096) mod 16 = 4"
definition S_ISLNK :: "int \<Rightarrow> bool" where "S_ISLNK m \<longleftrightarrow> (m div 4096) mod 16 = 10"

definition mmc_type_path :: "string \<Rightarrow> string" where
  "mmc_type_path d_name = take 254 (''/sys/block/'' @ d_name @ ''/device/type'')"

text \<open>The buffer after the read: what it held, when the read failed.\<close>

definition read_type :: "env \<Rightarrow> string \<Rightarrow> (ss, string) state" where
  "read_type E d_name = do {
     fd \<leftarrow> call E (FS (Open (mmc_type_path d_name)));
     content \<leftarrow> peek_str E (FS (Read fd));
     r \<leftarrow> call E (FS (Read fd));
     call E (FS (Close fd));
     return (if r \<ge> 0 then take (nat (min r 10)) (str_or_empty content) else mmc_type_path d_name)
   }"

fun find_mmcblk :: "env \<Rightarrow> string list \<Rightarrow> (ss, int) state" where
  "find_mmcblk E [] = do { call E (FS (Closedir ''/sys/block'')); return (-1) }"
| "find_mmcblk E (d_name # ds) = do {
     (_, st_mode) \<leftarrow> call_out E (FS (Lstat d_name)) 0;
     if (S_ISDIR st_mode \<or> S_ISLNK st_mode) \<and> \<not> prefix ''.'' d_name \<and> prefix ''mmcblk'' d_name then do {
       buf \<leftarrow> read_type E d_name;
       if prefix ''SD'' buf then do {
         str_mmcblk_num \<leftarrow> call E (OS (Malloc 2));
         call E (FS (Closedir ''/sys/block''));
         return (if str_mmcblk_num = 0 then -1 else atoi (take 1 (drop 6 d_name)))
       } else find_mmcblk E ds
     } else find_mmcblk E ds
   }"

definition get_mmcblk_num :: "env \<Rightarrow> (ss, int) state" where
  "get_mmcblk_num E = do {
     dp \<leftarrow> call E (FS (Opendir ''/sys/block''));
     if dp = 0 then return (-1)
     else do {
       call E (FS (Chdir ''/sys/block''));
       names \<leftarrow> readdir_all E ''/sys/block'';
       find_mmcblk E names
     }
   }"

section \<open>The actions\<close>

definition ss_mmc_format :: "env \<Rightarrow> (ss, int) state" where
  "ss_mmc_format E = do { call E (SYSMAN Format_mmc); return 0 }"

text \<open>Setting the key and the copy; the second key says how the operation went.\<close>

definition publish_mmc :: "env \<Rightarrow> kname \<Rightarrow> vkey \<Rightarrow> kname \<Rightarrow> (ss, unit) state" where
  "publish_mmc E st key how = do {
     call E (VCONF (Set_int VK_MMC_STATUS (konst E st)));
     call E (VCONF (Set_int key (konst E how)));
     set_dev (\<lambda>d. d\<lparr>mmc_status := konst E st\<rparr>)
   }"

definition ss_mmc_unmounted :: "env \<Rightarrow> int \<Rightarrow> string option list \<Rightarrow> (ss, int) state" where
  "ss_mmc_unmounted E argc argv =
     (if argc < 1 then return (-1)
      else do {
        a0 \<leftarrow> deref (argv_at argv 0);
        if atoi a0 < 0 then return (-1)
        else do {
          r \<leftarrow> call E (FS (Umount MMC_MOUNT_POINT (atoi a0)));
          if r \<noteq> 0 then do {
            call E (VCONF (Set_int VK_MMC_UNMOUNT (konst E K_MMC_UNMOUNT_FAILED)));
            return (-1)
          } else do {
            publish_mmc E K_MMC_INSERTED_NOT_MOUNTED VK_MMC_UNMOUNT K_MMC_UNMOUNT_COMPLETED;
            return 0
          }
        }
      })"

definition mmc_mount :: "env \<Rightarrow> string \<Rightarrow> (ss, int) state" where
  "mmc_mount E devname = call E (FS (Mount devname MMC_MOUNT_POINT ''vfat''))"

text \<open>The loop over the first partition: the argument counts the retries left.\<close>

fun mount_partition :: "env \<Rightarrow> int \<Rightarrow> nat \<Rightarrow> (ss, bool) state" where
  "mount_partition E blk_num n = do {
     ret \<leftarrow> mmc_mount E (take (NAME_MAX - 1) (MMC_DEV @ show_int blk_num @ ''p1''));
     if ret = 0 then return True
     else do {
       call E (OS (Usleep 100000));
       errno \<leftarrow> get_errno E;
       if ret = -1 \<and> errno = ENOENT then
         (case n of 0 \<Rightarrow> return False | Suc m \<Rightarrow> mount_partition E blk_num m)
       else return False
     }
   }"

declare mount_partition.simps [simp del]

text \<open>The whole device first, then the first partition.\<close>

definition mount_card :: "env \<Rightarrow> int \<Rightarrow> (ss, bool) state" where
  "mount_card E blk_num = do {
     r \<leftarrow> mmc_mount E (take (NAME_MAX - 1) (MMC_DEV @ show_int blk_num));
     if r = 0 then return True else mount_partition E blk_num 10
   }"

definition ss_mmc_inserted :: "env \<Rightarrow> (ss, int) state" where
  "ss_mmc_inserted E = do {
     st \<leftarrow> getv (\<lambda>s. mmc_status (dev s));
     if st = konst E K_MMC_MOUNTED then do {
       call E (VCONF (Set_int VK_MMC_STATUS (konst E K_MMC_MOUNTED)));
       call E (VCONF (Set_int VK_MMC_MOUNT (konst E K_MMC_MOUNT_ALREADY)));
       return (-1)
     } else do {
       acc \<leftarrow> call E (FS (Access MMC_MOUNT_POINT));
       (if acc \<noteq> 0 then do { call E (FS (Mkdir MMC_MOUNT_POINT 493)); return () } else return ());
       blk_num \<leftarrow> get_mmcblk_num E;
       if blk_num = -1 then do {
         publish_mmc E K_MMC_REMOVED VK_MMC_MOUNT K_MMC_MOUNT_FAILED;
         return 0
       } else do {
         ok \<leftarrow> mount_card E blk_num;
         if ok then do {
           publish_mmc E K_MMC_MOUNTED VK_MMC_MOUNT K_MMC_MOUNT_COMPLETED;
           return 0
         } else do {
           publish_mmc E K_MMC_INSERTED_NOT_MOUNTED VK_MMC_MOUNT K_MMC_MOUNT_FAILED;
           return (-1)
         }
       }
     }
   }"

definition ss_mmc_removed :: "env \<Rightarrow> (ss, int) state" where
  "ss_mmc_removed E = do {
     call E (VCONF (Set_int VK_MMC_STATUS (konst E K_MMC_REMOVED)));
     call E (FS (Umount MMC_MOUNT_POINT MNT_DETACH));
     set_dev (\<lambda>d. d\<lparr>mmc_status := konst E K_MMC_REMOVED\<rparr>);
     return 0
   }"

definition ss_mmc_init :: "env \<Rightarrow> (ss, int) state" where
  "ss_mmc_init E = do {
     ss_mmc_inserted E;
     ss_action_entry_add_internal E PREDEF_MOUNT_MMC (Some Fn_ss_mmc_inserted) None None;
     ss_action_entry_add_internal E PREDEF_UNMOUNT_MMC (Some Fn_ss_mmc_unmounted) None None;
     ss_action_entry_add_internal E PREDEF_FORMAT_MMC (Some Fn_ss_mmc_format) None None;
     return 0
   }"

section \<open>Frames\<close>

lemma find_mmcblk_rules:
  "frame queue_part (find_mmcblk E ds)" "obeys_halt (find_mmcblk E ds)"
  by (induction ds) (auto intro!: frames stops simp: read_type_def)

lemma mount_partition_rules:
  "frame queue_part (mount_partition E b n)" "obeys_halt (mount_partition E b n)"
proof -
  show "frame queue_part (mount_partition E b n)"
    by (induction n) (auto intro!: frames simp: mount_partition.simps mmc_mount_def)
  show "obeys_halt (mount_partition E b n)"
    by (induction n) (auto intro!: stops simp: mount_partition.simps mmc_mount_def)
qed

lemmas mmc_defs = ss_mmc_inserted_def ss_mmc_removed_def ss_mmc_unmounted_def ss_mmc_format_def
  mount_card_def mmc_mount_def publish_mmc_def get_mmcblk_num_def

lemma frames_mmc [frames]:
  "frame queue_part (ss_mmc_inserted E)" "frame queue_part (ss_mmc_removed E)"
  "frame queue_part (ss_mmc_unmounted E argc argv)" "frame queue_part (ss_mmc_format E)"
  unfolding mmc_defs by (intro frames light_deref find_mmcblk_rules mount_partition_rules)+

lemma stops_mmc [stops]:
  "obeys_halt (ss_mmc_inserted E)" "obeys_halt (ss_mmc_removed E)"
  "obeys_halt (ss_mmc_unmounted E argc argv)" "obeys_halt (ss_mmc_format E)"
  unfolding mmc_defs by (intro stops find_mmcblk_rules mount_partition_rules)+

section \<open>The copy of the published status\<close>

fun mmc_published :: "hist \<Rightarrow> int option" where
  "mmc_published [] = None"
| "mmc_published (c # h) =
     (case c of VCONF (Set_int k v) \<Rightarrow> if k = VK_MMC_STATUS then Some v else mmc_published h
      | _ \<Rightarrow> mmc_published h)"

definition mmc_mirror :: "ss \<Rightarrow> bool" where
  "mmc_mirror s \<longleftrightarrow> (\<forall>v. mmc_published (trace s) = Some v \<longrightarrow> v = mmc_status (dev s))"

definition mmc_quiet :: "ecall \<Rightarrow> bool" where
  "mmc_quiet c \<longleftrightarrow> (\<forall>v. c \<noteq> VCONF (Set_int VK_MMC_STATUS v))"

lemma published_quiet [simp]: "mmc_quiet c \<Longrightarrow> mmc_published (c # h) = mmc_published h"
  by (simp add: mmc_quiet_def split: ecall.split vconf_call.split)

lemma mirror_log [simp]: "mmc_quiet c \<Longrightarrow> mmc_mirror (log_call c s) = mmc_mirror s"
  by (simp add: mmc_mirror_def del: mmc_published.simps)

lemma mirror_quiet_calls:
  "mmc_quiet c \<Longrightarrow> pres mmc_mirror (call E c)" "mmc_quiet c \<Longrightarrow> pres mmc_mirror (call_out E c v)"
  by (simp_all add: pres_def)

lemma mirror_halt: "pres mmc_mirror (halt f)" "pres mmc_mirror (deref p)"
  by (simp_all add: pres_def mmc_mirror_def)

lemma mirror_publish: "key \<noteq> VK_MMC_STATUS \<Longrightarrow> pres mmc_mirror (publish_mmc E st key how)"
  by (simp add: pres_def publish_mmc_def mmc_mirror_def)

lemma mirror_find: "pres mmc_mirror (find_mmcblk E ds)"
  by (induction ds) (auto intro!: presI mirror_quiet_calls simp: read_type_def mmc_quiet_def)

lemma mirror_partition: "pres mmc_mirror (mount_partition E b n)"
  by (induction n)
    (auto intro!: presI mirror_quiet_calls simp: mount_partition.simps mmc_mount_def mmc_quiet_def)

lemma mirror_inserted: "pres mmc_mirror (ss_mmc_inserted E)"
proof -
  define rest where "rest = do {
       acc \<leftarrow> call E (FS (Access MMC_MOUNT_POINT));
       (if acc \<noteq> 0 then do { call E (FS (Mkdir MMC_MOUNT_POINT 493)); return () } else return ());
       blk_num \<leftarrow> get_mmcblk_num E;
       if blk_num = -1 then do {
         publish_mmc E K_MMC_REMOVED VK_MMC_MOUNT K_MMC_MOUNT_FAILED;
         return (0 :: int)
       } else do {
         ok \<leftarrow> mount_card E blk_num;
         if ok then do {
           publish_mmc E K_MMC_MOUNTED VK_MMC_MOUNT K_MMC_MOUNT_COMPLETED;
           return 0
         } else do {
           publish_mmc E K_MMC_INSERTED_NOT_MOUNTED VK_MMC_MOUNT K_MMC_MOUNT_FAILED;
           return (-1)
         }
       }
     }"
  have "pres mmc_mirror rest"
    unfolding rest_def get_mmcblk_num_def mount_card_def mmc_mount_def
    by (intro presI mirror_quiet_calls mirror_publish mirror_find mirror_partition;
        simp add: mmc_quiet_def)
  then show ?thesis
    by (auto simp: pres_def ss_mmc_inserted_def rest_def [symmetric] mmc_mirror_def)
qed

section \<open>Properties\<close>

definition mmc_env :: env where
  "mmc_env = env1\<lparr>e_ret := (\<lambda>h c. case c of FS (Mount d p t) \<Rightarrow> if d = ''/dev/mmcblk1'' then -1 else 0
       | FS (Umount p f) \<Rightarrow> 0 | FS (Read fd) \<Rightarrow> 2 | _ \<Rightarrow> 1),
     e_out := (\<lambda>_ _. Some 16384), e_dir := (\<lambda>_ _. [''.'', ''mmcblk1'']),
     e_str := (\<lambda>_ _. Some ''SD''), konst := (\<lambda>k. if k = K_MMC_MOUNTED then 1 else 0)\<rparr>"

text \<open>
  The daemon's own copy of the card status never disagrees with the status it
  published last: inserting, unmounting and removing the card keep the two equal, on
  every path, whatever fails.
\<close>

theorem mmc_status_mirrors_vconf:
  assumes "mmc_mirror s"
  shows "mmc_mirror (exec (ss_mmc_inserted E) s) \<and> mmc_mirror (exec (ss_mmc_removed E) s) \<and>
    mmc_mirror (exec (ss_mmc_unmounted E argc argv) s)"
proof -
  have "pres mmc_mirror (ss_mmc_unmounted E argc argv)"
    unfolding ss_mmc_unmounted_def
    by (intro presI mirror_quiet_calls mirror_publish mirror_halt; simp add: mmc_quiet_def)
  moreover have "mmc_mirror (exec (ss_mmc_removed E) s)"
    using assms by (simp add: ss_mmc_removed_def mmc_mirror_def)
  ultimately show ?thesis using assms mirror_inserted by (simp add: pres_def)
qed

lemma mmc_status_mirrors_vconf_witness:
  "mmc_mirror (exec (ss_mmc_inserted mmc_env) boot)"
  using mmc_status_mirrors_vconf [of boot mmc_env] by (simp add: mmc_mirror_def)

definition mounts :: "hist \<Rightarrow> nat" where
  "mounts h = length (filter (\<lambda>c. case c of FS (Mount d p t) \<Rightarrow> True | _ \<Rightarrow> False) h)"

lemma mounts_Cons [simp]:
  "mounts (c # h) = (case c of FS (Mount d p t) \<Rightarrow> Suc (mounts h) | _ \<Rightarrow> mounts h)"
  by (simp add: mounts_def split: ecall.split fs_call.split)

lemma mounts_find: "mounts (trace (exec (find_mmcblk E ds) s)) = mounts (trace s)"
  by (induction ds arbitrary: s) (simp_all add: read_type_def split: prod.split)

lemma mounts_partition: "mounts (trace (exec (mount_partition E b n) s)) \<le> mounts (trace s) + Suc n"
proof (induction n arbitrary: s)
  case 0
  then show ?case by (subst mount_partition.simps) (simp add: mmc_mount_def)
next
  case (Suc n)
  let ?m = "FS (Mount (take (NAME_MAX - 1) (MMC_DEV @ show_int b @ ''p1'')) MMC_MOUNT_POINT ''vfat'')"
  show ?case
    using Suc [of "log_call (OS (Usleep 100000)) (log_call ?m s)"]
    by (subst mount_partition.simps) (auto simp: mmc_mount_def)
qed

text \<open>
  Inserting a card tries to mount at most twelve times (the whole device once, its
  first partition at most eleven times), so the handler ends.
\<close>

theorem mmc_insert_bounded_mounts:
  "mounts (trace (exec (ss_mmc_inserted E) s)) \<le> mounts (trace s) + 12"
proof -
  have publish: "mounts (trace (exec (publish_mmc E st key how) t)) = mounts (trace t)" for st key how t
    by (simp add: publish_mmc_def)
  have num: "mounts (trace (exec (get_mmcblk_num E) t)) = mounts (trace t)" for t
    by (simp add: get_mmcblk_num_def mounts_find)
  have card: "mounts (trace (exec (mount_card E b) t)) \<le> mounts (trace t) + 12" for b t
    using mounts_partition [of E b 10 "log_call (FS (Mount (take (NAME_MAX - 1) (MMC_DEV @ show_int b)) MMC_MOUNT_POINT ''vfat'')) t"]
    by (auto simp: mount_card_def mmc_mount_def)
  have "mounts (trace (exec (mount_card E b) (exec (get_mmcblk_num E) u))) \<le> mounts (trace s) + 12"
    if "mounts (trace u) = mounts (trace s)" for b u
    using card [of b "exec (get_mmcblk_num E) u"] num [of u] that by simp
  then show ?thesis
    by (simp add: ss_mmc_inserted_def publish num)
qed

text \<open>
  The number of the block device is one decimal digit or the failure value: a card
  on a device with a number of two digits is looked for on another device.
\<close>

theorem block_number_is_one_digit:
  "result (get_mmcblk_num E) s \<in> {-1 .. 9}"
proof -
  have digit: "atoi (take 1 xs) \<in> {-1 .. 9}" for xs
  proof (cases xs)
    case Nil
    then show ?thesis by (simp add: atoi_def)
  next
    case (Cons c cs)
    then show ?thesis
      by (auto simp: atoi_def sat32_def isdigit_def INT_MAX_def INT_MIN_def)
  qed
  have "result (find_mmcblk E ds) u \<in> {-1 .. 9}" for ds u
    by (induction ds arbitrary: u) (use digit in \<open>auto split: prod.split\<close>)
  then show ?thesis by (simp add: get_mmcblk_num_def)
qed

end
