(* ===== verification/SS_Launch.thy ===== *)
theory SS_Launch
  imports SS_Data
begin

text \<open>
  \<open>ss_launch.c\<close>: splitting a command line into arguments and starting a program.

  \<open>fork\<close> returns once in each process; a computation follows the process its result
  says: with a positive result the daemon goes on, with result 0 the state is the
  child's, which ends in \<open>Execed\<close> or, when \<open>execvp\<close> comes back, in \<open>exit\<close>.  The
  variadic functions read their flag from the argument list; no caller passes one, so
  what they read is indeterminate (\<open>get_junk\<close>).
\<close>

section \<open>parse_cmd\<close>

definition MAX_ARGS :: nat where "MAX_ARGS = 255"

record parse_state =
  p_escape :: bool
  p_squote :: bool
  p_dquote :: bool
  p_buf :: string
  p_argv :: "string list"

definition parse_init :: parse_state where
  "parse_init = \<lparr>p_escape = False, p_squote = False, p_dquote = False, p_buf = [], p_argv = []\<rparr>"

definition put_char :: "char \<Rightarrow> parse_state \<Rightarrow> parse_state" where
  "put_char c st = st\<lparr>p_buf := p_buf st @ [c]\<rparr>"

definition store_arg :: "nat \<Rightarrow> parse_state \<Rightarrow> parse_state" where
  "store_arg max_args st =
     (if length (p_argv st) < max_args then st\<lparr>p_argv := p_argv st @ [p_buf st]\<rparr> else st)"

definition parse_char :: "nat \<Rightarrow> char \<Rightarrow> parse_state \<Rightarrow> parse_state" where
  "parse_char max_args c st =
     (if p_escape st then (put_char c st)\<lparr>p_escape := False\<rparr>
      else if c = CHR 0x5C then st\<lparr>p_escape := True\<rparr>
      else if c = CHR 0x22 then
        (if p_squote st then put_char c st else st\<lparr>p_dquote := \<not> p_dquote st\<rparr>)
      else if c = CHR 0x27 then
        (if p_dquote st then put_char c st else st\<lparr>p_squote := \<not> p_squote st\<rparr>)
      else if c = CHR '' '' \<and> \<not> p_squote st \<and> \<not> p_dquote st then
        (store_arg max_args st)\<lparr>p_buf := []\<rparr>
      else put_char c st)"

fun parse_chars :: "nat \<Rightarrow> string \<Rightarrow> parse_state \<Rightarrow> parse_state" where
  "parse_chars max_args [] st = st"
| "parse_chars max_args (c # cs) st = parse_chars max_args cs (parse_char max_args c st)"

definition parse_finish :: "nat \<Rightarrow> parse_state \<Rightarrow> parse_state" where
  "parse_finish max_args st = (if p_buf st \<noteq> [] then store_arg max_args st else st)"

text \<open>The strings stored in \<open>argv\<close>, before the closing NULL.\<close>

definition parse_args :: "nat \<Rightarrow> string \<Rightarrow> string list" where
  "parse_args max_args cmdline =
     p_argv (parse_finish max_args (parse_chars max_args cmdline parse_init))"

text \<open>
  The result is \<open>nargs\<close>, which counts the NULL, and the arguments.  The NULL goes to
  \<open>argv[nargs]\<close> without a check, past the end when all \<open>max_args\<close> slots are taken.
\<close>

definition parse_cmd :: "env \<Rightarrow> string option \<Rightarrow> nat \<Rightarrow> (ss, int \<times> string list) state" where
  "parse_cmd E cmdline max_args =
     (case cmdline of
        None \<Rightarrow> return (-1, [])
      | Some str \<Rightarrow>
          if str = [] then return (-1, [])
          else do {
            buf \<leftarrow> call E (OS (Malloc (int (length str) + 1)));
            if buf = 0 then return (-1, [])
            else do {
              let args = parse_args max_args str;
              (if length args < max_args then return () else halt OutOfBounds);
              return (int (length args) + 1, args)
            }
          })"

section \<open>Starting a program\<close>

definition ss_set_current_lang :: "env \<Rightarrow> (ss, int) state" where
  "ss_set_current_lang E = do {
     lang \<leftarrow> call_str E (VCONF (Get_str VK_LANGSET));
     case lang of
       None \<Rightarrow> return (-1)
     | Some l \<Rightarrow> do {
         ret \<leftarrow> call E (OS (Setenv ''LANG'' l));
         return (if ret < 0 then -1 else 0)
       }
   }"

definition NSIG :: int where "NSIG = 65"

definition prepare_exec :: "env \<Rightarrow> (ss, unit) state" where
  "prepare_exec E = do {
     maxfd \<leftarrow> call E (OS Getdtablesize);
     for_each (\<lambda>i. do { call E (FS (Close i)); return () }) [3..maxfd - 1];
     for_each (\<lambda>i. do { call E (OS (Signal i)); return () }) [0..NSIG - 1];
     pid \<leftarrow> call E (OS Getpid);
     ok \<leftarrow> fopen E (oom_adj_path pid) Wr;
     if ok then fprintf E (oom_adj_path pid) (show_int 0) else return ()
   }"

definition launch_app_child :: "env \<Rightarrow> string \<Rightarrow> string list \<Rightarrow> int \<Rightarrow> (ss, int) state" where
  "launch_app_child E file argv nc = do {
     prepare_exec E;
     call E (OS (Nice nc));
     ret \<leftarrow> call E (OS (Execvp file argv));
     if ret = -1 then return (-2) else do { halt Execed; return (-2) }
   }"

text \<open>\<open>pid\<close> is the variable the pointer argument points to, None for a NULL pointer.\<close>

definition launch_app_with_nice ::
  "env \<Rightarrow> string option \<Rightarrow> string list \<Rightarrow> int option \<Rightarrow> int \<Rightarrow> (ss, int \<times> int option) state" where
  "launch_app_with_nice E file argv pid nc =
     (case file of
        None \<Rightarrow> return (-1, pid)
      | Some f \<Rightarrow> do {
          acc \<leftarrow> call E (FS (Access f));
          if acc \<noteq> 0 then return (-1, pid)
          else do {
            exists \<leftarrow> (case pid of
                None \<Rightarrow> return False
              | Some p \<Rightarrow> if p > 0 then do { k \<leftarrow> call E (OS (Kill p 0)); return (k \<noteq> -1) }
                          else return False);
            if exists then return (the pid, pid)
            else do {
              forked \<leftarrow> call E (OS Fork);
              if forked = -1 then return (-1, pid)
              else if forked > 0 then return (forked, map_option (\<lambda>_. forked) pid)
              else do { r \<leftarrow> launch_app_child E f argv nc; return (r, pid) }
            }
          }
        })"

definition launch_app_cmd_with_nice :: "env \<Rightarrow> string option \<Rightarrow> int \<Rightarrow> (ss, int) state" where
  "launch_app_cmd_with_nice E cmdline nc = do {
     (nargs, args) \<leftarrow> parse_cmd E cmdline (MAX_ARGS + 1);
     if nargs = -1 then return (-1)
     else do {
       (ret, _) \<leftarrow> launch_app_with_nice E (case args of [] \<Rightarrow> None | a # _ \<Rightarrow> Some a) args None nc;
       return ret
     }
   }"

definition launch_app_cmd :: "env \<Rightarrow> string option \<Rightarrow> (ss, int) state" where
  "launch_app_cmd E cmdline = launch_app_cmd_with_nice E cmdline 0"

text \<open>Bit 1 of the flag, \<open>SS_LAUNCH_NICE\<close>.\<close>

definition flag_nice :: "int \<Rightarrow> bool" where
  "flag_nice flag \<longleftrightarrow> odd (flag div 2)"

definition read_nice_flag :: "env \<Rightarrow> (ss, int) state" where
  "read_nice_flag E = do {
     flag \<leftarrow> get_junk E;
     if flag_nice flag then get_junk E else return 0
   }"

text \<open>The common end of the three launchers: build the command line, start it.\<close>

definition launch_tail :: "env \<Rightarrow> string \<Rightarrow> string option \<Rightarrow> int \<Rightarrow> (ss, int) state" where
  "launch_tail E path arg nice_value = do {
     ss_set_current_lang E;
     buf \<leftarrow> call E (OS (Malloc (int (length path) + int (length (str_or_empty arg)) + 10)));
     if buf = 0 then return (-1)
     else do {
       pid \<leftarrow> launch_app_cmd_with_nice E (Some (path @ '' '' @ str_or_empty arg)) nice_value;
       (if pid = -2 then halt (Exited 0) else return ());
       return pid
     }
   }"

text \<open>
  The test is written \<open>pid = sysman_get_pid(execpath) > 0\<close>, which assigns the value
  of the comparison.
\<close>

definition ss_launch_if_noexist :: "env \<Rightarrow> string option \<Rightarrow> string option \<Rightarrow> (ss, int) state" where
  "ss_launch_if_noexist E execpath arg =
     (case execpath of
        None \<Rightarrow> return (-1)
      | Some path \<Rightarrow> do {
          running \<leftarrow> call E (SYSMAN (Get_pid path));
          let pid = (if running > 0 then 1 else 0 :: int);
          if pid \<noteq> 0 then return pid
          else do {
            nice_value \<leftarrow> read_nice_flag E;
            launch_tail E path arg nice_value
          }
        })"

definition ss_launch_evenif_exist :: "env \<Rightarrow> string option \<Rightarrow> string option \<Rightarrow> (ss, int) state" where
  "ss_launch_evenif_exist E execpath arg =
     (case execpath of
        None \<Rightarrow> return (-1)
      | Some path \<Rightarrow> do {
          nice_value \<leftarrow> read_nice_flag E;
          launch_tail E path arg nice_value
        })"

definition ss_launch_after_kill_if_exist ::
  "env \<Rightarrow> string option \<Rightarrow> string option \<Rightarrow> (ss, int) state" where
  "ss_launch_after_kill_if_exist E execpath arg =
     (case execpath of
        None \<Rightarrow> return (-1)
      | Some path \<Rightarrow> do {
          exist_pid \<leftarrow> call E (SYSMAN (Get_pid path));
          (if exist_pid > 0 then do { call E (OS (Kill exist_pid SIGTERM)); return () } else return ());
          nice_value \<leftarrow> read_nice_flag E;
          launch_tail E path arg nice_value
        })"

section \<open>The argument splitter\<close>

lemma parse_chars_append:
  "parse_chars m (cs @ ds) st = parse_chars m ds (parse_chars m cs st)"
  by (induction cs arbitrary: st) auto

lemmas parse_defs = put_char_def store_arg_def parse_char_def parse_finish_def

text \<open>
  The characters kept so far never outnumber those read: the write position in the
  buffer of \<open>strlen(cmdline) + 1\<close> bytes stays inside it, closing NUL included.
\<close>

definition kept :: "parse_state \<Rightarrow> nat" where
  "kept st = length (p_buf st) + length (concat (p_argv st))"

lemma kept_parse_char: "kept (parse_char m c st) \<le> Suc (kept st)"
  by (simp add: parse_defs kept_def)

lemma kept_parse_chars: "kept (parse_chars m cs st) \<le> kept st + length cs"
proof (induction cs arbitrary: st)
  case Nil
  then show ?case by simp
next
  case (Cons c cs)
  show ?case using Cons [of "parse_char m c st"] kept_parse_char [of m c st] by simp
qed

text \<open>A smaller array keeps the first arguments of a larger one.\<close>

definition trunc :: "nat \<Rightarrow> parse_state \<Rightarrow> parse_state" where
  "trunc m st = st\<lparr>p_argv := take m (p_argv st)\<rparr>"

lemma trunc_parse_char: "m \<le> M \<Longrightarrow> parse_char m c (trunc m st) = trunc m (parse_char M c st)"
  by (cases st) (simp add: parse_defs trunc_def)

lemma trunc_parse_chars: "m \<le> M \<Longrightarrow> parse_chars m cs (trunc m st) = trunc m (parse_chars M cs st)"
  by (induction cs arbitrary: st) (simp_all add: trunc_parse_char)

lemma trunc_finish: "m \<le> M \<Longrightarrow> parse_finish m (trunc m st) = trunc m (parse_finish M st)"
  by (cases st) (simp add: parse_defs trunc_def)

lemma parse_args_take:
  assumes "m \<le> M"
  shows "parse_args m str = take m (parse_args M str)"
proof -
  have i: "trunc m parse_init = parse_init" by (simp add: trunc_def parse_init_def)
  have "parse_args m str = p_argv (trunc m (parse_finish M (parse_chars M str parse_init)))"
    using trunc_parse_chars [OF assms, of str parse_init] trunc_finish [OF assms]
    by (simp add: parse_args_def i)
  then show ?thesis by (simp add: trunc_def parse_args_def)
qed

lemma argc_parse_char: "length (p_argv (parse_char m c st)) \<le> Suc (length (p_argv st))"
  by (simp add: parse_defs)

lemma argc_parse_chars: "length (p_argv (parse_chars m cs st)) \<le> length (p_argv st) + length cs"
proof (induction cs arbitrary: st)
  case Nil
  then show ?case by simp
next
  case (Cons c cs)
  show ?case using Cons [of "parse_char m c st"] argc_parse_char [of m c st] by simp
qed

text \<open>All the arguments of a command line, as an array that is large enough receives them.\<close>

definition all_args :: "string \<Rightarrow> string list" where
  "all_args str = parse_args (Suc (length str)) str"

lemma length_all_args: "length (all_args str) \<le> Suc (length str)"
  using argc_parse_chars [of "Suc (length str)" str parse_init]
  by (simp add: all_args_def parse_args_def parse_finish_def store_arg_def parse_init_def)

lemma parse_args_all: "parse_args m str = take m (all_args str)"
proof -
  have len: "length (parse_args M str) \<le> Suc (length str)" for M
    using argc_parse_chars [of M str parse_init]
    by (simp add: parse_args_def parse_finish_def store_arg_def parse_init_def)
  define N where "N = max m (Suc (length str))"
  have "all_args str = take (Suc (length str)) (parse_args N str)"
    unfolding all_args_def by (rule parse_args_take) (simp add: N_def)
  then have "all_args str = parse_args N str" using len [of N] by simp
  moreover have "parse_args m str = take m (parse_args N str)"
    by (rule parse_args_take) (simp add: N_def)
  ultimately show ?thesis by simp
qed

lemma parse_cmd_overflow:
  assumes "alive s" "str \<noteq> []" "e_ret E (trace s) (OS (Malloc (int (length str) + 1))) \<noteq> 0"
  shows "halted (exec (parse_cmd E (Some str) m) s) =
    (if length (all_args str) < m then None else Some OutOfBounds)"
  using assms by (auto simp: parse_cmd_def parse_args_all alive_def [symmetric] Let_def)

section \<open>Quoting and plain command lines\<close>

text \<open>A command line that carries given arguments: every character behind a backslash.\<close>

definition quote_arg :: "string \<Rightarrow> string" where
  "quote_arg w = concat (map (\<lambda>c. [CHR 0x5C, c]) w)"

fun cmd_of :: "string list \<Rightarrow> string" where
  "cmd_of [] = []"
| "cmd_of [w] = quote_arg w"
| "cmd_of (w # ws) = quote_arg w @ CHR '' '' # cmd_of ws"

text \<open>An empty argument at the end leaves no trace in it.\<close>

definition heard :: "string list \<Rightarrow> string list" where
  "heard ws = (if ws \<noteq> [] \<and> last ws = [] then butlast ws else ws)"

lemma heard_Cons: "heard (w # v # vs) = w # heard (v # vs)"
  by (simp add: heard_def)

lemma cmd_of_empty: "cmd_of ws = [] \<longleftrightarrow> ws = [] \<or> ws = [[]]"
  by (cases ws rule: cmd_of.cases) (auto simp: quote_arg_def)

text \<open>Between two arguments the splitter is in this state.\<close>

definition between :: "string list \<Rightarrow> parse_state" where
  "between ws = parse_init\<lparr>p_argv := ws\<rparr>"

lemma parse_quote:
  "\<not> p_escape st \<Longrightarrow> parse_chars m (quote_arg w) st = st\<lparr>p_buf := p_buf st @ w\<rparr>"
proof (induction w arbitrary: st)
  case Nil
  then show ?case by (simp add: quote_arg_def)
next
  case (Cons c w)
  have "parse_chars m (quote_arg (c # w)) st =
      parse_chars m (quote_arg w) (st\<lparr>p_buf := p_buf st @ [c]\<rparr>)"
    using Cons.prems by (cases st) (simp add: quote_arg_def parse_defs)
  also have "\<dots> = st\<lparr>p_buf := p_buf st @ c # w\<rparr>"
    using Cons by simp
  finally show ?case .
qed

lemma parse_cmd_of:
  assumes "ws \<noteq> []" "length us + length ws \<le> m"
  shows "p_argv (parse_finish m (parse_chars m (cmd_of ws) (between us))) = us @ heard ws"
  using assms
proof (induction ws arbitrary: us rule: cmd_of.induct)
  case 1
  then show ?case by simp
next
  case (2 w)
  have "parse_chars m (quote_arg w) (between us) = (between us)\<lparr>p_buf := w\<rparr>"
    by (simp add: parse_quote between_def parse_init_def)
  with "2.prems" show ?case
    by (simp add: parse_finish_def store_arg_def between_def parse_init_def heard_def)
next
  case (3 w v vs)
  have "parse_chars m (cmd_of (w # v # vs)) (between us) =
      parse_chars m (cmd_of (v # vs)) (parse_char m (CHR '' '') ((between us)\<lparr>p_buf := w\<rparr>))"
    by (simp add: parse_chars_append parse_quote between_def parse_init_def)
  also have "parse_char m (CHR '' '') ((between us)\<lparr>p_buf := w\<rparr>) = between (us @ [w])"
    using "3.prems" by (simp add: parse_defs between_def parse_init_def)
  finally have step: "parse_chars m (cmd_of (w # v # vs)) (between us) =
      parse_chars m (cmd_of (v # vs)) (between (us @ [w]))" .
  show ?case
    unfolding step using "3.IH" [of "us @ [w]"] "3.prems" by (simp add: heard_Cons)
qed

text \<open>Without quotes and backslashes the splitter cuts at spaces.\<close>

definition plain_char :: "char \<Rightarrow> bool" where
  "plain_char c \<longleftrightarrow> c \<noteq> CHR 0x5C \<and> c \<noteq> CHR 0x22 \<and> c \<noteq> CHR 0x27"

fun fields :: "string \<Rightarrow> string \<Rightarrow> string list" where
  "fields w [] = (if w = [] then [] else [w])"
| "fields w (c # cs) = (if c = CHR '' '' then w # fields [] cs else fields (w @ [c]) cs)"

lemma parse_plain:
  assumes "\<forall>c \<in> set cs. plain_char c" "length us + length (fields w cs) \<le> m"
  shows "p_argv (parse_finish m (parse_chars m cs ((between us)\<lparr>p_buf := w\<rparr>))) = us @ fields w cs"
  using assms
proof (induction cs arbitrary: us w)
  case Nil
  then show ?case
    by (cases "w = []") (auto simp: parse_finish_def store_arg_def between_def parse_init_def)
next
  case (Cons c cs)
  show ?case
  proof (cases "c = CHR '' ''")
    case True
    have "parse_char m c ((between us)\<lparr>p_buf := w\<rparr>) = (between (us @ [w]))\<lparr>p_buf := []\<rparr>"
      using Cons.prems True by (simp add: parse_defs between_def parse_init_def)
    then show ?thesis using Cons.IH [of "us @ [w]" "[]"] Cons.prems True by simp
  next
    case False
    then have "parse_char m c ((between us)\<lparr>p_buf := w\<rparr>) = (between us)\<lparr>p_buf := w @ [c]\<rparr>"
      using Cons.prems by (simp add: parse_defs between_def parse_init_def plain_char_def)
    then show ?thesis using Cons.IH [of us "w @ [c]"] Cons.prems False by simp
  qed
qed

lemma length_fields: "length (fields w cs) \<le> Suc (length cs)"
  by (induction w cs rule: fields.induct) auto

lemma all_args_plain: "\<forall>c \<in> set cs. plain_char c \<Longrightarrow> all_args cs = fields [] cs"
  using parse_plain [of cs "[]" "[]" "Suc (length cs)"] length_fields [of "[]" cs]
  by (simp add: all_args_def parse_args_def between_def parse_init_def)

lemma fields_no_space: "CHR '' '' \<notin> set v \<Longrightarrow> fields w (v @ cs) = fields (w @ v) cs"
  by (induction v arbitrary: w) auto

section \<open>Frames\<close>

lemma frames_launch [frames]:
  assumes "light f"
  shows "frame f (ss_launch_if_noexist E p a)" "frame f (ss_launch_evenif_exist E p a)"
    "frame f (ss_launch_after_kill_if_exist E p a)"
  unfolding ss_launch_if_noexist_def ss_launch_evenif_exist_def ss_launch_after_kill_if_exist_def
    launch_tail_def launch_app_cmd_with_nice_def launch_app_with_nice_def launch_app_child_def
    prepare_exec_def parse_cmd_def ss_set_current_lang_def read_nice_flag_def
  by (intro frames light_halt light_fopen light_fprintf assms)+

lemma stops_launch [stops]:
  "obeys_halt (ss_launch_if_noexist E p a)" "obeys_halt (ss_launch_evenif_exist E p a)"
  "obeys_halt (ss_launch_after_kill_if_exist E p a)"
  unfolding ss_launch_if_noexist_def ss_launch_evenif_exist_def ss_launch_after_kill_if_exist_def
    launch_tail_def launch_app_cmd_with_nice_def launch_app_with_nice_def launch_app_child_def
    prepare_exec_def parse_cmd_def ss_set_current_lang_def read_nice_flag_def
  by (intro stops)+

section \<open>What the launchers return\<close>

text \<open>A program that runs already: no new process, and 1 in place of its pid.\<close>

lemma launch_if_noexist_running:
  assumes "e_ret E (trace s) (SYSMAN (Get_pid path)) > 0"
  shows "run_state (ss_launch_if_noexist E (Some path) arg) s =
    (1, log_call (SYSMAN (Get_pid path)) s)"
proof -
  have "result (ss_launch_if_noexist E (Some path) arg) s = 1"
    "exec (ss_launch_if_noexist E (Some path) arg) s = log_call (SYSMAN (Get_pid path)) s"
    using assms by (simp_all add: ss_launch_if_noexist_def Let_def)
  then show ?thesis by (simp add: result_def exec_def prod_eq_iff)
qed

text \<open>An environment in which a program can be started: the parent gets \<open>child\<close>.\<close>

definition can_launch :: "env \<Rightarrow> string \<Rightarrow> int \<Rightarrow> bool" where
  "can_launch E path child \<longleftrightarrow>
     (\<forall>h n. e_ret E h (OS (Malloc n)) \<noteq> 0) \<and> (\<forall>h. e_ret E h (FS (Access path)) = 0) \<and>
     (\<forall>h. e_ret E h (OS Fork) = child) \<and> 0 < child"

lemma set_lang_trace: "alive s \<Longrightarrow> alive (exec (ss_set_current_lang E) s)"
  by (simp add: ss_set_current_lang_def split: option.split)

lemma all_args_command:
  assumes "path \<noteq> []" "CHR '' '' \<notin> set path" "\<forall>c \<in> set (path @ arg). plain_char c"
  shows "all_args (path @ '' '' @ arg) = path # fields [] arg"
proof -
  have "plain_char (CHR '' '')" by (simp add: plain_char_def)
  then have "all_args (path @ '' '' @ arg) = fields [] (path @ '' '' @ arg)"
    using assms(3) by (intro all_args_plain) auto
  also have "\<dots> = path # fields [] arg"
    using fields_no_space [OF assms(2), of "[]" "'' '' @ arg"] by simp
  finally show ?thesis .
qed

lemma launch_cmd_parent:
  assumes "alive s" "can_launch E path child" "path \<noteq> []" "CHR '' '' \<notin> set path"
    and "\<forall>c \<in> set (path @ arg). plain_char c" "length (fields [] arg) < 255"
  shows "result (launch_app_cmd_with_nice E (Some (path @ '' '' @ arg)) nc) s = child \<and>
    alive (exec (launch_app_cmd_with_nice E (Some (path @ '' '' @ arg)) nc) s)"
proof -
  have args: "parse_args 256 (path @ '' '' @ arg) = path # fields [] arg"
    using all_args_command [OF assms(3-5)] assms(6) by (simp add: parse_args_all)
  show ?thesis
    using assms(1-3,6) args
    by (simp add: launch_app_cmd_with_nice_def parse_cmd_def launch_app_with_nice_def MAX_ARGS_def
        can_launch_def Let_def)
qed

lemma launch_tail_parent:
  assumes "alive s" "can_launch E path child" "path \<noteq> []" "CHR '' '' \<notin> set path"
    and "\<forall>c \<in> set (path @ str_or_empty arg). plain_char c"
    and "length (fields [] (str_or_empty arg)) < 255"
  shows "result (launch_tail E path arg nc) s = child \<and> alive (exec (launch_tail E path arg nc) s)"
proof -
  have "0 < child" using assms(2) by (simp add: can_launch_def)
  moreover have "e_ret E h (OS (Malloc n)) \<noteq> 0" for h n
    using assms(2) by (simp add: can_launch_def)
  ultimately show ?thesis
    using launch_cmd_parent [OF _ assms(2-6)] set_lang_trace [OF assms(1), of E]
    by (simp add: launch_tail_def)
qed

lemma launch_evenif_parent:
  assumes "alive s" "can_launch E path child" "path \<noteq> []" "CHR '' '' \<notin> set path"
    and "\<forall>c \<in> set (path @ str_or_empty arg). plain_char c"
    and "length (fields [] (str_or_empty arg)) < 255"
  shows "result (ss_launch_evenif_exist E (Some path) arg) s = child \<and>
    alive (exec (ss_launch_evenif_exist E (Some path) arg) s)"
  using launch_tail_parent [OF _ assms(2-6)] assms(1)
  by (simp add: ss_launch_evenif_exist_def read_nice_flag_def)

section \<open>What the child executes\<close>

definition child_runs :: "env \<Rightarrow> string \<Rightarrow> bool" where
  "child_runs E path \<longleftrightarrow> malloc_ok E \<and> (\<forall>h. e_ret E h (FS (Access path)) = 0) \<and>
     (\<forall>h. e_ret E h (OS Fork) = 0) \<and> (\<forall>h args. e_ret E h (OS (Execvp path args)) \<noteq> -1)"

lemma child_runsD:
  assumes "child_runs E path"
  shows "e_ret E h (OS (Malloc n)) \<noteq> 0" "e_ret E h (FS (Access path)) = 0" "e_ret E h (OS Fork) = 0"
    "e_ret E h (OS (Execvp path args)) \<noteq> -1"
  using assms by (simp_all add: child_runs_def malloc_okD)

lemma alive_prepare: "alive (exec (prepare_exec E) s) \<longleftrightarrow> alive s"
proof -
  have "frame alive (prepare_exec E)" unfolding prepare_exec_def by (intro frames)
  then show ?thesis by (rule frameD)
qed

lemma launch_child_execs:
  assumes "alive s" "child_runs E path"
  shows "halted (exec (launch_app_with_nice E (Some path) argv None nc) s) = Some Execed \<and>
    hd (trace (exec (launch_app_with_nice E (Some path) argv None nc) s)) = OS (Execvp path argv)"
  using assms(1) child_runsD [OF assms(2)]
  by (simp add: launch_app_with_nice_def launch_app_child_def alive_prepare)

text \<open>The child gets all the arguments of the command line, or the launcher has left its array.\<close>

lemma launch_cmd_child:
  fixes E str nc s
  assumes "alive s" "str \<noteq> []" "all_args str = path # args" "child_runs E path"
  defines "t \<equiv> exec (launch_app_cmd_with_nice E (Some str) nc) s"
  shows "if length args < MAX_ARGS then halted t = Some Execed \<and> hd (trace t) = OS (Execvp path (path # args))
    else halted t = Some OutOfBounds"
proof -
  have stops: "obeys_halt (launch_app_with_nice E f a None nc)" for f a
    unfolding launch_app_with_nice_def launch_app_child_def prepare_exec_def by (intro stops)
  show ?thesis
  proof (cases "length args < MAX_ARGS")
    case True
    then show ?thesis
      using assms(1-3) launch_child_execs [OF _ assms(4)] child_runsD [OF assms(4)]
      by (simp add: t_def launch_app_cmd_with_nice_def parse_cmd_def parse_args_all Let_def split: prod.split)
  next
    case False
    then show ?thesis
      using assms(1-3) child_runsD [OF assms(4)] obeys_haltD [OF stops]
      by (simp add: t_def launch_app_cmd_with_nice_def parse_cmd_def parse_args_all Let_def split: prod.split)
  qed
qed

lemma launch_evenif_child:
  fixes E path arg cmd s
  assumes "alive s" "all_args (cmd @ '' '' @ str_or_empty arg) = path # args" "child_runs E path"
  defines "t \<equiv> exec (ss_launch_evenif_exist E (Some cmd) arg) s"
  shows "if length args < MAX_ARGS then halted t = Some Execed \<and> hd (trace t) = OS (Execvp path (path # args))
    else halted t = Some OutOfBounds"
proof -
  define u where "u nc = exec (launch_app_cmd_with_nice E (Some (cmd @ '' '' @ str_or_empty arg)) nc)
    (log_call (OS (Malloc (int (length cmd) + int (length (str_or_empty arg)) + 10))) (exec (ss_set_current_lang E) s))" for nc
  have u: "if length args < MAX_ARGS then halted (u nc) = Some Execed \<and> hd (trace (u nc)) = OS (Execvp path (path # args))
    else halted (u nc) = Some OutOfBounds" for nc
    unfolding u_def by (rule launch_cmd_child [OF _ _ assms(2,3)]) (simp_all add: set_lang_trace assms(1))
  then have dead: "\<not> alive (u nc)" for nc by (metis alive_def option.distinct(1))
  have "\<exists>nc. t = u nc"
    using dead child_runsD [OF assms(3)] set_lang_trace [OF assms(1)]
    by (auto simp: t_def ss_launch_evenif_exist_def launch_tail_def read_nice_flag_def u_def)
  then show ?thesis using u by metis
qed

section \<open>The calls the launchers make\<close>

text \<open>They publish no key, take no lock, and send no signal.\<close>

fun launch_call :: "ecall \<Rightarrow> bool" where
  "launch_call (OS c) \<longleftrightarrow> (\<forall>q n. c \<noteq> Kill q n)"
| "launch_call (FS c) \<longleftrightarrow> True"
| "launch_call (SYSMAN c) \<longleftrightarrow> True"
| "launch_call (VCONF c) \<longleftrightarrow> c = Get_str VK_LANGSET"
| "launch_call c \<longleftrightarrow> False"

definition no_kill :: "ecall \<Rightarrow> bool" where
  "no_kill c \<longleftrightarrow> (\<forall>q n. c \<noteq> OS (Kill q n))"

lemma emits_prepare_exec: "emits launch_call (prepare_exec E)"
  unfolding prepare_exec_def by (intro emitsI; simp)

lemma emits_launch_child: "emits launch_call (launch_app_child E f argv nc)"
  unfolding launch_app_child_def by (intro emitsI emits_prepare_exec; simp)

lemma emits_launch_file: "emits launch_call (launch_app_with_nice E f argv None nc)"
proof -
  have "emits launch_call (launch_app_with_nice E (Some p) argv None nc)" for p
    unfolding launch_app_with_nice_def option.case
    by (intro emitsI emits_launch_child; simp)
  then show ?thesis by (cases f) (simp_all add: launch_app_with_nice_def emitsI)
qed

lemma emits_launch_cmd: "emits launch_call (launch_app_cmd_with_nice E c nc)"
  unfolding launch_app_cmd_with_nice_def parse_cmd_def
  by (intro emitsI emits_launch_file; simp)

lemma emits_launchers:
  "emits launch_call (ss_launch_evenif_exist E p a)" "emits launch_call (ss_launch_if_noexist E p a)"
  unfolding ss_launch_evenif_exist_def ss_launch_if_noexist_def launch_tail_def ss_set_current_lang_def
    read_nice_flag_def
  by (intro emitsI emits_launch_cmd; simp)+

lemma emits_launch_evenif: "emits no_kill (ss_launch_evenif_exist E p a)"
proof (rule emits_mono [OF emits_launchers(1)])
  show "launch_call c \<Longrightarrow> no_kill c" for c by (cases c) (auto simp: no_kill_def)
qed

end
