(* ===== verification/SS_Procmgr.thy ===== *)
theory SS_Procmgr
  imports SS_Invariant
begin

text \<open>
  \<open>ss_procmgr.c\<close>: the out-of-memory score of the applications, kept in
  \<open>/proc/<pid>/oom_adj\<close>, and the four actions that move an application between
  foreground and background, locked and unlocked.

  The scores are the files of the state; a handler runs to its end before anything else
  touches them.  The names \<open>readdir\<close> gives for \<open>/proc\<close> come from the environment.
\<close>

section \<open>Reading and writing a score\<close>

definition OOMADJ_SU :: int where "OOMADJ_SU = -17"
definition OOMADJ_INIT :: int where "OOMADJ_INIT = -16"
definition OOMADJ_FOREGRD_LOCKED :: int where "OOMADJ_FOREGRD_LOCKED = -15"
definition OOMADJ_FOREGRD_UNLOCKED :: int where "OOMADJ_FOREGRD_UNLOCKED = -10"
definition OOMADJ_BACKGRD_LOCKED :: int where "OOMADJ_BACKGRD_LOCKED = -5"
definition OOMADJ_BACKGRD_UNLOCKED :: int where "OOMADJ_BACKGRD_UNLOCKED = 1"
definition OOMADJ_APP_LIMIT :: int where "OOMADJ_APP_LIMIT = -16"
definition LIMITED_PROCESS_OOMADJ :: int where "LIMITED_PROCESS_OOMADJ = 15"

lemmas oomadj_defs = OOMADJ_SU_def OOMADJ_INIT_def OOMADJ_FOREGRD_LOCKED_def
  OOMADJ_FOREGRD_UNLOCKED_def OOMADJ_BACKGRD_LOCKED_def OOMADJ_BACKGRD_UNLOCKED_def
  OOMADJ_APP_LIMIT_def LIMITED_PROCESS_OOMADJ_def

text \<open>The result and the value left in \<open>*oomadj\<close>, which was \<open>old\<close>.\<close>

definition get_app_oomadj :: "env \<Rightarrow> int \<Rightarrow> int \<Rightarrow> (ss, int \<times> int) state" where
  "get_app_oomadj E pid old =
     (if pid < 0 then return (-1, old)
      else do {
        fp \<leftarrow> fopen E (oom_adj_path pid) Rd;
        if \<not> fp then return (-1, old)
        else do {
          buf \<leftarrow> fgets (oom_adj_path pid) PATH_MAX;
          case buf of
            None \<Rightarrow> return (-1, old)
          | Some b \<Rightarrow> return (0, atoi b)
        }
      })"

definition set_app_oomadj :: "env \<Rightarrow> int \<Rightarrow> int \<Rightarrow> (ss, int) state" where
  "set_app_oomadj E pid new_oomadj = do {
     call E (SYSMAN (Get_cmdline_name pid));
     fp \<leftarrow> fopen E (oom_adj_path pid) Rd;
     if \<not> fp then return (-1)
     else do {
       buf \<leftarrow> fgets (oom_adj_path pid) PATH_MAX;
       case buf of
         None \<Rightarrow> return (-1)
       | Some b \<Rightarrow>
           if atoi b < OOMADJ_APP_LIMIT then return 0
           else do {
             fp2 \<leftarrow> fopen E (oom_adj_path pid) Wr;
             if \<not> fp2 then return (-1)
             else do {
               fprintf E (oom_adj_path pid) (show_int new_oomadj);
               return 0
             }
           }
     }
   }"

definition set_oomadj_action :: "env \<Rightarrow> int \<Rightarrow> string option list \<Rightarrow> (ss, int) state" where
  "set_oomadj_action E argc argv =
     (if argc < 2 then return (-1)
      else do {
        a0 \<leftarrow> deref (argv_at argv 0);
        if atoi a0 < 0 then return (-1)
        else do {
          a1 \<leftarrow> deref (argv_at argv 1);
          if atoi a1 \<le> -20 then return (-1)
          else do {
            fp \<leftarrow> fopen E (oom_adj_path (atoi a0)) Wr;
            if \<not> fp then return (-1)
            else do {
              fprintf E (oom_adj_path (atoi a0)) (show_int (atoi a1));
              return 0
            }
          }
        }
      })"

section \<open>Ageing the background applications\<close>

definition numeric :: "string \<Rightarrow> bool" where
  "numeric d_name \<longleftrightarrow> d_name \<noteq> [] \<and> isdigit (hd d_name)"

text \<open>The first loop: it stops at a process whose score is \<open>OOMADJ_BACKGRD_UNLOCKED\<close>.\<close>

fun find_backgrd_unlocked :: "env \<Rightarrow> string list \<Rightarrow> (ss, bool) state" where
  "find_backgrd_unlocked E [] = return False"
| "find_backgrd_unlocked E (d_name # ds) =
     (if \<not> numeric d_name then find_backgrd_unlocked E ds
      else do {
        fp \<leftarrow> fopen E (oom_adj_path (atoi d_name)) Rd;
        if \<not> fp then find_backgrd_unlocked E ds
        else do {
          buf \<leftarrow> fgets (oom_adj_path (atoi d_name)) PATH_MAX;
          case buf of
            None \<Rightarrow> find_backgrd_unlocked E ds
          | Some b \<Rightarrow> if atoi b = OOMADJ_BACKGRD_UNLOCKED then return True
                       else find_backgrd_unlocked E ds
        }
      })"

text \<open>The body of the second loop.\<close>

definition age_process :: "env \<Rightarrow> string \<Rightarrow> (ss, unit) state" where
  "age_process E d_name =
     (if \<not> numeric d_name then return ()
      else do {
        let pid = atoi d_name;
        fp \<leftarrow> fopen E (oom_adj_path pid) RdWr;
        if \<not> fp then return ()
        else do {
          buf \<leftarrow> fgets (oom_adj_path pid) PATH_MAX;
          case buf of
            None \<Rightarrow> return ()
          | Some b \<Rightarrow>
              let cur_oom = atoi b in
              if cur_oom \<ge> LIMITED_PROCESS_OOMADJ then do {
                call E (OS (Kill pid SIGTERM));
                return ()
              }
              else if cur_oom \<ge> OOMADJ_BACKGRD_UNLOCKED then
                fprintf E (oom_adj_path pid) (show_int (cur_oom + 1))
              else return ()
        }
      })"

definition check_and_set_old_backgrd :: "env \<Rightarrow> (ss, int) state" where
  "check_and_set_old_backgrd E = do {
     dp \<leftarrow> call E (FS (Opendir ''/proc''));
     if dp = 0 then return (-1)
     else do {
       names \<leftarrow> readdir_all E ''/proc'';
       found \<leftarrow> find_backgrd_unlocked E names;
       call E (FS (Closedir ''/proc''));
       if \<not> found then return 0
       else do {
         dp2 \<leftarrow> call E (FS (Opendir ''/proc''));
         if dp2 = 0 then return (-1)
         else do {
           names2 \<leftarrow> readdir_all E ''/proc'';
           for_each (age_process E) names2;
           call E (FS (Closedir ''/proc''));
           return 0
         }
       }
     }
   }"

section \<open>The four actions\<close>

text \<open>What all four do first: the pid argument and the current score.\<close>

definition with_app_oomadj ::
  "env \<Rightarrow> int \<Rightarrow> string option list \<Rightarrow> (int \<Rightarrow> int \<Rightarrow> (ss, int) state) \<Rightarrow> (ss, int) state" where
  "with_app_oomadj E argc argv body =
     (if argc < 1 then return (-1)
      else do {
        a0 \<leftarrow> deref (argv_at argv 0);
        let pid = atoi a0;
        if pid < 0 then return (-1)
        else do {
          (r, oomadj) \<leftarrow> get_app_oomadj E pid 0;
          if r < 0 then return (-1) else body pid oomadj
        }
      })"

definition set_active_action :: "env \<Rightarrow> int \<Rightarrow> string option list \<Rightarrow> (ss, int) state" where
  "set_active_action E argc argv = with_app_oomadj E argc argv (\<lambda>pid oomadj.
     if oomadj = OOMADJ_FOREGRD_LOCKED \<or> oomadj = OOMADJ_BACKGRD_LOCKED \<or> oomadj = OOMADJ_SU
     then return 0
     else if oomadj = OOMADJ_FOREGRD_UNLOCKED then set_app_oomadj E pid OOMADJ_FOREGRD_LOCKED
     else if oomadj = OOMADJ_BACKGRD_UNLOCKED then set_app_oomadj E pid OOMADJ_BACKGRD_LOCKED
     else if oomadj = OOMADJ_INIT then set_app_oomadj E pid OOMADJ_BACKGRD_LOCKED
     else if oomadj > OOMADJ_BACKGRD_UNLOCKED then set_app_oomadj E pid OOMADJ_BACKGRD_LOCKED
     else return (-1))"

definition set_inactive_action :: "env \<Rightarrow> int \<Rightarrow> string option list \<Rightarrow> (ss, int) state" where
  "set_inactive_action E argc argv = with_app_oomadj E argc argv (\<lambda>pid oomadj.
     if oomadj = OOMADJ_FOREGRD_UNLOCKED \<or> oomadj = OOMADJ_BACKGRD_UNLOCKED \<or> oomadj = OOMADJ_SU
     then return 0
     else if oomadj = OOMADJ_FOREGRD_LOCKED then set_app_oomadj E pid OOMADJ_FOREGRD_UNLOCKED
     else if oomadj = OOMADJ_BACKGRD_LOCKED then do {
       check_and_set_old_backgrd E;
       set_app_oomadj E pid OOMADJ_BACKGRD_UNLOCKED
     }
     else if oomadj = OOMADJ_INIT then do {
       check_and_set_old_backgrd E;
       set_app_oomadj E pid OOMADJ_BACKGRD_UNLOCKED
     }
     else if oomadj > OOMADJ_BACKGRD_UNLOCKED then return 0
     else return (-1))"

definition set_foregrd_action :: "env \<Rightarrow> int \<Rightarrow> string option list \<Rightarrow> (ss, int) state" where
  "set_foregrd_action E argc argv = with_app_oomadj E argc argv (\<lambda>pid oomadj.
     if oomadj = OOMADJ_FOREGRD_LOCKED \<or> oomadj = OOMADJ_FOREGRD_UNLOCKED \<or> oomadj = OOMADJ_SU
     then return 0
     else if oomadj = OOMADJ_BACKGRD_LOCKED then set_app_oomadj E pid OOMADJ_FOREGRD_LOCKED
     else if oomadj = OOMADJ_BACKGRD_UNLOCKED then set_app_oomadj E pid OOMADJ_FOREGRD_UNLOCKED
     else if oomadj = OOMADJ_INIT then set_app_oomadj E pid OOMADJ_FOREGRD_UNLOCKED
     else if oomadj > OOMADJ_BACKGRD_UNLOCKED then set_app_oomadj E pid OOMADJ_FOREGRD_UNLOCKED
     else return (-1))"

definition set_backgrd_action :: "env \<Rightarrow> int \<Rightarrow> string option list \<Rightarrow> (ss, int) state" where
  "set_backgrd_action E argc argv = with_app_oomadj E argc argv (\<lambda>pid oomadj.
     if oomadj = OOMADJ_BACKGRD_LOCKED \<or> oomadj = OOMADJ_BACKGRD_UNLOCKED \<or> oomadj = OOMADJ_SU
     then return 0
     else if oomadj = OOMADJ_FOREGRD_LOCKED then set_app_oomadj E pid OOMADJ_BACKGRD_LOCKED
     else if oomadj = OOMADJ_FOREGRD_UNLOCKED then do {
       check_and_set_old_backgrd E;
       set_app_oomadj E pid OOMADJ_BACKGRD_UNLOCKED
     }
     else if oomadj = OOMADJ_INIT then do {
       check_and_set_old_backgrd E;
       set_app_oomadj E pid OOMADJ_BACKGRD_UNLOCKED
     }
     else if oomadj > OOMADJ_BACKGRD_UNLOCKED then return 0
     else return (-1))"

section \<open>Frames\<close>

lemma frame_find_backgrd: "off_log f \<Longrightarrow> light f \<Longrightarrow> frame f (find_backgrd_unlocked E ds)"
  by (induction ds) (auto intro!: frames light_fopen split: option.split)

lemma stops_find_backgrd [stops]: "obeys_halt (find_backgrd_unlocked E ds)"
  by (induction ds) (auto intro!: stops split: option.split)

definition ss_process_manager_init :: "env \<Rightarrow> (ss, int) state" where
  "ss_process_manager_init E = do {
     ss_action_entry_add_internal E PREDEF_FOREGRD (Some Fn_set_foregrd_action) None None;
     ss_action_entry_add_internal E PREDEF_BACKGRD (Some Fn_set_backgrd_action) None None;
     ss_action_entry_add_internal E PREDEF_ACTIVE (Some Fn_set_active_action) None None;
     ss_action_entry_add_internal E PREDEF_INACTIVE (Some Fn_set_inactive_action) None None;
     ss_action_entry_add_internal E OOMADJ_SET (Some Fn_set_oomadj_action) None None;
     return 0
   }"

context startup_safe
begin

lemma pres_procmgr_init [presI]: "pres I (ss_process_manager_init E)"
  unfolding ss_process_manager_init_def by (intro presI; simp)

end

lemmas procmgr_defs = set_active_action_def set_inactive_action_def set_foregrd_action_def
  set_backgrd_action_def set_oomadj_action_def with_app_oomadj_def check_and_set_old_backgrd_def
  age_process_def get_app_oomadj_def set_app_oomadj_def

lemma frames_procmgr [frames]:
  assumes "light f"
  shows "frame f (set_active_action E argc argv)" "frame f (set_inactive_action E argc argv)"
    "frame f (set_foregrd_action E argc argv)" "frame f (set_backgrd_action E argc argv)"
    "frame f (set_oomadj_action E argc argv)" "frame f (get_app_oomadj E pid v)"
    "frame f (set_app_oomadj E pid v)"
  unfolding procmgr_defs
  by (intro frames light_fopen light_fprintf light_deref frame_find_backgrd assms)+

lemma stops_procmgr [stops]:
  "obeys_halt (set_active_action E argc argv)" "obeys_halt (set_inactive_action E argc argv)"
  "obeys_halt (set_foregrd_action E argc argv)" "obeys_halt (set_backgrd_action E argc argv)"
  "obeys_halt (set_oomadj_action E argc argv)" "obeys_halt (get_app_oomadj E pid v)"
  "obeys_halt (set_app_oomadj E pid v)"
  unfolding procmgr_defs by (intro stops)+

section \<open>The scores as a map\<close>

text \<open>What the code reads as the score of a process.\<close>

definition oom_val :: "ss \<Rightarrow> int \<Rightarrow> int option" where
  "oom_val s pid =
     (if is_int32 pid then map_option atoi (result (fgets (oom_adj_path pid) PATH_MAX) s) else None)"

lemma oom_val_log_call [simp]: "oom_val (log_call e s) = oom_val s"
  by (simp add: oom_val_def fgets_def result_def getv_def fun_eq_iff)

lemma first_line_id: "CHR 0x0A \<notin> set str \<Longrightarrow> first_line str = str"
  by (induction str) auto

lemma oom_val_write:
  assumes "is_int32 pid" "is_int32 v"
  shows "oom_val (s\<lparr>files := (files s)(oom_adj_path pid \<mapsto> show_int v)\<rparr>) = (oom_val s)(pid \<mapsto> v)"
proof
  fix q
  have line: "take (PATH_MAX - 1) (first_line (show_int v)) = show_int v"
    using length_show_int [OF assms(2)] by (simp add: first_line_id show_int_no_newline PATH_MAX_def)
  show "oom_val (s\<lparr>files := (files s)(oom_adj_path pid \<mapsto> show_int v)\<rparr>) q = ((oom_val s)(pid \<mapsto> v)) q"
  proof (cases "q = pid")
    case True
    with assms line show ?thesis
      by (simp add: oom_val_def fgets_def result_def getv_def)
  next
    case False
    then have "is_int32 q \<Longrightarrow> oom_adj_path q \<noteq> oom_adj_path pid"
      using oom_adj_path_inj assms(1) by blast
    with False show ?thesis by (simp add: oom_val_def fgets_def result_def getv_def)
  qed
qed

lemma oom_val_fgets:
  "is_int32 pid \<Longrightarrow> result (fgets (oom_adj_path pid) PATH_MAX) s = Some b \<Longrightarrow>
     oom_val s pid = Some (atoi b)"
  by (simp add: oom_val_def)

lemma fgets_oom_val:
  "oom_val s pid = Some v \<Longrightarrow>
     \<exists>b. result (fgets (oom_adj_path pid) PATH_MAX) s = Some b \<and> atoi b = v"
  by (auto simp: oom_val_def split: if_splits)

lemma oom_val_None_fgets:
  "is_int32 pid \<Longrightarrow> oom_val s pid = None \<Longrightarrow> result (fgets (oom_adj_path pid) PATH_MAX) s = None"
  by (simp add: oom_val_def)

lemma fgets_file: "result (fgets p n) s = Some b \<Longrightarrow> files s p \<noteq> None"
  by (auto simp: fgets_def result_def getv_def split: option.splits)

lemma fgets_log_call [simp]: "result (fgets p n) (log_call e s) = result (fgets p n) s"
  by (simp add: fgets_def result_def getv_def)

lemma oom_val_int32: "oom_val s pid = Some v \<Longrightarrow> is_int32 pid \<and> is_int32 v"
  by (auto simp: oom_val_def split: if_splits)

text \<open>
  The environment of a daemon that runs as root: every file that exists can be opened,
  the kernel accepts what is written, and \<open>/proc\<close> can be listed, each process once.
\<close>

definition root_env :: "env \<Rightarrow> int set \<Rightarrow> bool" where
  "root_env E P \<longleftrightarrow>
     (\<forall>h p m. e_ret E h (FS (Fopen p m)) \<noteq> 0) \<and> (\<forall>h p t. e_write E h p t) \<and>
     (\<forall>h. e_ret E h (FS (Opendir ''/proc'')) \<noteq> 0) \<and>
     (\<forall>h. distinct (map atoi (filter numeric (e_dir E h ''/proc''))) \<and>
        set (map atoi (filter numeric (e_dir E h ''/proc''))) = P)"

lemma fopen_exec [simp]:
  "is_proc_path p \<or> m \<noteq> Wr \<Longrightarrow> exec (fopen E p m) s = log_call (FS (Fopen p m)) s"
  by (auto simp: fopen_def fopen_effect_def)

lemma fopen_result_root:
  "root_env E P \<Longrightarrow> is_proc_path p \<Longrightarrow> result (fopen E p m) s \<longleftrightarrow> files s p \<noteq> None"
  by (simp add: fopen_def root_env_def)

lemma fprintf_exec:
  assumes "root_env E P" "alive s"
  shows "exec (fprintf E p t) s = (log_call (FS (Fprintf p t)) s)\<lparr>files := (files s)(p \<mapsto> t)\<rparr>"
  using assms by (simp add: fprintf_def root_env_def)

lemma oom_val_fprintf:
  assumes "root_env E P" "alive s" "is_int32 pid" "is_int32 v"
  shows "oom_val (exec (fprintf E (oom_adj_path pid) (show_int v)) s) = (oom_val s)(pid \<mapsto> v)"
  using oom_val_write [OF assms(3,4), of "log_call (FS (Fprintf (oom_adj_path pid) (show_int v))) s"]
  by (simp add: fprintf_exec [OF assms(1,2)])

section \<open>The effect of ageing\<close>

definition SIGTERM_kills :: "ss \<Rightarrow> int set" where
  "SIGTERM_kills s = {q. OS (Kill q SIGTERM) \<in> set (trace s)}"

definition age_score :: "int \<Rightarrow> int" where
  "age_score v = (if OOMADJ_BACKGRD_UNLOCKED \<le> v \<and> v < LIMITED_PROCESS_OOMADJ then v + 1 else v)"

definition age_step :: "int set \<Rightarrow> (int \<rightharpoonup> int) \<Rightarrow> (int \<rightharpoonup> int)" where
  "age_step P m = (\<lambda>q. if q \<in> P then map_option age_score (m q) else m q)"

definition over_limit :: "int set \<Rightarrow> (int \<rightharpoonup> int) \<Rightarrow> int set" where
  "over_limit P m = {q \<in> P. \<exists>v. m q = Some v \<and> LIMITED_PROCESS_OOMADJ \<le> v}"

text \<open>Some process has the score a newcomer will get.\<close>

definition newest_taken :: "int set \<Rightarrow> (int \<rightharpoonup> int) \<Rightarrow> bool" where
  "newest_taken P m \<longleftrightarrow> (\<exists>q \<in> P. m q = Some OOMADJ_BACKGRD_UNLOCKED)"

lemma SIGTERM_kills_log_call [simp]:
  "alive s \<Longrightarrow> e \<noteq> OS (Kill q SIGTERM) \<Longrightarrow> q \<in> SIGTERM_kills (log_call e s) \<longleftrightarrow> q \<in> SIGTERM_kills s"
  by (auto simp: SIGTERM_kills_def)

lemma fgets_proc_None: "files s p = None \<Longrightarrow> result (fgets p n) s = None"
  by (simp add: fgets_def result_def getv_def)

text \<open>With every file readable, opening and reading the score is one lookup.\<close>

lemma read_score_root:
  assumes "root_env E P" "is_int32 pid"
  shows "oom_val s pid = (if result (fopen E (oom_adj_path pid) m) s
     then map_option atoi (result (fgets (oom_adj_path pid) PATH_MAX) s) else None)"
  using assms by (auto simp: fopen_result_root oom_val_def fgets_proc_None)

lemma find_backgrd_root:
  assumes "root_env E P"
  shows "result (find_backgrd_unlocked E ds) s \<longleftrightarrow>
      (\<exists>d \<in> set ds. numeric d \<and> oom_val s (atoi d) = Some OOMADJ_BACKGRD_UNLOCKED)"
proof (induction ds arbitrary: s)
  case Nil
  then show ?case by simp
next
  case (Cons d ds)
  show ?case
    using Cons read_score_root [OF assms is_int32_atoi, of s d Rd]
    by (auto split: option.split if_splits)
qed

lemma find_backgrd_frames:
  "oom_val (exec (find_backgrd_unlocked E ds) s) = oom_val s \<and>
   (alive (exec (find_backgrd_unlocked E ds) s) \<longleftrightarrow> alive s) \<and>
   files (exec (find_backgrd_unlocked E ds) s) = files s \<and>
   (alive s \<longrightarrow> SIGTERM_kills (exec (find_backgrd_unlocked E ds) s) = SIGTERM_kills s)"
proof (induction ds arbitrary: s)
  case Nil
  then show ?case by simp
next
  case (Cons d ds)
  have k: "SIGTERM_kills (log_call (FS f) t) = SIGTERM_kills t" for f t
    by (auto simp: SIGTERM_kills_def)
  show ?case by (simp add: Cons k split: option.split)
qed

lemma age_process_root:
  fixes d
  assumes "root_env E P" "alive s"
  defines "t \<equiv> exec (age_process E d) s"
  shows "oom_val t = (if numeric d then age_step {atoi d} (oom_val s) else oom_val s)"
    and "alive t"
    and "SIGTERM_kills t = SIGTERM_kills s \<union> (if numeric d then over_limit {atoi d} (oom_val s) else {})"
proof -
  let ?p = "oom_adj_path (atoi d)"
  define s1 where "s1 = log_call (FS (Fopen ?p RdWr)) s"
  have s1: "oom_val s1 = oom_val s" "alive s1" "SIGTERM_kills s1 = SIGTERM_kills s"
    using assms(2) by (auto simp: s1_def SIGTERM_kills_def)
  have run: "t = (if \<not> numeric d then s
      else case oom_val s (atoi d) of
        None \<Rightarrow> s1
      | Some v \<Rightarrow>
          if v \<ge> LIMITED_PROCESS_OOMADJ then log_call (OS (Kill (atoi d) SIGTERM)) s1
          else if v \<ge> OOMADJ_BACKGRD_UNLOCKED then exec (fprintf E ?p (show_int (v + 1))) s1
          else s1)"
    unfolding t_def read_score_root [OF assms(1) is_int32_atoi, of s d RdWr]
    by (auto simp: age_process_def s1_def Let_def split: option.split)
  show "alive t" unfolding run using s1 assms(2) by (auto simp: fprintf_exec [OF assms(1)] split: option.split)
  show "oom_val t = (if numeric d then age_step {atoi d} (oom_val s) else oom_val s)"
  proof (cases "numeric d")
    case False
    then show ?thesis by (simp add: run)
  next
    case True
    show ?thesis
    proof (cases "oom_val s (atoi d)")
      case None
      then show ?thesis using True s1 by (simp add: run age_step_def fun_eq_iff)
    next
      case (Some v)
      have "v < LIMITED_PROCESS_OOMADJ \<Longrightarrow> v \<ge> OOMADJ_BACKGRD_UNLOCKED \<Longrightarrow> is_int32 (v + 1)"
        by (simp add: oomadj_defs is_int32_def INT_MAX_def INT_MIN_def)
      with Some True s1 show ?thesis
        using oom_val_fprintf [OF assms(1) s1(2) is_int32_atoi, of "v + 1" d]
        by (auto simp: run age_step_def age_score_def fun_eq_iff)
    qed
  qed
  show "SIGTERM_kills t = SIGTERM_kills s \<union> (if numeric d then over_limit {atoi d} (oom_val s) else {})"
    unfolding run using s1
    by (auto simp: over_limit_def SIGTERM_kills_def fprintf_exec [OF assms(1)] split: option.split)
qed

text \<open>Ageing processes one by one, each once, ages the set of them.\<close>

lemma age_step_other: "age_step Q m q = (if q \<in> Q then map_option age_score (m q) else m q)"
  by (simp add: age_step_def)

lemma age_fold:
  assumes "root_env E P" "alive s" "distinct (map atoi (filter numeric ds))"
  defines "Q \<equiv> set (map atoi (filter numeric ds))"
    and "t \<equiv> fold (\<lambda>d. exec (age_process E d)) ds s"
  shows "alive t \<and> oom_val t = age_step Q (oom_val s) \<and>
    SIGTERM_kills t = SIGTERM_kills s \<union> over_limit Q (oom_val s)"
  using assms(2,3) unfolding Q_def t_def
proof (induction ds arbitrary: s)
  case Nil
  then show ?case by (simp add: age_step_def over_limit_def fun_eq_iff)
next
  case (Cons d ds)
  note step = age_process_root [OF assms(1) Cons.prems(1), of d]
  note ih = Cons.IH [OF step(2)]
  show ?case
  proof (cases "numeric d")
    case False
    with ih step Cons.prems show ?thesis by simp
  next
    case True
    with Cons.prems have new: "atoi d \<notin> set (map atoi (filter numeric ds))"
      "distinct (map atoi (filter numeric ds))" by auto
    have "age_step Q (age_step {atoi d} (oom_val s)) = age_step (insert (atoi d) Q) (oom_val s)"
      "over_limit Q (age_step {atoi d} (oom_val s)) \<union> over_limit {atoi d} (oom_val s) =
         over_limit (insert (atoi d) Q) (oom_val s)"
      if "atoi d \<notin> Q" for Q
      using that by (auto simp: age_step_def over_limit_def fun_eq_iff)
    from this [OF new(1)] ih [OF new(2)] step True show ?thesis
      by (simp add: Un_assoc) blast
  qed
qed

text \<open>
  \<open>check_and_set_old_backgrd\<close>: when the newest score is taken, every process of the
  listing moves up by one, those past the limit get SIGTERM, and nothing else changes.
\<close>

definition aged :: "int set \<Rightarrow> (int \<rightharpoonup> int) \<Rightarrow> (int \<rightharpoonup> int)" where
  "aged P m = (if newest_taken P m then age_step P m else m)"

lemma SIGTERM_kills_fs [simp]: "SIGTERM_kills (log_call (FS f) s) = SIGTERM_kills s"
  by (auto simp: SIGTERM_kills_def)

lemma check_old_root:
  assumes "root_env E P" "alive s"
  defines "t \<equiv> exec (check_and_set_old_backgrd E) s"
  shows "alive t" "oom_val t = aged P (oom_val s)"
    "SIGTERM_kills t = SIGTERM_kills s \<union>
       (if newest_taken P (oom_val s) then over_limit P (oom_val s) else {})"
proof -
  have E: "e_ret E h (FS (Opendir ''/proc'')) \<noteq> 0"
    "distinct (map atoi (filter numeric (e_dir E h ''/proc'')))"
    "set (map atoi (filter numeric (e_dir E h ''/proc''))) = P" for h
    using assms(1) by (auto simp: root_env_def)
  define s1 where "s1 = log_call (FS (Opendir ''/proc'')) s"
  define ds where "ds = e_dir E (trace s1) ''/proc''"
  define s2 where "s2 = log_call (FS (Closedir ''/proc'')) (exec (find_backgrd_unlocked E ds) s1)"
  define s3 where "s3 = log_call (FS (Opendir ''/proc'')) s2"
  define ds3 where "ds3 = e_dir E (trace s3) ''/proc''"
  define t3 where "t3 = fold (\<lambda>d. exec (age_process E d)) ds3 s3"
  have same: "oom_val s3 = oom_val s" "alive s3" "SIGTERM_kills s3 = SIGTERM_kills s"
    "oom_val s2 = oom_val s" "alive s2" "SIGTERM_kills s2 = SIGTERM_kills s"
    using assms(2) find_backgrd_frames [of E ds s1] by (simp_all add: s1_def s2_def s3_def)
  have "(\<exists>d \<in> set ds. numeric d \<and> oom_val s1 (atoi d) = Some OOMADJ_BACKGRD_UNLOCKED) \<longleftrightarrow>
      newest_taken P (oom_val s)"
    unfolding newest_taken_def ds_def using E(3) [of "trace s1"] by (auto simp: s1_def)
  then have found: "result (find_backgrd_unlocked E ds) s1 \<longleftrightarrow> newest_taken P (oom_val s)"
    using find_backgrd_root [OF assms(1)] by simp
  have run: "t = (if newest_taken P (oom_val s)
      then log_call (FS (Closedir ''/proc'')) t3 else s2)"
    using E(1) by (simp add: t_def check_and_set_old_backgrd_def exec_for_each found [symmetric]
        s1_def ds_def s2_def s3_def ds3_def t3_def)
  have "alive t3 \<and> oom_val t3 = age_step P (oom_val s) \<and>
      SIGTERM_kills t3 = SIGTERM_kills s \<union> over_limit P (oom_val s)"
    using age_fold [OF assms(1) same(2), of ds3] E(2,3) same by (simp add: t3_def ds3_def)
  then show "alive t" "oom_val t = aged P (oom_val s)"
    "SIGTERM_kills t = SIGTERM_kills s \<union>
       (if newest_taken P (oom_val s) then over_limit P (oom_val s) else {})"
    using same by (simp_all add: run aged_def)
qed

section \<open>The applications as a state machine\<close>

text \<open>
  What a score says of an application.  \<open>Backgrd n\<close> is an unlocked background
  application with \<open>n\<close> newer ones since the last time the newest place was free.
\<close>

datatype app_state =
    Su | Fresh | Foregrd_locked | Foregrd_unlocked | Backgrd_locked | Backgrd nat | Unknown int

definition app_state_of :: "int \<Rightarrow> app_state" where
  "app_state_of v =
     (if v = OOMADJ_SU then Su else if v = OOMADJ_INIT then Fresh
      else if v = OOMADJ_FOREGRD_LOCKED then Foregrd_locked
      else if v = OOMADJ_FOREGRD_UNLOCKED then Foregrd_unlocked
      else if v = OOMADJ_BACKGRD_LOCKED then Backgrd_locked
      else if v \<ge> OOMADJ_BACKGRD_UNLOCKED then Backgrd (nat (v - OOMADJ_BACKGRD_UNLOCKED))
      else Unknown v)"

fun score :: "app_state \<Rightarrow> int" where
  "score Su = OOMADJ_SU"
| "score Fresh = OOMADJ_INIT"
| "score Foregrd_locked = OOMADJ_FOREGRD_LOCKED"
| "score Foregrd_unlocked = OOMADJ_FOREGRD_UNLOCKED"
| "score Backgrd_locked = OOMADJ_BACKGRD_LOCKED"
| "score (Backgrd n) = OOMADJ_BACKGRD_UNLOCKED + int n"
| "score (Unknown v) = v"

lemma score_app_state_of [simp]: "score (app_state_of v) = v"
  by (simp add: app_state_of_def oomadj_defs)

datatype app_op = Active | Inactive | Foreground | Background

fun app_step :: "app_op \<Rightarrow> app_state \<Rightarrow> app_state" where
  "app_step op Su = Su"
| "app_step op (Unknown v) = Unknown v"
| "app_step Active Foregrd_unlocked = Foregrd_locked"
| "app_step Active Foregrd_locked = Foregrd_locked"
| "app_step Active st = Backgrd_locked"
| "app_step Inactive Foregrd_locked = Foregrd_unlocked"
| "app_step Inactive Backgrd_locked = Backgrd 0"
| "app_step Inactive Fresh = Backgrd 0"
| "app_step Inactive st = st"
| "app_step Foreground Backgrd_locked = Foregrd_locked"
| "app_step Foreground (Backgrd n) = Foregrd_unlocked"
| "app_step Foreground Fresh = Foregrd_unlocked"
| "app_step Foreground st = st"
| "app_step Background Foregrd_locked = Backgrd_locked"
| "app_step Background Foregrd_unlocked = Backgrd 0"
| "app_step Background Fresh = Backgrd 0"
| "app_step Background st = st"

fun in_backgrd :: "app_state \<Rightarrow> bool" where
  "in_backgrd (Backgrd n) = True"
| "in_backgrd st = False"

text \<open>An application that joins the unlocked background ones makes the others older.\<close>

definition joins :: "app_op \<Rightarrow> app_state \<Rightarrow> bool" where
  "joins op st \<longleftrightarrow> in_backgrd (app_step op st) \<and> \<not> in_backgrd st"

definition scores_step :: "int set \<Rightarrow> app_op \<Rightarrow> int \<Rightarrow> (int \<rightharpoonup> int) \<Rightarrow> (int \<rightharpoonup> int)" where
  "scores_step P op pid m =
     (case m pid of
        None \<Rightarrow> m
      | Some v \<Rightarrow> (if joins op (app_state_of v) then aged P m else m)
                    (pid \<mapsto> score (app_step op (app_state_of v))))"

fun app_action :: "app_op \<Rightarrow> env \<Rightarrow> int \<Rightarrow> string option list \<Rightarrow> (ss, int) state" where
  "app_action Active = set_active_action"
| "app_action Inactive = set_inactive_action"
| "app_action Foreground = set_foregrd_action"
| "app_action Background = set_backgrd_action"

text \<open>Writing a score: the file is read first, and a score below the limit stays.\<close>

lemma set_app_oomadj_root:
  fixes s new
  assumes "root_env E P" "alive s" "is_int32 pid" "is_int32 new" "oom_val s pid = Some v"
  defines "t \<equiv> exec (set_app_oomadj E pid new) s"
  shows "alive t" "oom_val t = (if v < OOMADJ_APP_LIMIT then oom_val s else (oom_val s)(pid \<mapsto> new))"
    "result (set_app_oomadj E pid new) s = 0"
proof -
  let ?p = "oom_adj_path pid"
  obtain b where b: "result (fgets ?p PATH_MAX) s = Some b" "atoi b = v"
    using fgets_oom_val [OF assms(5)] by blast
  have f: "files s ?p \<noteq> None" using fgets_file [OF b(1)] .
  define s1 where "s1 = log_call (FS (Fopen ?p Rd)) (log_call (SYSMAN (Get_cmdline_name pid)) s)"
  define s2 where "s2 = log_call (FS (Fopen ?p Wr)) s1"
  have s2: "alive s2" "oom_val s2 = oom_val s" using assms(2) by (simp_all add: s1_def s2_def)
  have run: "t = (if v < OOMADJ_APP_LIMIT then s1 else exec (fprintf E ?p (show_int new)) s2)"
    and res: "result (set_app_oomadj E pid new) s = 0"
    using f b by (simp_all add: t_def set_app_oomadj_def s1_def s2_def fopen_result_root [OF assms(1)])
  show "alive t" "result (set_app_oomadj E pid new) s = 0"
    using res s2 assms(2) by (simp_all add: run fprintf_exec [OF assms(1)] s1_def)
  show "oom_val t = (if v < OOMADJ_APP_LIMIT then oom_val s else (oom_val s)(pid \<mapsto> new))"
    using s2 by (simp add: run oom_val_fprintf [OF assms(1) s2(1) assms(3,4)] s1_def)
qed

lemma get_app_oomadj_root:
  assumes "root_env E P" "is_int32 pid" "0 \<le> pid"
  shows "exec (get_app_oomadj E pid 0) s = log_call (FS (Fopen (oom_adj_path pid) Rd)) s"
    "result (get_app_oomadj E pid 0) s =
       (case oom_val s pid of None \<Rightarrow> (-1, 0) | Some v \<Rightarrow> (0, v))"
  using assms read_score_root [OF assms(1,2), of s Rd]
  by (auto simp: get_app_oomadj_def split: option.split)

text \<open>All four actions have the same shape around \<open>app_step\<close>.\<close>

definition app_body :: "app_op \<Rightarrow> env \<Rightarrow> int \<Rightarrow> int \<Rightarrow> (ss, int) state" where
  "app_body op E pid v =
     (let st = app_state_of v in
      if app_step op st = st then return (if st = Unknown v then -1 else 0)
      else do {
        (if joins op st then check_and_set_old_backgrd E else return 0);
        set_app_oomadj E pid (score (app_step op st))
      })"

lemma app_state_of_eqs:
  "app_state_of (-17) = Su" "app_state_of (-16) = Fresh" "app_state_of (-15) = Foregrd_locked"
  "app_state_of (-10) = Foregrd_unlocked" "app_state_of (-5) = Backgrd_locked"
  "1 \<le> v \<Longrightarrow> app_state_of v = Backgrd (nat (v - 1))"
  "v \<notin> {-17, -16, -15, -10, -5} \<Longrightarrow> v < 1 \<Longrightarrow> app_state_of v = Unknown v"
  by (simp_all add: app_state_of_def oomadj_defs)

lemma score_cases:
  obtains "v = -17" | "v = -16" | "v = -15" | "v = -10" | "v = -5" | "v = (1::int)" | "1 < v"
  | "v \<notin> {-17, -16, -15, -10, -5}" "v < 1"
  by fastforce

lemma app_action_body: "app_action op E argc argv = with_app_oomadj E argc argv (app_body op E)"
proof (cases op)
  case Active
  have eq: "app_body Active E pid v = (if v = -15 \<or> v = -5 \<or> v = -17 then return 0
      else if v = -10 then set_app_oomadj E pid (-15) else if v = 1 then set_app_oomadj E pid (-5)
      else if v = -16 then set_app_oomadj E pid (-5)
      else if v > 1 then set_app_oomadj E pid (-5) else return (-1))" for pid v
    by (rule score_cases [of v]) (simp_all add: app_body_def app_state_of_eqs joins_def oomadj_defs)
  show ?thesis
    by (simp add: Active set_active_action_def oomadj_defs eq [abs_def] cong: if_cong)
next
  case Inactive
  have eq: "app_body Inactive E pid v = (if v = -10 \<or> v = 1 \<or> v = -17 then return 0
      else if v = -15 then set_app_oomadj E pid (-10)
      else if v = -5 then do { check_and_set_old_backgrd E; set_app_oomadj E pid 1 }
      else if v = -16 then do { check_and_set_old_backgrd E; set_app_oomadj E pid 1 }
      else if v > 1 then return 0 else return (-1))" for pid v
    by (rule score_cases [of v]) (simp_all add: app_body_def app_state_of_eqs joins_def oomadj_defs)
  show ?thesis
    by (simp add: Inactive set_inactive_action_def oomadj_defs eq [abs_def] cong: if_cong)
next
  case Foreground
  have eq: "app_body Foreground E pid v = (if v = -15 \<or> v = -10 \<or> v = -17 then return 0
      else if v = -5 then set_app_oomadj E pid (-15) else if v = 1 then set_app_oomadj E pid (-10)
      else if v = -16 then set_app_oomadj E pid (-10)
      else if v > 1 then set_app_oomadj E pid (-10) else return (-1))" for pid v
    by (rule score_cases [of v]) (simp_all add: app_body_def app_state_of_eqs joins_def oomadj_defs)
  show ?thesis
    by (simp add: Foreground set_foregrd_action_def oomadj_defs eq [abs_def] cong: if_cong)
next
  case Background
  have eq: "app_body Background E pid v = (if v = -5 \<or> v = 1 \<or> v = -17 then return 0
      else if v = -15 then set_app_oomadj E pid (-5)
      else if v = -10 then do { check_and_set_old_backgrd E; set_app_oomadj E pid 1 }
      else if v = -16 then do { check_and_set_old_backgrd E; set_app_oomadj E pid 1 }
      else if v > 1 then return 0 else return (-1))" for pid v
    by (rule score_cases [of v]) (simp_all add: app_body_def app_state_of_eqs joins_def oomadj_defs)
  show ?thesis
    by (simp add: Background set_backgrd_action_def oomadj_defs eq [abs_def] cong: if_cong)
qed

lemma aged_other: "m q = Some v \<Longrightarrow> v < OOMADJ_BACKGRD_UNLOCKED \<Longrightarrow> aged P m q = Some v"
  by (simp add: aged_def age_step_def age_score_def)

lemma app_body_root:
  fixes op s
  assumes "root_env E P" "alive s" "is_int32 pid" "oom_val s pid = Some v"
  defines "t \<equiv> exec (app_body op E pid v) s"
  shows "alive t" "oom_val t = scores_step P op pid (oom_val s)"
    "result (app_body op E pid v) s = (if app_state_of v = Unknown v then -1 else 0)"
proof -
  define st where "st = app_state_of v"
  have sv: "score st = v" by (simp add: st_def)
  have "alive t \<and> oom_val t = scores_step P op pid (oom_val s) \<and>
    result (app_body op E pid v) s = (if app_state_of v = Unknown v then -1 else 0)"
  proof (cases "app_step op st = st")
    case True
    then have "\<not> joins op st" by (simp add: joins_def)
    with True show ?thesis
      using assms(2,4) sv
      by (auto simp: t_def app_body_def Let_def st_def [symmetric] scores_step_def fun_upd_idem)
  next
    case False
    define s1 where "s1 = (if joins op st then exec (check_and_set_old_backgrd E) s else s)"
    have low: "joins op st \<Longrightarrow> v < OOMADJ_BACKGRD_UNLOCKED"
      unfolding sv [symmetric] by (cases st) (auto simp: joins_def oomadj_defs)
    have v: "\<not> v < OOMADJ_APP_LIMIT" "is_int32 (score (app_step op st))" "st \<noteq> Unknown v"
      unfolding sv [symmetric] using False
      by (cases op; cases st; simp add: oomadj_defs is_int32_def INT_MAX_def INT_MIN_def)+
    have s1: "alive s1" "oom_val s1 = (if joins op st then aged P (oom_val s) else oom_val s)"
      using check_old_root [OF assms(1,2)] assms(2) by (simp_all add: s1_def)
    then have pid: "oom_val s1 pid = Some v"
      using assms(4) low aged_other by simp
    have run: "t = exec (set_app_oomadj E pid (score (app_step op st))) s1"
      "result (app_body op E pid v) s = result (set_app_oomadj E pid (score (app_step op st))) s1"
      using False by (simp_all add: t_def app_body_def Let_def st_def [symmetric] s1_def)
    show ?thesis
      using set_app_oomadj_root [OF assms(1) s1(1) assms(3) v(2) pid] v s1 assms(4)
      by (simp_all add: run scores_step_def st_def [symmetric])
  qed
  then show "alive t" "oom_val t = scores_step P op pid (oom_val s)"
    "result (app_body op E pid v) s = (if app_state_of v = Unknown v then -1 else 0)" by simp_all
qed

lemma scores_step_None: "m pid = None \<Longrightarrow> scores_step P op pid m = m"
  by (simp add: scores_step_def)

lemma app_action_root:
  fixes op s
  assumes "root_env E P" "alive s" "1 \<le> argc" "argv_at argv 0 = Some a" "0 \<le> atoi a"
  defines "t \<equiv> exec (app_action op E argc argv) s"
  shows "alive t" "oom_val t = scores_step P op (atoi a) (oom_val s)"
    "result (app_action op E argc argv) s =
       (case oom_val s (atoi a) of None \<Rightarrow> -1
        | Some v \<Rightarrow> if app_state_of v = Unknown v then -1 else 0)"
proof -
  define s1 where "s1 = exec (get_app_oomadj E (atoi a) 0) s"
  have s1: "s1 = log_call (FS (Fopen (oom_adj_path (atoi a)) Rd)) s"
    unfolding s1_def using get_app_oomadj_root(1) [OF assms(1) is_int32_atoi assms(5)] .
  have s1': "alive s1" "oom_val s1 = oom_val s" using assms(2) by (simp_all add: s1)
  have run: "t = (case oom_val s (atoi a) of None \<Rightarrow> s1
      | Some v \<Rightarrow> exec (app_body op E (atoi a) v) s1)"
    "result (app_action op E argc argv) s = (case oom_val s (atoi a) of None \<Rightarrow> -1
      | Some v \<Rightarrow> result (app_body op E (atoi a) v) s1)"
    using assms(3-5) get_app_oomadj_root(2) [OF assms(1) is_int32_atoi assms(5), of s]
    by (auto simp: t_def app_action_body with_app_oomadj_def s1_def Let_def split: option.split)
  show "alive t" "oom_val t = scores_step P op (atoi a) (oom_val s)"
    "result (app_action op E argc argv) s =
       (case oom_val s (atoi a) of None \<Rightarrow> -1
        | Some v \<Rightarrow> if app_state_of v = Unknown v then -1 else 0)"
    using app_body_root [OF assms(1) s1'(1) is_int32_atoi] s1'
    by (auto simp: run scores_step_None split: option.split)
qed

section \<open>The background applications are ordered by age\<close>

text \<open>The processes of the listing that are in background, unlocked and not yet over the limit.\<close>

definition aging :: "int set \<Rightarrow> (int \<rightharpoonup> int) \<Rightarrow> int set" where
  "aging P m = {q \<in> P. \<exists>v. m q = Some v \<and> OOMADJ_BACKGRD_UNLOCKED \<le> v \<and> v < LIMITED_PROCESS_OOMADJ}"

definition lru :: "int set \<Rightarrow> (int \<rightharpoonup> int) \<Rightarrow> bool" where
  "lru P m \<longleftrightarrow> inj_on m (aging P m)"

lemma aging_age_step:
  "q \<in> aging P (age_step P m) \<Longrightarrow> q \<in> aging P m \<and> age_step P m q = Some (the (m q) + 1)"
  by (cases "m q")
    (simp_all add: aging_def age_step_other age_score_def oomadj_defs split: if_splits)

lemma lru_age_step:
  assumes "lru P m"
  shows "lru P (age_step P m)"
    "\<forall>q \<in> aging P (age_step P m). age_step P m q \<noteq> Some OOMADJ_BACKGRD_UNLOCKED"
proof -
  have some: "q \<in> aging P m \<Longrightarrow> m q = Some (the (m q))" for q by (auto simp: aging_def)
  show "lru P (age_step P m)"
    unfolding lru_def
  proof (rule inj_onI)
    fix x y
    assume a: "x \<in> aging P (age_step P m)" "y \<in> aging P (age_step P m)" "age_step P m x = age_step P m y"
    then have "the (m x) = the (m y)" using aging_age_step by fastforce
    with a(1,2) have "m x = m y" using aging_age_step some by metis
    then show "x = y" using assms a(1,2) aging_age_step unfolding lru_def inj_on_def by blast
  qed
  show "\<forall>q \<in> aging P (age_step P m). age_step P m q \<noteq> Some OOMADJ_BACKGRD_UNLOCKED"
  proof
    fix q
    assume q: "q \<in> aging P (age_step P m)"
    then have "1 \<le> the (m q)"
      using aging_age_step [OF q] by (auto simp: aging_def oomadj_defs)
    then show "age_step P m q \<noteq> Some OOMADJ_BACKGRD_UNLOCKED"
      using aging_age_step [OF q] by (simp add: oomadj_defs)
  qed
qed

lemma lru_aged:
  assumes "lru P m"
  shows "lru P (aged P m)" "\<forall>q \<in> P. aged P m q \<noteq> Some OOMADJ_BACKGRD_UNLOCKED"
proof -
  show "lru P (aged P m)" using assms lru_age_step by (simp add: aged_def)
  show "\<forall>q \<in> P. aged P m q \<noteq> Some OOMADJ_BACKGRD_UNLOCKED"
  proof (cases "newest_taken P m")
    case True
    have "q \<in> aging P (age_step P m)" if "q \<in> P" "age_step P m q = Some OOMADJ_BACKGRD_UNLOCKED" for q
      using that by (auto simp: aging_def oomadj_defs)
    with True lru_age_step(2) [OF assms] show ?thesis by (auto simp: aged_def)
  next
    case False
    then show ?thesis by (simp add: aged_def newest_taken_def)
  qed
qed

lemma lru_upd_out:
  assumes "lru P m" "w < OOMADJ_BACKGRD_UNLOCKED \<or> LIMITED_PROCESS_OOMADJ \<le> w"
  shows "lru P (m(q \<mapsto> w))"
proof -
  have "aging P (m(q \<mapsto> w)) \<subseteq> aging P m - {q}" using assms(2) by (auto simp: aging_def)
  then show ?thesis using assms(1) unfolding lru_def inj_on_def by (auto dest: subsetD)
qed

lemma lru_upd_newest:
  assumes "lru P m" "\<forall>r \<in> P. m r \<noteq> Some OOMADJ_BACKGRD_UNLOCKED"
  shows "lru P (m(q \<mapsto> OOMADJ_BACKGRD_UNLOCKED))"
  unfolding lru_def
proof (rule inj_onI)
  let ?m = "m(q \<mapsto> OOMADJ_BACKGRD_UNLOCKED)"
  fix x y
  assume a: "x \<in> aging P ?m" "y \<in> aging P ?m" "?m x = ?m y"
  have P: "x \<in> P" "y \<in> P" using a by (simp_all add: aging_def)
  show "x = y"
  proof (cases "x = q \<or> y = q")
    case True
    then show ?thesis using a(3) assms(2) P by (metis fun_upd_apply)
  next
    case False
    then have "x \<in> aging P m" "y \<in> aging P m" "m x = m y" using a by (simp_all add: aging_def)
    then show ?thesis using assms(1) by (simp add: lru_def inj_on_def)
  qed
qed

lemma lru_scores_step:
  assumes "lru P m"
  shows "lru P (scores_step P op pid m)"
proof (cases "m pid")
  case None
  with assms show ?thesis by (simp add: scores_step_None)
next
  case (Some v)
  define st where "st = app_state_of v"
  have sv: "score st = v" by (simp add: st_def)
  show ?thesis
  proof (cases "joins op st")
    case True
    then have "app_step op st = Backgrd 0" by (cases op; cases st) (simp_all add: joins_def)
    then have "score (app_step op st) = OOMADJ_BACKGRD_UNLOCKED" by (simp add: oomadj_defs)
    then show ?thesis
      using Some True lru_aged [OF assms] lru_upd_newest
      by (simp add: scores_step_def st_def [symmetric])
  next
    case False
    have "score (app_step op st) = v \<or> score (app_step op st) < OOMADJ_BACKGRD_UNLOCKED"
      using False unfolding sv [symmetric]
      by (cases op; cases st) (simp_all add: joins_def oomadj_defs)
    then show ?thesis
      using Some False assms lru_upd_out [OF assms]
      by (auto simp: scores_step_def st_def [symmetric] fun_upd_idem)
  qed
qed

section \<open>Runs of requests\<close>

text \<open>The requests to the process manager: its four actions on an application, and the one that sets a score.\<close>

datatype app_request = App app_op int "string option list" | Set_score int "string option list"

fun run_request :: "env \<Rightarrow> app_request \<Rightarrow> (ss, int) state" where
  "run_request E (App op argc argv) = app_action op E argc argv"
| "run_request E (Set_score argc argv) = set_oomadj_action E argc argv"

definition run_requests :: "env \<Rightarrow> app_request list \<Rightarrow> ss \<Rightarrow> ss" where
  "run_requests E = fold (\<lambda>r. exec (run_request E r))"

text \<open>The process and the score a request names itself.\<close>

fun named_score :: "app_request \<Rightarrow> (int \<times> int) option" where
  "named_score (App op argc argv) = None"
| "named_score (Set_score argc argv) =
     (case (argv_at argv 0, argv_at argv 1) of
        (Some a, Some b) \<Rightarrow> if 2 \<le> argc then Some (atoi a, atoi b) else None
      | _ \<Rightarrow> None)"

lemma app_action_stops [stops]: "obeys_halt (app_action op E argc argv)"
  by (cases op) (simp_all add: stops)

lemma app_body_stops [stops]: "obeys_halt (app_body op E pid v)"
proof -
  have "obeys_halt (check_and_set_old_backgrd E)"
    unfolding check_and_set_old_backgrd_def age_process_def by (intro stops)
  then show ?thesis unfolding app_body_def Let_def by (intro stops)
qed

lemma SIGTERM_kills_fprintf [simp]: "SIGTERM_kills (exec (fprintf E p t) s) = SIGTERM_kills s"
  by (auto simp: fprintf_def SIGTERM_kills_def)

lemma SIGTERM_kills_sysman [simp]: "SIGTERM_kills (log_call (SYSMAN f) s) = SIGTERM_kills s"
  by (auto simp: SIGTERM_kills_def)

lemma set_app_oomadj_kills [simp]: "SIGTERM_kills (exec (set_app_oomadj E pid v) s) = SIGTERM_kills s"
  by (simp add: set_app_oomadj_def split: option.split)

lemma get_app_oomadj_effect [simp]:
  "SIGTERM_kills (exec (get_app_oomadj E pid v) s) = SIGTERM_kills s"
  "oom_val (exec (get_app_oomadj E pid v) s) = oom_val s"
  "alive (exec (get_app_oomadj E pid v) s) \<longleftrightarrow> alive s"
  by (simp_all add: get_app_oomadj_def split: option.split)

lemma app_body_kills:
  assumes "root_env E P" "alive s"
  shows "SIGTERM_kills (exec (app_body op E pid v) s) \<subseteq> SIGTERM_kills s \<union> over_limit P (oom_val s)"
  using check_old_root(3) [OF assms] by (auto simp: app_body_def Let_def)

lemma kept_on_halt:
  "oom_val (s\<lparr>halted := h\<rparr>) = oom_val s" "SIGTERM_kills (s\<lparr>halted := h\<rparr>) = SIGTERM_kills s"
  by (auto simp: oom_val_def fgets_def fun_eq_iff SIGTERM_kills_def)

text \<open>Everything a request may do to the scores and the processes.\<close>

lemma app_action_effect:
  assumes "root_env E P"
  shows "oom_val (exec (app_action op E argc argv) s) = oom_val s \<or>
      (\<exists>pid. oom_val (exec (app_action op E argc argv) s) = scores_step P op pid (oom_val s))"
    and "SIGTERM_kills (exec (app_action op E argc argv) s) \<subseteq>
      SIGTERM_kills s \<union> over_limit P (oom_val s)"
proof -
  let ?t = "exec (app_action op E argc argv) s"
  have "(oom_val ?t = oom_val s \<or> (\<exists>pid. oom_val ?t = scores_step P op pid (oom_val s))) \<and>
      SIGTERM_kills ?t \<subseteq> SIGTERM_kills s \<union> over_limit P (oom_val s)"
  proof (cases "alive s \<and> 1 \<le> argc \<and> (\<exists>a. argv_at argv 0 = Some a \<and> 0 \<le> atoi a)")
    case True
    then obtain a where a: "alive s" "1 \<le> argc" "argv_at argv 0 = Some a" "0 \<le> atoi a" by blast
    let ?s1 = "exec (get_app_oomadj E (atoi a) 0) s"
    have "SIGTERM_kills ?t \<subseteq> SIGTERM_kills s \<union> over_limit P (oom_val s)"
      using a app_body_kills [OF assms, of ?s1 op "atoi a"]
      by (auto simp: app_action_body with_app_oomadj_def Let_def split: prod.split if_splits)
    with app_action_root(2) [OF assms a, of op] show ?thesis by blast
  next
    case False
    have at0: "atoi [] = 0" by (simp add: atoi_def)
    consider "\<not> alive s" | "alive s" "argc < 1" | "alive s" "1 \<le> argc" "argv_at argv 0 = None"
      | a where "alive s" "1 \<le> argc" "argv_at argv 0 = Some a" "atoi a < 0"
      using False by (cases "argv_at argv 0") fastforce+
    then show ?thesis
    proof cases
      case 1
      then show ?thesis using obeys_haltD [OF app_action_stops] by simp
    next
      case 3
      let ?d = "s\<lparr>halted := Some NullDeref\<rparr>"
      have d: "\<not> alive ?d" by simp
      have "?t = ?d"
        using 3 obeys_haltD [OF stops_procmgr(6) d] obeys_haltD [OF app_body_stops d]
        by (simp add: app_action_body with_app_oomadj_def deref_def Let_def at0 split: prod.split)
      then show ?thesis by (simp add: kept_on_halt)
    qed (auto simp: app_action_body with_app_oomadj_def Let_def)
  qed
  then show "oom_val ?t = oom_val s \<or> (\<exists>pid. oom_val ?t = scores_step P op pid (oom_val s))"
    "SIGTERM_kills ?t \<subseteq> SIGTERM_kills s \<union> over_limit P (oom_val s)" by simp_all
qed

lemma deref_None:
  "alive s \<Longrightarrow> (\<And>x. obeys_halt (g x)) \<Longrightarrow> exec (deref None \<bind> g) s = s\<lparr>halted := Some NullDeref\<rparr>"
  by (simp add: obeys_haltD)

lemma deref_Some: "exec (deref (Some a) \<bind> g) s = exec (g a) s"
  by simp

lemma set_score_effect:
  fixes E P argc argv s
  assumes "root_env E P"
  defines "t \<equiv> exec (set_oomadj_action E argc argv) s"
  shows "oom_val t = oom_val s \<or>
      (\<exists>q v. named_score (Set_score argc argv) = Some (q, v) \<and> oom_val t = (oom_val s)(q \<mapsto> v))"
    and "SIGTERM_kills t = SIGTERM_kills s"
proof -
  have "(oom_val t = oom_val s \<or>
      (\<exists>q v. named_score (Set_score argc argv) = Some (q, v) \<and> oom_val t = (oom_val s)(q \<mapsto> v))) \<and>
    SIGTERM_kills t = SIGTERM_kills s"
  proof (cases "alive s \<and> 2 \<le> argc \<and> argv_at argv 0 \<noteq> None \<and> argv_at argv 1 \<noteq> None")
    case True
    then obtain a b where a: "alive s" "2 \<le> argc" "argv_at argv 0 = Some a" "argv_at argv 1 = Some b" by blast
    let ?p = "oom_adj_path (atoi a)"
    have "oom_val (exec (fprintf E ?p (show_int (atoi b))) (log_call (FS (Fopen ?p Wr)) s)) = (oom_val s)(atoi a \<mapsto> atoi b)"
      using oom_val_fprintf [OF assms(1) _ is_int32_atoi is_int32_atoi, of "log_call (FS (Fopen ?p Wr)) s"] a(1) by simp
    then show ?thesis using a by (auto simp: t_def set_oomadj_action_def)
  next
    case False
    then consider "\<not> alive s" | "alive s" "argc < 2" | "alive s" "argv_at argv 0 = None"
      | a where "alive s" "argv_at argv 0 = Some a" "argv_at argv 1 = None"
      by fastforce
    then have "t = s \<or> t = s\<lparr>halted := Some NullDeref\<rparr>"
    proof cases
      case 1
      then show ?thesis using obeys_haltD [OF stops_procmgr(5)] by (simp add: t_def)
    qed (simp_all add: t_def set_oomadj_action_def deref_None deref_Some stops del: exec_bind)
    then show ?thesis by (auto simp: kept_on_halt)
  qed
  then show "oom_val t = oom_val s \<or>
      (\<exists>q v. named_score (Set_score argc argv) = Some (q, v) \<and> oom_val t = (oom_val s)(q \<mapsto> v))"
    "SIGTERM_kills t = SIGTERM_kills s" by blast+
qed

section \<open>A concrete system\<close>

definition apps_env :: env where
  "apps_env = env1\<lparr>e_dir := (\<lambda>_ _. [''.'', ''12'', ''13'', ''self''])\<rparr>"

definition apps_state :: ss where
  "apps_state = boot\<lparr>files := (\<lambda>_. None)(oom_adj_path 12 \<mapsto> show_int 1, oom_adj_path 13 \<mapsto> show_int (-10),
     oom_adj_path 14 \<mapsto> show_int (-17))\<rparr>"

lemma atoi_literals: "atoi ''12'' = 12" "atoi ''13'' = 13"
  by code_simp+

lemma apps_root: "root_env apps_env {12, 13}"
proof -
  have "filter numeric [''.'', ''12'', ''13'', ''self''] = [''12'', ''13'']" by code_simp
  then show ?thesis by (simp add: root_env_def apps_env_def atoi_literals)
qed

lemma apps_scores: "oom_val apps_state = (\<lambda>_. None)(12 \<mapsto> 1, 13 \<mapsto> -10, 14 \<mapsto> -17)"
proof -
  have 0: "oom_val boot = (\<lambda>_. None)"
    by (simp add: oom_val_def fgets_def fun_eq_iff)
  have 32: "is_int32 12" "is_int32 1" "is_int32 13" "is_int32 14" "is_int32 (-10)" "is_int32 (-17)"
    by (simp_all add: is_int32_def INT_MAX_def INT_MIN_def)
  define s1 where "s1 = boot\<lparr>files := (files boot)(oom_adj_path 12 \<mapsto> show_int 1)\<rparr>"
  define s2 where "s2 = s1\<lparr>files := (files s1)(oom_adj_path 13 \<mapsto> show_int (-10))\<rparr>"
  have s1: "oom_val s1 = (\<lambda>_. None)(12 \<mapsto> 1)"
    unfolding s1_def oom_val_write [OF 32(1,2)] 0 ..
  have s2: "oom_val s2 = (\<lambda>_. None)(12 \<mapsto> 1, 13 \<mapsto> -10)"
    unfolding s2_def oom_val_write [OF 32(3,5)] s1 ..
  have eq: "apps_state = s2\<lparr>files := (files s2)(oom_adj_path 14 \<mapsto> show_int (-17))\<rparr>"
    by (simp add: apps_state_def s1_def s2_def)
  show ?thesis unfolding eq oom_val_write [OF 32(4,6)] s2 ..
qed

lemma apps_alive: "alive apps_state" "SIGTERM_kills apps_state = {}"
  by (simp_all add: apps_state_def SIGTERM_kills_def)

section \<open>Properties\<close>

text \<open>
  C13: The four out-of-memory actions refine one state machine per application: for an
  application whose score can be read, an action moves its score to the one of the next
  abstract state; when the application joins the background and some process has the score
  of the newest background application, every process that has a background score below the
  limit is first made one older; no other score changes.  The action fails exactly on an
  unknown score.
\<close>

theorem app_actions_refine_app_step:
  assumes "root_env E P" "alive s" "1 \<le> argc" "argv_at argv 0 = Some a" "0 \<le> atoi a"
    and "oom_val s (atoi a) = Some v"
  shows "oom_val (exec (app_action op E argc argv) s) =
      (if joins op (app_state_of v) then aged P (oom_val s) else oom_val s)
        (atoi a \<mapsto> score (app_step op (app_state_of v))) \<and>
    result (app_action op E argc argv) s = (if app_state_of v = Unknown v then -1 else 0)"
  using app_action_root(2,3) [OF assms(1-5), of op] assms(6) by (simp add: scores_step_def)

lemma app_actions_refine_app_step_witness:
  "oom_val (exec (app_action Background apps_env 1 [Some ''13'']) apps_state) =
     (\<lambda>_. None)(12 \<mapsto> 2, 13 \<mapsto> 1, 14 \<mapsto> -17) \<and>
   result (app_action Background apps_env 1 [Some ''13'']) apps_state = 0"
proof -
  have st: "app_state_of (-10) = Foregrd_unlocked" by (simp add: app_state_of_eqs)
  have "aged {12, 13} ((\<lambda>_. None)(12 \<mapsto> 1, 13 \<mapsto> -10, 14 \<mapsto> -17)) =
      (\<lambda>_. None)(12 \<mapsto> 2, 13 \<mapsto> -10, 14 \<mapsto> -17)"
    by (auto simp: aged_def newest_taken_def age_step_def age_score_def oomadj_defs)
  then show ?thesis
    using app_actions_refine_app_step [OF apps_root apps_alive(1), of 1 "[Some ''13'']" "''13''" "-10" Background]
    by (simp add: argv_at_def atoi_literals apps_scores st joins_def oomadj_defs fun_upd_twist)
qed

text \<open>
  C21: On a system that lets the daemon read and write the scores: if no two background
  applications below the limit have the same age, this stays so whatever requests the process manager serves, in whatever order and with whatever
  arguments, as long as the requests that name a score themselves name none of a
  background application below the limit.
\<close>

theorem background_ages_stay_distinct:
  assumes "root_env E P" "lru P (oom_val s)"
    and "\<And>r q v. r \<in> set reqs \<Longrightarrow> named_score r = Some (q, v) \<Longrightarrow>
      v < OOMADJ_BACKGRD_UNLOCKED \<or> LIMITED_PROCESS_OOMADJ \<le> v"
  shows "lru P (oom_val (run_requests E reqs s))"
  using assms(2,3)
proof (induction reqs arbitrary: s)
  case Nil
  then show ?case by (simp add: run_requests_def)
next
  case (Cons r reqs)
  have "lru P (oom_val (exec (run_request E r) s))"
  proof (cases r)
    case (App op argc argv)
    then show ?thesis
      using app_action_effect(1) [OF assms(1), of op argc argv s] lru_scores_step [OF Cons.prems(1)] Cons.prems(1)
      by (metis run_request.simps(1))
  next
    case (Set_score argc argv)
    then show ?thesis
      using set_score_effect(1) [OF assms(1), of argc argv s] lru_upd_out [OF Cons.prems(1)] Cons.prems
      by (metis list.set_intros(1) run_request.simps(2))
  qed
  then have "lru P (oom_val (run_requests E reqs (exec (run_request E r) s)))"
    by (rule Cons.IH) (rule Cons.prems(2), simp_all)
  then show ?case by (simp add: run_requests_def)
qed

lemma background_ages_stay_distinct_witness:
  "lru {12, 13} (oom_val (run_requests apps_env
     [App Background 1 [Some ''13''], Set_score 2 [Some ''14'', Some ''15''], App Foreground 1 [Some ''12'']] apps_state))"
proof (rule background_ages_stay_distinct [OF apps_root])
  show "lru {12, 13} (oom_val apps_state)"
    by (auto simp: apps_scores lru_def aging_def inj_on_def oomadj_defs)
  have "atoi ''15'' = 15" by code_simp
  then show "v < OOMADJ_BACKGRD_UNLOCKED \<or> LIMITED_PROCESS_OOMADJ \<le> v"
    if "r \<in> set [App Background 1 [Some ''13''], Set_score 2 [Some ''14'', Some ''15''], App Foreground 1 [Some ''12'']]"
      "named_score r = Some (q, v)" for r q v
    using that by (auto simp: argv_at_def oomadj_defs)
qed

text \<open>
  Without that condition two requests are enough to give two applications the same age.
\<close>

theorem set_score_breaks_ages:
  assumes "root_env E P" "alive s" "p \<in> P" "q \<in> P" "p \<noteq> q" "oom_val s p = Some 1"
    and "files s (oom_adj_path q) \<noteq> None" "argv_at argv 0 = Some a" "atoi a = q" "0 \<le> q"
    and "argv_at argv 1 = Some b" "atoi b = 1"
  shows "\<not> lru P (oom_val (run_requests E [Set_score 2 argv] s))"
proof -
  let ?path = "oom_adj_path q"
  have q: "is_int32 q" using assms(9) is_int32_atoi by metis
  have "oom_val (exec (fprintf E ?path (show_int 1)) (log_call (FS (Fopen ?path Wr)) s)) = (oom_val s)(q \<mapsto> 1)"
    using oom_val_fprintf [OF assms(1) _ q, of "log_call (FS (Fopen ?path Wr)) s" 1] assms(2)
    by (simp add: is_int32_def INT_MAX_def INT_MIN_def)
  then have "oom_val (run_requests E [Set_score 2 argv] s) = (oom_val s)(q \<mapsto> 1)"
    using assms by (simp add: run_requests_def set_oomadj_action_def fopen_result_root [OF assms(1)])
  moreover have "p \<in> aging P ((oom_val s)(q \<mapsto> 1))" "q \<in> aging P ((oom_val s)(q \<mapsto> 1))"
    using assms(3-6) by (simp_all add: aging_def oomadj_defs)
  ultimately show ?thesis
    using assms(5,6) inj_onD [of "(oom_val s)(q \<mapsto> 1)" "aging P ((oom_val s)(q \<mapsto> 1))" p q]
    by (simp add: lru_def) blast
qed

text \<open>
  C30: On a system that lets the daemon read and write the scores, a process with the
  superuser score keeps it and is never sent SIGTERM by the process manager, whatever
  requests that serves, unless one sets the score of that very process.
\<close>

theorem superuser_never_touched:
  assumes "root_env E P" "oom_val s q = Some OOMADJ_SU" "q \<notin> SIGTERM_kills s"
    and "\<And>r v. r \<in> set reqs \<Longrightarrow> named_score r \<noteq> Some (q, v)"
  shows "oom_val (run_requests E reqs s) q = Some OOMADJ_SU \<and>
    q \<notin> SIGTERM_kills (run_requests E reqs s)"
  using assms(2-4)
proof (induction reqs arbitrary: s)
  case Nil
  then show ?case by (simp add: run_requests_def)
next
  case (Cons r reqs)
  let ?t = "exec (run_request E r) s"
  have "oom_val ?t q = Some OOMADJ_SU \<and> q \<notin> SIGTERM_kills ?t"
  proof (cases r)
    case (App op argc argv)
    have "app_state_of OOMADJ_SU = Su" by (simp add: app_state_of_def)
    then have "scores_step P op pid (oom_val s) q = Some OOMADJ_SU" for pid
      using Cons.prems(1) aged_other [of "oom_val s" q OOMADJ_SU P]
      by (cases "pid = q") (auto simp: scores_step_def oomadj_defs split: option.split)
    moreover have "q \<notin> over_limit P (oom_val s)"
      using Cons.prems(1) by (simp add: over_limit_def oomadj_defs)
    ultimately show ?thesis
      using app_action_effect [OF assms(1), of op argc argv s] Cons.prems(1,2) App
      by (metis UnE run_request.simps(1) subsetD)
  next
    case (Set_score argc argv)
    then have "named_score (Set_score argc argv) \<noteq> Some (q, v)" for v
      using Cons.prems(3) by (simp del: named_score.simps)
    then show ?thesis
      using set_score_effect [OF assms(1), of argc argv s] Cons.prems(1,2) Set_score
      by (metis fun_upd_apply run_request.simps(2))
  qed
  then have "oom_val (run_requests E reqs ?t) q = Some OOMADJ_SU \<and> q \<notin> SIGTERM_kills (run_requests E reqs ?t)"
    by (intro Cons.IH) (simp_all add: Cons.prems(3))
  then show ?case by (simp add: run_requests_def)
qed

lemma superuser_never_touched_witness:
  "oom_val (run_requests apps_env [App Inactive 1 [Some ''14''], Set_score 2 [Some ''12'', Some ''3''],
     App Background 0 []] apps_state) 14 = Some OOMADJ_SU"
proof -
  have "\<not> (r \<in> set [App Inactive 1 [Some ''14''], Set_score 2 [Some ''12'', Some ''3''], App Background 0 []] \<and>
      named_score r = Some (14, v))" for r v
    by (auto simp: argv_at_def atoi_literals)
  then show ?thesis
    using superuser_never_touched [OF apps_root, of apps_state 14]
    by (simp add: apps_scores oomadj_defs apps_alive del: list.set insert_iff)
qed

end
