(* ===== verification/SS_Predefine.thy ===== *)
theory SS_Predefine
  imports SS_Launch SS_Procmgr SS_Noti
begin

text \<open>
  \<open>ss_predefine.c\<close>: the built-in actions (low memory, low battery, USB and earjack
  connection, power off, restart, the popup), the registration of the built-in actions
  and of those found in the plug-in directory.

  \<open>reboot\<close> does not return when it succeeds: its result is -1, or the state ends in
  \<open>Rebooted\<close>.  The text \<open>localtime_r\<close> and the format string make of the time is what
  the environment gives for \<open>Localtime\<close>.  The loop that waits for the end of the
  animation has a bound on its iterations; a state that reaches it ends in \<open>Blocked\<close>.
\<close>

section \<open>Low memory\<close>

definition LOWMEM_EXEC_PATH :: string where "LOWMEM_EXEC_PATH = PREFIX @ ''/bin/lowmem-popup''"
definition USBCON_EXEC_PATH :: string where "USBCON_EXEC_PATH = PREFIX @ ''/bin/usb-server''"
definition MEMPS_EXEC_PATH :: string where "MEMPS_EXEC_PATH = PREFIX @ ''/bin/memps''"
definition MEMPS_LOG_FILE :: string where "MEMPS_LOG_FILE = ''/var/log/memps''"
definition PREDEFINE_SO_DIR :: string where "PREDEFINE_SO_DIR = PREFIX @ ''/lib/ss_predefine/''"
definition POWEROFF_NOTI_NAME :: string where "POWEROFF_NOTI_NAME = ''power_off_start''"
definition POWEROFF_DURATION :: int where "POWEROFF_DURATION = 2"

definition make_memps_log :: "env \<Rightarrow> string \<Rightarrow> int \<Rightarrow> string \<Rightarrow> (ss, unit) state" where
  "make_memps_log E file pid victim_name = do {
     old \<leftarrow> getv (\<lambda>s. old_pid (pre s));
     if old = pid then return ()
     else do {
       set_pre (\<lambda>p. p\<lparr>old_pid := pid\<rparr>);
       call E (OS Time);
       cur_tm \<leftarrow> call E (OS (Malloc 44));
       if cur_tm = 0 then return ()
       else do {
         stamp \<leftarrow> call_str E (OS Localtime);
         case stamp of
           None \<Rightarrow> return ()
         | Some ts \<Rightarrow> do {
             let new_log = take (NAME_MAX - 1)
               (file @ ''_'' @ victim_name @ ''_'' @ show_int pid @ ''_'' @ ts @ ''.log'');
             ret \<leftarrow> ss_launch_evenif_exist E (Some MEMPS_EXEC_PATH) (Some (''-f '' @ new_log));
             if ret > 0 then do {
               fp \<leftarrow> fopen E (oom_adj_path ret) Wr;
               if fp then fprintf E (oom_adj_path ret) (show_int (-17)) else return ()
             } else return ()
           }
       }
     }
   }"

definition lowmem_get_victim_pid :: "env \<Rightarrow> (ss, int) state" where
  "lowmem_get_victim_pid E = do {
     junk \<leftarrow> get_junk E;
     (r, pid) \<leftarrow> call_out E (OEM (Get OEM_memnotify_victim_task)) junk;
     return (if 0 > r then -1 else pid)
   }"

text \<open>What happens to a victim whose command line could be read.\<close>

definition kill_victim :: "env \<Rightarrow> int \<Rightarrow> string \<Rightarrow> (ss, int) state" where
  "kill_victim E pid appname = do {
     make_memps_log E MEMPS_LOG_FILE pid appname;
     junk \<leftarrow> get_junk E;
     (_, oom_adj) \<leftarrow> get_app_oomadj E pid junk;
     call E (OS (Kill pid SIGTERM));
     if oom_adj \<ge> OOMADJ_BACKGRD_UNLOCKED then return 0
     else do {
       call E (POPUP Bundle_create);
       call E (POPUP (Bundle_add ''_APP_NAME_'' appname));
       ret \<leftarrow> call E (POPUP (Syspopup_launch ''lowmem-syspopup''));
       call E (POPUP Bundle_free);
       if ret < 0 then return (-1)
       else do { set_app_oomadj E ret OOMADJ_SU; return 0 }
     }
   }"

text \<open>The test \<open>pid > 0 && pid != ... && pid != ...\<close>, evaluated from the left.\<close>

definition victim_allowed :: "env \<Rightarrow> int \<Rightarrow> (ss, bool) state" where
  "victim_allowed E pid =
     (if pid > 0 then do {
        p1 \<leftarrow> call E (SYSMAN (Get_pid LOWMEM_EXEC_PATH));
        if pid \<noteq> p1 then do {
          p2 \<leftarrow> call E (SYSMAN (Get_pid MEMPS_EXEC_PATH));
          return (pid \<noteq> p2)
        } else return False
      } else return False)"

definition lowmem_def_predefine_action ::
  "env \<Rightarrow> int \<Rightarrow> string option list \<Rightarrow> (ss, int) state" where
  "lowmem_def_predefine_action E argc argv =
     (if argc < 1 then return (-1)
      else do {
        a0 \<leftarrow> deref (argv_at argv 0);
        if a0 = OOM_MEM_ACT then do {
          pid \<leftarrow> lowmem_get_victim_pid E;
          ok \<leftarrow> victim_allowed E pid;
          if ok then do {
            appname \<leftarrow> peek_str E (SYSMAN (Get_cmdline_name pid));
            r \<leftarrow> call E (SYSMAN (Get_cmdline_name pid));
            if r = 0 then kill_victim E pid (str_or_empty appname) else return 0
          } else return 0
        } else do {
          make_memps_log E MEMPS_LOG_FILE 1 ''LOWMEM_WARNING'';
          return 0
        }
      })"

section \<open>USB, earjack\<close>

definition usbcon_def_predefine_action ::
  "env \<Rightarrow> int \<Rightarrow> string option list \<Rightarrow> (ss, int) state" where
  "usbcon_def_predefine_action E argc argv = do {
     (r, val) \<leftarrow> call_out E (OEM (Get OEM_jack_usb_online)) (-1);
     if r = 0 then
       if val = 0 then do {
         call E (VCONF (Set_int VK_USB_STATUS (konst E K_USB_DISCONNECTED)));
         call E (PM (Unlock_state LCD_OFF STAY_CUR_STATE));
         (_, bat_state) \<leftarrow> call_out E (VCONF (Get_int VK_BATTERY_STATUS_LOW)) (konst E K_BAT_NORMAL);
         (if bat_state < konst E K_BAT_NORMAL then do {
            call E (POPUP Bundle_create);
            call E (POPUP (Bundle_add ''_SYSPOPUP_CONTENT_'' ''warning''));
            call E (POPUP (Syspopup_launch ''lowbat-syspopup''));
            call E (POPUP Bundle_free);
            return ()
          } else return ());
         return 0
       } else do {
         call E (VCONF (Set_int VK_USB_STATUS (konst E K_USB_AVAILABLE)));
         call E (PM (Lock_state LCD_OFF STAY_CUR_STATE 0));
         pid \<leftarrow> ss_launch_if_noexist E (Some USBCON_EXEC_PATH) None;
         if pid < 0 then return (-1) else return pid
       }
     else return (-1)
   }"

definition earjackcon_def_predefine_action ::
  "env \<Rightarrow> int \<Rightarrow> string option list \<Rightarrow> (ss, int) state" where
  "earjackcon_def_predefine_action E argc argv = do {
     junk \<leftarrow> get_junk E;
     (r, val) \<leftarrow> call_out E (OEM (Get OEM_jack_earjack_online)) junk;
     if r = 0 then call E (VCONF (Set_int VK_EARJACK val)) else return (-1)
   }"

section \<open>Low battery\<close>

definition LOWBAT_OPT_WARNING :: int where "LOWBAT_OPT_WARNING = 1"
definition LOWBAT_OPT_POWEROFF :: int where "LOWBAT_OPT_POWEROFF = 2"
definition LOWBAT_OPT_CHARGEERR :: int where "LOWBAT_OPT_CHARGEERR = 3"
definition LOWBAT_OPT_CHECK :: int where "LOWBAT_OPT_CHECK = 4"

lemmas lowbat_opt_defs = LOWBAT_OPT_WARNING_def LOWBAT_OPT_POWEROFF_def LOWBAT_OPT_CHARGEERR_def
  LOWBAT_OPT_CHECK_def

definition popup_content :: "int \<Rightarrow> string" where
  "popup_content opt =
     (if opt = LOWBAT_OPT_WARNING then ''warning''
      else if opt = LOWBAT_OPT_POWEROFF then ''poweroff''
      else if opt = LOWBAT_OPT_CHARGEERR then ''chargeerr'' else ''check'')"

definition lowbat_popup :: "env \<Rightarrow> (ss, int) state" where
  "lowbat_popup E = do {
     (ret, st) \<leftarrow> call_out E (VCONF (Get_int VK_STARTER_SEQUENCE)) 0;
     if st = 1 \<or> ret \<noteq> 0 then do {
       call E (POPUP Bundle_create);
       opt \<leftarrow> getv (\<lambda>s. lowbat_popup_option (pre s));
       call E (POPUP (Bundle_add ''_SYSPOPUP_CONTENT_'' (popup_content opt)));
       r \<leftarrow> call E (POPUP (Syspopup_launch ''lowbat-syspopup''));
       if r < 0 then do { call E (POPUP Bundle_free); return 1 }
       else do {
         set_pre (\<lambda>p. p\<lparr>lowbat_popup_id := 0, lowbat_popup_option := 0\<rparr>);
         call E (POPUP Bundle_free);
         return 0
       }
     } else return 1
   }"

definition lowbat_option :: "string \<Rightarrow> int" where
  "lowbat_option arg =
     (if arg = WARNING_LOW_BAT_ACT \<or> arg = CRITICAL_LOW_BAT_ACT then LOWBAT_OPT_WARNING
      else if arg = POWER_OFF_BAT_ACT then LOWBAT_OPT_POWEROFF
      else if arg = CHARGE_ERROR_ACT then LOWBAT_OPT_CHARGEERR
      else LOWBAT_OPT_CHECK)"

definition lowbat_def_predefine_action ::
  "env \<Rightarrow> int \<Rightarrow> string option list \<Rightarrow> (ss, int) state" where
  "lowbat_def_predefine_action E argc argv =
     (if argc < 1 then return (-1)
      else do {
        timer \<leftarrow> getv (\<lambda>s. lowbat_popup_id (pre s));
        (if timer \<noteq> 0 then do {
           call E (ECORE (Timer_del timer));
           set_pre (\<lambda>p. p\<lparr>lowbat_popup_id := 0\<rparr>)
         } else return ());
        call E (POPUP Bundle_create);
        a0 \<leftarrow> deref (argv_at argv 0);
        call E (POPUP (Bundle_add ''_SYSPOPUP_CONTENT_'' (popup_content (lowbat_option a0))));
        set_pre (\<lambda>p. p\<lparr>lowbat_popup_option := lowbat_option a0\<rparr>);
        (ret, st) \<leftarrow> call_out E (VCONF (Get_int VK_STARTER_SEQUENCE)) 0;
        if st = 1 \<or> ret \<noteq> 0 then do {
          r \<leftarrow> call E (POPUP (Syspopup_launch ''lowbat-syspopup''));
          if r < 0 then do {
            call E (POPUP Bundle_free);
            set_pre (\<lambda>p. p\<lparr>lowbat_popup_option := 0\<rparr>);
            return (-1)
          } else do { call E (POPUP Bundle_free); return 0 }
        } else do {
          t \<leftarrow> call E (ECORE (Timer_add 1 TCB_lowbat_popup));
          set_pre (\<lambda>p. p\<lparr>lowbat_popup_id := t\<rparr>);
          call E (POPUP Bundle_free);
          return 0
        }
      })"

section \<open>Power off and restart\<close>

text \<open>The duration of the animation, from the environment variable \<open>PWROFF_DUR\<close>.\<close>

definition poweroff_duration :: "string option \<Rightarrow> int" where
  "poweroff_duration buf =
     (let d = (case buf of
          Some b \<Rightarrow> if length b < 1024 then atoi b else POWEROFF_DURATION
        | None \<Rightarrow> POWEROFF_DURATION) in
      if d < 0 \<or> d > 60 then POWEROFF_DURATION else d)"

definition WAIT_FUEL :: nat where "WAIT_FUEL = 601"

text \<open>\<open>gettimeofday\<close> into \<open>now\<close>: the seconds.\<close>

definition gettimeofday_sec :: "env \<Rightarrow> int \<Rightarrow> (ss, int) state" where
  "gettimeofday_sec E old = do {
     (_, t) \<leftarrow> call_out E (OS Gettimeofday) old;
     return t
   }"

fun wait_animation :: "env \<Rightarrow> nat \<Rightarrow> int \<Rightarrow> int \<Rightarrow> (ss, unit) state" where
  "wait_animation E 0 dur now = halt Blocked"
| "wait_animation E (Suc n) dur now = do {
     start \<leftarrow> getv (\<lambda>s. tv_start_poweroff (pre s));
     if now - start < dur then do {
       call E (OS (Usleep 100000));
       now' \<leftarrow> gettimeofday_sec E now;
       wait_animation E n dur now'
     } else return ()
   }"

text \<open>The lines the four functions below share: read the duration, wait it out.\<close>

definition wait_poweroff_duration :: "env \<Rightarrow> (ss, unit) state" where
  "wait_poweroff_duration E = do {
     buf \<leftarrow> call_str E (OS (Getenv ''PWROFF_DUR''));
     junk \<leftarrow> get_junk E;
     now \<leftarrow> gettimeofday_sec E junk;
     wait_animation E WAIT_FUEL (poweroff_duration buf) now
   }"

definition do_reboot :: "env \<Rightarrow> reboot_mode \<Rightarrow> (ss, unit) state" where
  "do_reboot E m = do {
     r \<leftarrow> call E (OS (Reboot m));
     if r = -1 then return () else halt (Rebooted m)
   }"

definition tel_close :: "env \<Rightarrow> bool \<Rightarrow> (ss, unit) state" where
  "tel_close E deregister = do {
     h \<leftarrow> getv (\<lambda>s. tapi_handle (pre s));
     (if h \<noteq> 0 then do {
        (if deregister then do { call E (TEL (Deregister_noti h)); return () } else return ());
        call E (TEL (Tel_deinit h));
        set_pre (\<lambda>p. p\<lparr>tapi_handle := 0\<rparr>)
      } else return ())
   }"

definition stop_poweroff_timer :: "env \<Rightarrow> (ss, unit) state" where
  "stop_poweroff_timer E = do {
     t \<leftarrow> getv (\<lambda>s. poweroff_timer_id (pre s));
     (if t \<noteq> 0 then do {
        call E (ECORE (Timer_del t));
        set_pre (\<lambda>p. p\<lparr>poweroff_timer_id := 0\<rparr>)
      } else return ())
   }"

definition powerdown_ap_by_force :: "env \<Rightarrow> (ss, int) state" where
  "powerdown_ap_by_force E = do {
     tel_close E False;
     wait_poweroff_duration E;
     call E (OS (Kill (-1) SIGTERM));
     call E (OS (Sleep 1));
     call E (OS Sync);
     do_reboot E RB_POWER_OFF;
     return 1
   }"

definition powerdown_ap :: "env \<Rightarrow> (ss, unit) state" where
  "powerdown_ap E = do {
     stop_poweroff_timer E;
     tel_close E True;
     wait_poweroff_duration E;
     call E (OS (Kill (-1) SIGTERM));
     call E (OS (Sleep 1));
     call E (OS Sync);
     do_reboot E RB_POWER_OFF
   }"

definition restart_ap :: "env \<Rightarrow> (ss, unit) state" where
  "restart_ap E = do {
     stop_poweroff_timer E;
     tel_close E True;
     call E (OS Sync);
     wait_poweroff_duration E;
     do_reboot E RB_AUTOBOOT
   }"

definition restart_ap_ecore :: "env \<Rightarrow> (ss, int) state" where
  "restart_ap_ecore E = do { restart_ap E; return 1 }"

definition restart_ap_by_force :: "env \<Rightarrow> (ss, unit) state" where
  "restart_ap_by_force E = do {
     stop_poweroff_timer E;
     tel_close E False;
     call E (OS Sync);
     wait_poweroff_duration E;
     do_reboot E RB_AUTOBOOT
   }"

definition remember_start :: "env \<Rightarrow> (ss, unit) state" where
  "remember_start E = do {
     old \<leftarrow> getv (\<lambda>s. tv_start_poweroff (pre s));
     t \<leftarrow> gettimeofday_sec E old;
     set_pre (\<lambda>p. p\<lparr>tv_start_poweroff := t\<rparr>)
   }"

text \<open>
  From the registration for the modem's event to the end of the action; \<open>by_force\<close> runs
  when telephony refuses, \<open>cb\<close> is the timer callback that takes over after 15 seconds.
\<close>

definition power_down_modem :: "env \<Rightarrow> (ss, unit) state \<Rightarrow> timer_cb \<Rightarrow> (ss, int) state" where
  "power_down_modem E by_force cb = do {
     h \<leftarrow> getv (\<lambda>s. tapi_handle (pre s));
     ret \<leftarrow> call E (TEL (Register_noti h));
     if ret \<noteq> konst E K_TAPI_API_SUCCESS then do { by_force; return 0 }
     else do {
       ret2 \<leftarrow> call E (TEL (Process_power_off h));
       if ret2 \<noteq> konst E K_TAPI_API_SUCCESS then do { by_force; return 0 }
       else do {
         t \<leftarrow> call E (ECORE (Timer_add 15 cb));
         set_pre (\<lambda>p. p\<lparr>poweroff_timer_id := t\<rparr>);
         return 0
       }
     }
   }"

definition poweroff_def_predefine_action ::
  "env \<Rightarrow> int \<Rightarrow> string option list \<Rightarrow> (ss, int) state" where
  "poweroff_def_predefine_action E argc argv = do {
     ss_noti_send E POWEROFF_NOTI_NAME;
     call E (PM (Change_state LCD_NORMAL));
     call E (OS (System ''/etc/rc.d/rc.shutdown &''));
     call E (OS Sync);
     remember_start E;
     power_down_modem E (do { powerdown_ap_by_force E; return () }) TCB_powerdown_ap_by_force
   }"

definition restart_def_predefine_action ::
  "env \<Rightarrow> int \<Rightarrow> string option list \<Rightarrow> (ss, int) state" where
  "restart_def_predefine_action E argc argv = do {
     call E (PM (Change_state LCD_NORMAL));
     call E (OS (System ''/etc/rc.d/rc.shutdown &''));
     call E (OS Sync);
     remember_start E;
     power_down_modem E (restart_ap_by_force E) TCB_restart_ap_ecore
   }"

definition entersleep_def_predefine_action ::
  "env \<Rightarrow> int \<Rightarrow> string option list \<Rightarrow> (ss, int) state" where
  "entersleep_def_predefine_action E argc argv = do {
     call E (PM (Change_state LCD_NORMAL));
     call E (OS Sync);
     h \<leftarrow> getv (\<lambda>s. tapi_handle (pre s));
     call E (TEL (Set_flight_mode h True));
     call E (OS (System ''/etc/rc.d/rc.entersleep''));
     call E (PM (Change_state POWER_OFF));
     return 0
   }"

definition leavesleep_def_predefine_action ::
  "env \<Rightarrow> int \<Rightarrow> string option list \<Rightarrow> (ss, int) state" where
  "leavesleep_def_predefine_action E argc argv = do {
     call E (PM (Change_state LCD_NORMAL));
     call E (OS Sync);
     h \<leftarrow> getv (\<lambda>s. tapi_handle (pre s));
     call E (TEL (Set_flight_mode h False));
     return 0
   }"

definition launching_predefine_action ::
  "env \<Rightarrow> int \<Rightarrow> string option list \<Rightarrow> (ss, int) state" where
  "launching_predefine_action E argc argv =
     (if argc < 0 then return (-1)
      else do {
        ret \<leftarrow> call E (POPUP (Syspopup_launch ''poweroff-syspopup''));
        return (if ret < 0 then -1 else 0)
      })"

section \<open>Registration\<close>

text \<open>\<open>strstr(name, ".so")\<close>, as an index.\<close>

fun strstr_so :: "string \<Rightarrow> nat option" where
  "strstr_so [] = None"
| "strstr_so (c # cs) =
     (if prefix ''.so'' (c # cs) then Some 0 else map_option Suc (strstr_so cs))"

text \<open>
  The type is what stands between the first three characters and the extension; when the
  extension begins inside those three, the terminator written at its place lies before
  the string the pointer \<open>d_name + 3\<close> names.
\<close>

definition so_type :: "string \<Rightarrow> nat \<Rightarrow> string" where
  "so_type d_name i = (if i < 3 then drop 3 d_name else take (i - 3) (drop 3 d_name))"

definition ss_action_entry_load_from_sodir :: "env \<Rightarrow> (ss, unit) state" where
  "ss_action_entry_load_from_sodir E = do {
     dp \<leftarrow> call E (FS (Opendir PREDEFINE_SO_DIR));
     if dp = 0 then return ()
     else do {
       msg \<leftarrow> call E (OS (Malloc 92));
       if msg = 0 then do { call E (FS (Closedir PREDEFINE_SO_DIR)); return () }
       else do {
         pid \<leftarrow> call E (OS Getpid);
         names \<leftarrow> readdir_all E PREDEFINE_SO_DIR;
         for_each (\<lambda>d_name. case strstr_so d_name of
             None \<Rightarrow> return ()
           | Some i \<Rightarrow> do {
               ss_action_entry_add E pid (so_type d_name i)
                 (take 127 (PREDEFINE_SO_DIR @ ''/'' @ d_name));
               return ()
             }) names;
         call E (FS (Closedir PREDEFINE_SO_DIR));
         return ()
       }
     }
   }"

definition builtin_actions :: "(string \<times> action_fn) list" where
  "builtin_actions =
    [(PREDEF_LOWMEM, Fn_lowmem_def_predefine_action),
     (PREDEF_LOWBAT, Fn_lowbat_def_predefine_action),
     (PREDEF_USBCON, Fn_usbcon_def_predefine_action),
     (PREDEF_EARJACKCON, Fn_earjackcon_def_predefine_action),
     (PREDEF_POWEROFF, Fn_poweroff_def_predefine_action),
     (PREDEF_PWROFF_POPUP, Fn_launching_predefine_action),
     (PREDEF_REBOOT, Fn_restart_def_predefine_action)]"

text \<open>Registering a list of actions, in order, whatever each registration returns.\<close>

definition register_all :: "env \<Rightarrow> (string \<times> action_fn) list \<Rightarrow> (ss, unit) state" where
  "register_all E = for_each (\<lambda>(t, f). do {
     ss_action_entry_add_internal E t (Some f) None None;
     return ()
   })"

definition ss_predefine_internal_init :: "env \<Rightarrow> (ss, unit) state" where
  "ss_predefine_internal_init E = do {
     h \<leftarrow> call E (TEL Tel_init);
     set_pre (\<lambda>p. p\<lparr>tapi_handle := h\<rparr>);
     register_all E builtin_actions;
     ss_action_entry_load_from_sodir E;
     earjackcon_def_predefine_action E 0 [];
     return ()
   }"

section \<open>Frames\<close>

lemma wait_rules:
  "frame queue_part (wait_animation E n d now)" "obeys_halt (wait_animation E n d now)"
proof -
  show "frame queue_part (wait_animation E n d now)"
    by (induction n arbitrary: now) (auto intro!: frames simp: gettimeofday_sec_def)
  show "obeys_halt (wait_animation E n d now)"
    by (induction n arbitrary: now) (auto intro!: stops simp: gettimeofday_sec_def)
qed

lemmas poweroff_defs = poweroff_def_predefine_action_def restart_def_predefine_action_def
  power_down_modem_def remember_start_def restart_ap_by_force_def restart_ap_ecore_def
  restart_ap_def powerdown_ap_def powerdown_ap_by_force_def stop_poweroff_timer_def tel_close_def
  do_reboot_def wait_poweroff_duration_def gettimeofday_sec_def

lemmas predefine_defs = lowmem_def_predefine_action_def kill_victim_def victim_allowed_def
  lowmem_get_victim_pid_def make_memps_log_def usbcon_def_predefine_action_def
  earjackcon_def_predefine_action_def lowbat_def_predefine_action_def lowbat_popup_def
  entersleep_def_predefine_action_def leavesleep_def_predefine_action_def
  launching_predefine_action_def

lemma frames_predefine [frames]:
  "frame queue_part (lowmem_def_predefine_action E argc argv)"
  "frame queue_part (usbcon_def_predefine_action E argc argv)"
  "frame queue_part (earjackcon_def_predefine_action E argc argv)"
  "frame queue_part (lowbat_def_predefine_action E argc argv)" "frame queue_part (lowbat_popup E)"
  "frame queue_part (poweroff_def_predefine_action E argc argv)"
  "frame queue_part (restart_def_predefine_action E argc argv)"
  "frame queue_part (entersleep_def_predefine_action E argc argv)"
  "frame queue_part (leavesleep_def_predefine_action E argc argv)"
  "frame queue_part (launching_predefine_action E argc argv)"
  "frame queue_part (powerdown_ap E)" "frame queue_part (powerdown_ap_by_force E)"
  "frame queue_part (restart_ap_ecore E)" "frame queue_part (restart_ap E)"
  unfolding poweroff_defs predefine_defs by (intro frames light_deref wait_rules)+

lemma stops_predefine [stops]:
  "obeys_halt (lowmem_def_predefine_action E argc argv)"
  "obeys_halt (usbcon_def_predefine_action E argc argv)"
  "obeys_halt (earjackcon_def_predefine_action E argc argv)"
  "obeys_halt (lowbat_def_predefine_action E argc argv)" "obeys_halt (lowbat_popup E)"
  "obeys_halt (poweroff_def_predefine_action E argc argv)"
  "obeys_halt (restart_def_predefine_action E argc argv)"
  "obeys_halt (entersleep_def_predefine_action E argc argv)"
  "obeys_halt (leavesleep_def_predefine_action E argc argv)"
  "obeys_halt (launching_predefine_action E argc argv)"
  "obeys_halt (powerdown_ap E)" "obeys_halt (powerdown_ap_by_force E)"
  "obeys_halt (restart_ap_ecore E)" "obeys_halt (restart_ap E)"
  unfolding poweroff_defs predefine_defs by (intro stops wait_rules)+

section \<open>The wait ends\<close>

definition usleeps :: "hist \<Rightarrow> nat" where
  "usleeps h = length (filter (\<lambda>c. c = OS (Usleep 100000)) h)"

text \<open>
  A clock that runs: \<open>gettimeofday\<close> always answers, and ten sleeps of a tenth of a second
  take at least one second of its time.
\<close>

definition clock_runs :: "env \<Rightarrow> (hist \<Rightarrow> int) \<Rightarrow> bool" where
  "clock_runs E T \<longleftrightarrow> (\<forall>h. e_out E h (OS Gettimeofday) = Some (T h)) \<and>
     (\<forall>h h0. T h0 + int (usleeps h div 10) \<le> T (h @ h0))"

lemma poweroff_duration_bounds: "0 \<le> poweroff_duration buf" "poweroff_duration buf \<le> 60"
  by (auto simp: poweroff_duration_def Let_def POWEROFF_DURATION_def split: option.split)

text \<open>The state at the head of the loop: \<open>now\<close> is the reading just made.\<close>

lemma clock_runsD:
  assumes "clock_runs E T"
  shows "e_out E h (OS Gettimeofday) = Some (T h)" "T h0 + int (usleeps h div 10) \<le> T (h @ h0)"
  using assms by (simp_all add: clock_runs_def)

text \<open>
  The loop was left after the calls \<open>h\<close>, made since \<open>h0\<close>: they are sleeps and readings of
  the clock, at most 600 sleeps; the last reading is past the duration, and the one before
  the last sleep was not.
\<close>

definition loop_left :: "(hist \<Rightarrow> int) \<Rightarrow> int \<Rightarrow> int \<Rightarrow> hist \<Rightarrow> hist \<Rightarrow> bool" where
  "loop_left T start dur h h0 \<longleftrightarrow> set h \<subseteq> {OS Gettimeofday, OS (Usleep 100000)} \<and> usleeps h \<le> 600 \<and>
     dur \<le> T (h @ h0) - start \<and>
     (h = [] \<or> (\<exists>h1. h = OS (Usleep 100000) # OS Gettimeofday # h1 \<and> T (h1 @ h0) - start < dur))"

definition waited :: "(hist \<Rightarrow> int) \<Rightarrow> int \<Rightarrow> hist \<Rightarrow> ss \<Rightarrow> ss \<Rightarrow> bool" where
  "waited T dur h0 s t \<longleftrightarrow> alive t \<and> pre t = pre s \<and> queue_part t = queue_part s \<and>
     (\<exists>h'. trace t = OS Gettimeofday # h' @ h0 \<and> loop_left T (tv_start_poweroff (pre s)) dur h' h0)"

lemma wait_animation_ends:
  assumes "clock_runs E T" "alive s" "trace s = OS Gettimeofday # h @ h0" "usleeps h + n = 600"
    and "tv_start_poweroff (pre s) \<le> T h0" "set h \<subseteq> {OS Gettimeofday, OS (Usleep 100000)}"
    and "h = [] \<or> (\<exists>h1. h = OS (Usleep 100000) # OS Gettimeofday # h1 \<and>
      T (h1 @ h0) - tv_start_poweroff (pre s) < dur)"
    and "dur \<le> 60"
  shows "waited T dur h0 s (exec (wait_animation E (Suc n) dur (T (h @ h0))) s)"
  using assms(2-7)
proof (induction n arbitrary: s h)
  case 0
  then have "usleeps h div 10 = 60" by simp
  then have "T h0 + 60 \<le> T (h @ h0)" using clock_runsD(2) [OF assms(1), of h0 h] by simp
  then have "dur \<le> T (h @ h0) - tv_start_poweroff (pre s)" using 0(4) assms(8) by simp
  with 0 show ?case by (simp add: waited_def loop_left_def)
next
  case (Suc n)
  show ?case
  proof (cases "T (h @ h0) - tv_start_poweroff (pre s) < dur")
    case False
    with Suc.prems show ?thesis by (simp add: waited_def loop_left_def)
  next
    case True
    let ?h = "OS (Usleep 100000) # OS Gettimeofday # h"
    define s2 where "s2 = log_call (OS Gettimeofday) (log_call (OS (Usleep 100000)) s)"
    have s2: "alive s2" "trace s2 = OS Gettimeofday # ?h @ h0" "pre s2 = pre s" "queue_part s2 = queue_part s"
      using Suc.prems by (simp_all add: s2_def)
    have "usleeps ?h + n = 600" using Suc.prems(3) by (simp add: usleeps_def)
    from Suc.IH [OF s2(1,2) this] Suc.prems(4,5) s2(3) True
    have "waited T dur h0 s2 (exec (wait_animation E (Suc n) dur (T (?h @ h0))) s2)" by simp
    moreover have "exec (wait_animation E (Suc (Suc n)) dur (T (h @ h0))) s =
        exec (wait_animation E (Suc n) dur (T (?h @ h0))) s2"
      using True Suc.prems clock_runsD(1) [OF assms(1)]
      by (simp add: gettimeofday_sec_def s2_def del: wait_animation.simps(2))
        (simp add: gettimeofday_sec_def s2_def)
    ultimately show ?thesis using s2(3,4) by (simp add: waited_def)
  qed
qed

text \<open>Reading the duration and waiting it out.\<close>

lemma wait_poweroff_duration_ends:
  assumes "clock_runs E T" "alive s" "tv_start_poweroff (pre s) \<le> T (OS (Getenv ''PWROFF_DUR'') # trace s)"
  shows "waited T (poweroff_duration (e_str E (trace s) (OS (Getenv ''PWROFF_DUR''))))
    (OS (Getenv ''PWROFF_DUR'') # trace s) s (exec (wait_poweroff_duration E) s)"
proof -
  let ?g = "OS (Getenv ''PWROFF_DUR'')"
  define s1 where "s1 = log_call (OS Gettimeofday) (log_call ?g s)"
  have s1: "alive s1" "trace s1 = OS Gettimeofday # [] @ ?g # trace s" "pre s1 = pre s" "queue_part s1 = queue_part s"
    using assms(2) by (simp_all add: s1_def)
  have f: "WAIT_FUEL = Suc 600" by (simp add: WAIT_FUEL_def)
  have "waited T (poweroff_duration (e_str E (trace s) ?g)) (?g # trace s) s1
      (exec (wait_animation E WAIT_FUEL (poweroff_duration (e_str E (trace s) ?g)) (T ([] @ ?g # trace s))) s1)"
    unfolding f using assms s1
    by (intro wait_animation_ends) (simp_all add: usleeps_def poweroff_duration_bounds)
  moreover have "exec (wait_poweroff_duration E) s =
      exec (wait_animation E WAIT_FUEL (poweroff_duration (e_str E (trace s) ?g)) (T ([] @ ?g # trace s))) s1"
    using assms(2) clock_runsD(1) [OF assms(1)]
    by (simp add: wait_poweroff_duration_def gettimeofday_sec_def s1_def del: wait_animation.simps)
  ultimately show ?thesis using s1(3,4) by (simp add: waited_def)
qed

section \<open>Power off ends in a reboot\<close>

text \<open>
  The calls of a wait that is over: the reading of the configured duration and the loop,
  left when the clock was at least that duration after the start of the power off.
\<close>

definition wait_over :: "env \<Rightarrow> (hist \<Rightarrow> int) \<Rightarrow> int \<Rightarrow> hist \<Rightarrow> bool" where
  "wait_over E T start h \<longleftrightarrow> (\<exists>h1 h0. h = OS Gettimeofday # h1 @ OS (Getenv ''PWROFF_DUR'') # h0 \<and>
     loop_left T start (poweroff_duration (e_str E h0 (OS (Getenv ''PWROFF_DUR''))))
       h1 (OS (Getenv ''PWROFF_DUR'') # h0))"

text \<open>
  The daemon is gone through \<open>reboot\<close>: the last call is the reboot, before it come the
  calls \<open>k\<close>, and before those the wait.
\<close>

definition rebooted_after_wait :: "env \<Rightarrow> (hist \<Rightarrow> int) \<Rightarrow> reboot_mode \<Rightarrow> hist \<Rightarrow> int \<Rightarrow> ss \<Rightarrow> bool" where
  "rebooted_after_wait E T m k start t \<longleftrightarrow> halted t = Some (Rebooted m) \<and>
     (\<exists>h. trace t = OS (Reboot m) # k @ h \<and> wait_over E T start h)"

definition reboot_works :: "env \<Rightarrow> bool" where
  "reboot_works E \<longleftrightarrow> (\<forall>h m. e_ret E h (OS (Reboot m)) \<noteq> -1)"

lemma exec_do_reboot:
  "reboot_works E \<Longrightarrow> alive s \<Longrightarrow>
     exec (do_reboot E m) s = (log_call (OS (Reboot m)) s)\<lparr>halted := Some (Rebooted m)\<rparr>"
  by (simp add: do_reboot_def reboot_works_def)

text \<open>What runs before the wait does not move the clock back nor the start.\<close>

definition before_wait :: "ss \<Rightarrow> ss \<Rightarrow> bool" where
  "before_wait s t \<longleftrightarrow> alive t \<and> tv_start_poweroff (pre t) = tv_start_poweroff (pre s) \<and>
     (\<exists>h. trace t = h @ trace s)"

lemma before_wait_refl: "alive s \<Longrightarrow> before_wait s s"
  by (simp add: before_wait_def)

lemma before_wait_trans: "before_wait s t \<Longrightarrow> before_wait t u \<Longrightarrow> before_wait s u"
  by (auto simp: before_wait_def)

lemma before_wait_log: "before_wait s t \<Longrightarrow> before_wait s (log_call c t)"
  by (auto simp: before_wait_def)

lemma before_wait_tel_close: "alive s \<Longrightarrow> before_wait s (exec (tel_close E b) s)"
  by (simp add: tel_close_def before_wait_def)

lemma before_wait_timer: "alive s \<Longrightarrow> before_wait s (exec (stop_poweroff_timer E) s)"
  by (simp add: stop_poweroff_timer_def before_wait_def)

lemma wait_then:
  assumes "clock_runs E T" "before_wait s0 s" "tv_start_poweroff (pre s0) \<le> T (trace s0)"
  defines "t \<equiv> exec (wait_poweroff_duration E) s"
  shows "alive t" "wait_over E T (tv_start_poweroff (pre s0)) (trace t)"
proof -
  let ?g = "OS (Getenv ''PWROFF_DUR'')"
  from assms(2) obtain h where h: "alive s" "trace s = h @ trace s0"
    "tv_start_poweroff (pre s) = tv_start_poweroff (pre s0)"
    unfolding before_wait_def by blast
  have "T (trace s0) \<le> T ((?g # h) @ trace s0)"
    using clock_runsD(2) [OF assms(1), of "trace s0" "?g # h"] by linarith
  then have "tv_start_poweroff (pre s) \<le> T (?g # trace s)" using assms(3) h by simp
  from wait_poweroff_duration_ends [OF assms(1) h(1) this]
  show "alive t" "wait_over E T (tv_start_poweroff (pre s0)) (trace t)"
    unfolding waited_def t_def [symmetric] h(3) wait_over_def by blast+
qed

lemma powerdown_by_force_reboots:
  assumes "clock_runs E T" "reboot_works E" "alive s" "tv_start_poweroff (pre s) \<le> T (trace s)"
  shows "rebooted_after_wait E T RB_POWER_OFF [OS Sync, OS (Sleep 1), OS (Kill (-1) SIGTERM)]
    (tv_start_poweroff (pre s)) (exec (powerdown_ap_by_force E) s)"
proof -
  define t where "t = exec (wait_poweroff_duration E) (exec (tel_close E False) s)"
  from wait_then [OF assms(1) before_wait_tel_close [OF assms(3)] assms(4)]
  have "alive t" "wait_over E T (tv_start_poweroff (pre s)) (trace t)" by (simp_all add: t_def)
  then show ?thesis
    using exec_do_reboot [OF assms(2)]
    by (auto simp: powerdown_ap_by_force_def t_def [symmetric] rebooted_after_wait_def)
qed

lemma powerdown_ap_reboots:
  assumes "clock_runs E T" "reboot_works E" "alive s" "tv_start_poweroff (pre s) \<le> T (trace s)"
  shows "rebooted_after_wait E T RB_POWER_OFF [OS Sync, OS (Sleep 1), OS (Kill (-1) SIGTERM)]
    (tv_start_poweroff (pre s)) (exec (powerdown_ap E) s)"
proof -
  define s1 where "s1 = exec (stop_poweroff_timer E) s"
  define t where "t = exec (wait_poweroff_duration E) (exec (tel_close E True) s1)"
  have "before_wait s s1" "alive s1"
    using before_wait_timer [OF assms(3), of E] by (simp_all add: s1_def before_wait_def)
  then have "before_wait s (exec (tel_close E True) s1)"
    using before_wait_trans before_wait_tel_close by blast
  from wait_then [OF assms(1) this assms(4)]
  have "alive t" "wait_over E T (tv_start_poweroff (pre s)) (trace t)" by (simp_all add: t_def)
  then show ?thesis
    using exec_do_reboot [OF assms(2)]
    by (auto simp: powerdown_ap_def s1_def [symmetric] t_def [symmetric] rebooted_after_wait_def)
qed

lemma restart_reboots:
  assumes "clock_runs E T" "reboot_works E" "alive s" "tv_start_poweroff (pre s) \<le> T (trace s)"
  shows "rebooted_after_wait E T RB_AUTOBOOT [] (tv_start_poweroff (pre s)) (exec (restart_ap E) s)"
    "rebooted_after_wait E T RB_AUTOBOOT [] (tv_start_poweroff (pre s)) (exec (restart_ap_by_force E) s)"
proof -
  define s1 where "s1 = exec (stop_poweroff_timer E) s"
  define t where "t b = exec (wait_poweroff_duration E) (log_call (OS Sync) (exec (tel_close E b) s1))" for b
  have "before_wait s s1" "alive s1"
    using before_wait_timer [OF assms(3), of E] by (simp_all add: s1_def before_wait_def)
  then have "before_wait s (log_call (OS Sync) (exec (tel_close E b) s1))" for b
    using before_wait_trans before_wait_tel_close before_wait_log by blast
  from wait_then [OF assms(1) this assms(4)]
  have t: "alive (t b)" "wait_over E T (tv_start_poweroff (pre s)) (trace (t b))" for b by (simp_all add: t_def)
  show "rebooted_after_wait E T RB_AUTOBOOT [] (tv_start_poweroff (pre s)) (exec (restart_ap E) s)"
    using exec_do_reboot [OF assms(2)] t [of True]
    by (auto simp: restart_ap_def s1_def [symmetric] t_def [symmetric] rebooted_after_wait_def)
  show "rebooted_after_wait E T RB_AUTOBOOT [] (tv_start_poweroff (pre s)) (exec (restart_ap_by_force E) s)"
    using exec_do_reboot [OF assms(2)] t [of False]
    by (auto simp: restart_ap_by_force_def s1_def [symmetric] t_def [symmetric] rebooted_after_wait_def)
qed

text \<open>The action up to the request to the modem.\<close>

definition shutdown_calls :: "ecall list" where
  "shutdown_calls = [OS Sync, OS (System ''/etc/rc.d/rc.shutdown &''), PM (Change_state LCD_NORMAL)]"

definition after_start :: "env \<Rightarrow> ss \<Rightarrow> ss" where
  "after_start E s = exec (remember_start E) (log_call (OS Sync)
     (log_call (OS (System ''/etc/rc.d/rc.shutdown &'')) (log_call (PM (Change_state LCD_NORMAL)) s)))"

lemma after_start_effect:
  assumes "clock_runs E T" "alive s"
  shows "alive (after_start E s)" "tv_start_poweroff (pre (after_start E s)) = T (shutdown_calls @ trace s)"
    "trace (after_start E s) = OS Gettimeofday # shutdown_calls @ trace s"
    "T (shutdown_calls @ trace s) \<le> T (trace (after_start E s))"
proof -
  show "alive (after_start E s)" "tv_start_poweroff (pre (after_start E s)) = T (shutdown_calls @ trace s)"
    "trace (after_start E s) = OS Gettimeofday # shutdown_calls @ trace s"
    using assms(2) clock_runsD(1) [OF assms(1)]
    by (simp_all add: after_start_def remember_start_def gettimeofday_sec_def shutdown_calls_def)
  then show "T (shutdown_calls @ trace s) \<le> T (trace (after_start E s))"
    using clock_runsD(2) [OF assms(1), of "shutdown_calls @ trace s" "[OS Gettimeofday]"]
    by (simp add: usleeps_def)
qed

text \<open>The modem takes the registration and the request.\<close>

definition modem_accepts :: "env \<Rightarrow> ss \<Rightarrow> bool" where
  "modem_accepts E s \<longleftrightarrow> (let r = TEL (Register_noti (tapi_handle (pre s))) in
     e_ret E (trace s) r = konst E K_TAPI_API_SUCCESS \<and>
     e_ret E (r # trace s) (TEL (Process_power_off (tapi_handle (pre s)))) = konst E K_TAPI_API_SUCCESS)"

text \<open>
  What the modem request leads to: either the forced ending, in a state that only made
  calls since, or an armed timer.
\<close>

lemma power_down_modem_cases:
  fixes E by_force cb s
  assumes "alive s"
  defines "t \<equiv> exec (power_down_modem E by_force cb) s"
  shows "result (power_down_modem E by_force cb) s = 0"
    and "\<not> modem_accepts E s \<Longrightarrow> \<exists>s1. before_wait s s1 \<and> t = exec by_force s1"
    and "modem_accepts E s \<Longrightarrow> \<exists>h. alive t \<and> tv_start_poweroff (pre t) = tv_start_poweroff (pre s) \<and>
        trace t = ECORE (Timer_add 15 cb) # h \<and>
        poweroff_timer_id (pre t) = e_ret E h (ECORE (Timer_add 15 cb))"
proof -
  let ?r = "TEL (Register_noti (tapi_handle (pre s)))" and ?p = "TEL (Process_power_off (tapi_handle (pre s)))"
  have b: "before_wait s (log_call ?r s)" "before_wait s (log_call ?p (log_call ?r s))"
    using assms(1) by (auto simp: before_wait_def)
  show "result (power_down_modem E by_force cb) s = 0" by (simp add: power_down_modem_def)
  show "\<exists>h. alive t \<and> tv_start_poweroff (pre t) = tv_start_poweroff (pre s) \<and>
        trace t = ECORE (Timer_add 15 cb) # h \<and>
        poweroff_timer_id (pre t) = e_ret E h (ECORE (Timer_add 15 cb))" if "modem_accepts E s"
    using assms(1) that by (simp add: t_def power_down_modem_def modem_accepts_def Let_def)
  show "\<exists>s1. before_wait s s1 \<and> t = exec by_force s1" if "\<not> modem_accepts E s"
  proof -
    have "t = exec by_force (log_call ?r s) \<or> t = exec by_force (log_call ?p (log_call ?r s))"
      using assms(1) that by (auto simp: t_def power_down_modem_def modem_accepts_def Let_def)
    then show ?thesis using b by blast
  qed
qed

lemma before_wait_clock:
  assumes "clock_runs E T" "before_wait s t" "tv_start_poweroff (pre s) \<le> T (trace s)"
  shows "tv_start_poweroff (pre t) = tv_start_poweroff (pre s) \<and> tv_start_poweroff (pre t) \<le> T (trace t)"
proof -
  from assms(2) obtain h where h: "trace t = h @ trace s" "tv_start_poweroff (pre t) = tv_start_poweroff (pre s)"
    unfolding before_wait_def by blast
  then show ?thesis using clock_runsD(2) [OF assms(1), of "trace s" h] assms(3) by simp
qed

section \<open>Properties\<close>

definition clock_env :: env where
  "clock_env = env1\<lparr>e_out := (\<lambda>h c. if c = OS Gettimeofday then Some (int (usleeps h)) else None)\<rparr>"

lemma clock_env_ok: "clock_runs clock_env (\<lambda>h. int (usleeps h))" "reboot_works clock_env"
  by (auto simp: clock_env_def clock_runs_def reboot_works_def usleeps_def)

text \<open>
  C16: Once the power-off time is set, the modem event and the forced power-off both read the
  animation time that is configured and wait until the clock is that long after the start,
  sleeping only while it is not and at most 600 times; then they send SIGTERM to
  all, sleep a second, sync, and power off as the last call; both ways of restarting wait
  and reboot.  The wait ends: with a clock that runs, the daemon never hangs there;
  the calls of \<open>reboot\<close> are taken to succeed.
\<close>

theorem power_down_reboots:
  assumes "clock_runs E T" "reboot_works E" "alive s" "tv_start_poweroff (pre s) \<le> T (trace s)"
  defines "start \<equiv> tv_start_poweroff (pre s)" and "calls \<equiv> [OS Sync, OS (Sleep 1), OS (Kill (-1) SIGTERM)]"
  shows "rebooted_after_wait E T RB_POWER_OFF calls start (exec (powerdown_ap_by_force E) s) \<and>
    rebooted_after_wait E T RB_POWER_OFF calls start (exec (powerdown_ap E) s) \<and>
    rebooted_after_wait E T RB_AUTOBOOT [] start (exec (restart_ap E) s) \<and>
    rebooted_after_wait E T RB_AUTOBOOT [] start (exec (restart_ap_by_force E) s)"
  unfolding start_def calls_def
  using powerdown_by_force_reboots [OF assms(1-4)] powerdown_ap_reboots [OF assms(1-4)]
    restart_reboots [OF assms(1-4)]
  by blast

lemma power_down_reboots_witness:
  "halted (exec (powerdown_ap clock_env) boot) = Some (Rebooted RB_POWER_OFF)"
  using power_down_reboots [OF clock_env_ok, of boot]
  by (simp add: rebooted_after_wait_def usleeps_def boot_def alive_def)

text \<open>
  C28: The power-off action answers 0 and commits.  If telephony refuses, the machine is
  powered off before it returns, after a wait for the configured time counted from the moment
  after the shutdown script was started and the disks were synced; if telephony accepts, it
  returns with that moment recorded and a 15-second timer armed that runs the forced
  power-off.
\<close>

theorem poweroff_action_commits:
  fixes argc argv
  assumes "clock_runs E T" "reboot_works E" "alive s"
  defines "start \<equiv> T (shutdown_calls @ HEYNOTI (Publish POWEROFF_NOTI_NAME) # trace s)"
    and "t \<equiv> exec (poweroff_def_predefine_action E argc argv) s"
  shows "result (poweroff_def_predefine_action E argc argv) s = 0 \<and>
    (if modem_accepts E (after_start E (log_call (HEYNOTI (Publish POWEROFF_NOTI_NAME)) s))
     then alive t \<and> tv_start_poweroff (pre t) = start \<and>
       hd (trace t) = ECORE (Timer_add 15 TCB_powerdown_ap_by_force) \<and>
       poweroff_timer_id (pre t) = e_ret E (tl (trace t)) (ECORE (Timer_add 15 TCB_powerdown_ap_by_force))
     else rebooted_after_wait E T RB_POWER_OFF [OS Sync, OS (Sleep 1), OS (Kill (-1) SIGTERM)] start t)"
proof -
  define s0 where "s0 = after_start E (log_call (HEYNOTI (Publish POWEROFF_NOTI_NAME)) s)"
  define f where "f = do { powerdown_ap_by_force E; return () }"
  have run: "t = exec (power_down_modem E f TCB_powerdown_ap_by_force) s0"
    "result (poweroff_def_predefine_action E argc argv) s = 0"
    by (simp_all add: t_def poweroff_def_predefine_action_def ss_noti_send_def s0_def after_start_def
        f_def power_down_modem_cases(1) power_down_modem_def)
  have s0: "alive s0" "tv_start_poweroff (pre s0) = start" "start \<le> T (trace s0)"
    using after_start_effect [OF assms(1), of "log_call (HEYNOTI (Publish POWEROFF_NOTI_NAME)) s"] assms(3)
    by (simp_all add: s0_def start_def)
  note cases = power_down_modem_cases(2,3) [OF s0(1), of E f TCB_powerdown_ap_by_force, folded run(1)]
  show ?thesis
  proof (cases "modem_accepts E s0")
    case True
    then show ?thesis using cases(2) s0(2) run(2) by (auto simp: s0_def [symmetric])
  next
    case False
    then obtain s1 where s1: "before_wait s0 s1" "t = exec f s1" using cases(1) by blast
    then have "alive s1" "tv_start_poweroff (pre s1) = start" "tv_start_poweroff (pre s1) \<le> T (trace s1)"
      using before_wait_clock [OF assms(1) s1(1)] s0 by (simp_all add: before_wait_def)
    then show ?thesis
      using powerdown_by_force_reboots [OF assms(1,2), of s1] run(2) s1(2) False
      by (simp add: f_def s0_def [symmetric])
  qed
qed

lemma poweroff_action_commits_witness:
  "poweroff_timer_id (pre (exec (poweroff_def_predefine_action (clock_env\<lparr>konst := (\<lambda>_. 1)\<rparr>) 0 []) boot)) = 1"
proof -
  let ?E = "clock_env\<lparr>konst := (\<lambda>_. 1)\<rparr>"
  have ok: "clock_runs ?E (\<lambda>h. int (usleeps h))" "reboot_works ?E"
    using clock_env_ok by (simp_all add: clock_runs_def reboot_works_def)
  have ret: "e_ret ?E h c = 1" "konst ?E k = 1" for h c k by (simp_all add: clock_env_def env1_def)
  have "modem_accepts ?E (after_start ?E (log_call (HEYNOTI (Publish POWEROFF_NOTI_NAME)) boot))"
    unfolding modem_accepts_def Let_def ret by simp
  then show ?thesis
    using poweroff_action_commits [OF ok, of boot 0 "[]"] unfolding ret by simp
qed

text \<open>The processes the low-memory action may signal: the victim the kernel names, and no other.\<close>

definition victim_kill_only :: "int \<Rightarrow> ecall \<Rightarrow> bool" where
  "victim_kill_only v c \<longleftrightarrow> (\<forall>q n. c = OS (Kill q n) \<longrightarrow> q = v \<and> n = SIGTERM \<and> 0 < v)"

lemma no_kill_victim: "no_kill c \<Longrightarrow> victim_kill_only v c"
  by (simp add: no_kill_def victim_kill_only_def)

lemma emits_memps_log: "emits (victim_kill_only v) (make_memps_log E f p n)"
proof -
  have "emits (victim_kill_only v) (ss_launch_evenif_exist E a b)" for a b
    using emits_launch_evenif no_kill_victim by (rule emits_mono)
  then show ?thesis
    unfolding make_memps_log_def by (intro emitsI; simp add: victim_kill_only_def)
qed

lemma emits_oomadj: "emits (victim_kill_only v) (get_app_oomadj E p old)"
  "emits (victim_kill_only v) (set_app_oomadj E p w)"
  unfolding get_app_oomadj_def set_app_oomadj_def by (intro emitsI; simp add: victim_kill_only_def)+

lemma emits_kill_victim: "0 < v \<Longrightarrow> emits (victim_kill_only v) (kill_victim E v n)"
  unfolding kill_victim_def
  by (intro emitsI emits_memps_log emits_oomadj; simp add: victim_kill_only_def)

text \<open>The action once the victim's pid is known.\<close>

definition oom_rest :: "env \<Rightarrow> int \<Rightarrow> (ss, int) state" where
  "oom_rest E pid = do {
     ok \<leftarrow> victim_allowed E pid;
     if ok then do {
       appname \<leftarrow> peek_str E (SYSMAN (Get_cmdline_name pid));
       r \<leftarrow> call E (SYSMAN (Get_cmdline_name pid));
       if r = 0 then kill_victim E pid (str_or_empty appname) else return 0
     } else return 0
   }"

lemma emits_oom_rest: "emits (victim_kill_only pid) (oom_rest E pid)"
proof (cases "0 < pid")
  case True
  then show ?thesis
    unfolding oom_rest_def victim_allowed_def
    by (intro emitsI emits_kill_victim; simp add: victim_kill_only_def)
next
  case False
  then have "emits (victim_kill_only pid) (victim_allowed E pid)"
    "result (victim_allowed E pid) s = False" for s
    by (simp_all add: victim_allowed_def emitsI)
  then show ?thesis by (simp add: emits_def oom_rest_def)
qed

lemma oom_rest_negative: "exec (oom_rest E (-1)) s = s"
  by (simp add: oom_rest_def victim_allowed_def)

lemma lowmem_action_run:
  "exec (lowmem_def_predefine_action E argc argv) s =
     (if argc < 1 then s
      else case argv_at argv 0 of
        None \<Rightarrow> exec (halt NullDeref) s
      | Some a0 \<Rightarrow>
          if a0 = OOM_MEM_ACT
          then exec (oom_rest E (result (lowmem_get_victim_pid E) s)) (exec (lowmem_get_victim_pid E) s)
          else exec (make_memps_log E MEMPS_LOG_FILE 1 ''LOWMEM_WARNING'') s)"
proof -
  have "obeys_halt (make_memps_log E f p n)" for f p n
    unfolding make_memps_log_def by (intro stops)
  then have dead: "\<not> alive s \<Longrightarrow> exec (make_memps_log E f p n) s = s" for f p n s
    by (simp add: obeys_haltD)
  show ?thesis
    by (cases "argv_at argv 0")
      (simp_all add: lowmem_def_predefine_action_def oom_rest_def OOM_MEM_ACT_def dead deref_def)
qed

text \<open>
  C31: The low-memory action sends a signal only to the process the kernel names as the
  victim, only SIGTERM, and only when that pid is positive: never to a process group, and
  never in answer to the low-memory warning.
\<close>

theorem lowmem_action_kills_only_the_victim:
  assumes "e_out E (trace s) (OEM (Get OEM_memnotify_victim_task)) = Some v"
    and "OS (Kill q n) \<in> set (trace (exec (lowmem_def_predefine_action E argc argv) s))"
    and "OS (Kill q n) \<notin> set (trace s)"
  shows "q = v \<and> n = SIGTERM \<and> 0 < v \<and> argv_at argv 0 = Some OOM_MEM_ACT"
proof (cases "1 \<le> argc \<and> argv_at argv 0 = Some OOM_MEM_ACT")
  case True
  define s1 where "s1 = log_call (OEM (Get OEM_memnotify_victim_task)) s"
  define pid where "pid = result (lowmem_get_victim_pid E) s"
  have pid: "pid = v \<or> pid = -1" using assms(1) by (simp add: pid_def lowmem_get_victim_pid_def)
  have "exec (lowmem_def_predefine_action E argc argv) s = exec (oom_rest E pid) s1"
    using True by (simp add: lowmem_action_run pid_def s1_def lowmem_get_victim_pid_def)
  then have k: "OS (Kill q n) \<in> set (trace (exec (oom_rest E pid) s1))"
    "OS (Kill q n) \<notin> set (trace s1)"
    using assms(2,3) by (simp_all add: s1_def)
  then have "pid \<noteq> -1" using oom_rest_negative by metis
  then show ?thesis
    using pid True emits_trace [OF emits_oom_rest k(1)] k(2) by (auto simp: victim_kill_only_def)
next
  case False
  have "emits no_kill (make_memps_log E f p m)" for f p m
    unfolding make_memps_log_def by (intro emitsI emits_launch_evenif; simp add: no_kill_def)
  then have "OS (Kill q n) \<notin> set (trace (exec (make_memps_log E f p m) s))" for f p m
    using emits_trace assms(3) no_kill_def by blast
  then have "OS (Kill q n) \<notin> set (trace (exec (lowmem_def_predefine_action E argc argv) s))"
    using False assms(3) by (auto simp: lowmem_action_run split: option.split)
  with assms(2) show ?thesis by simp
qed

lemma lowmem_action_kills_only_the_victim_witness:
  "OS (Kill 42 SIGTERM) \<in> set (trace (exec (lowmem_def_predefine_action
     (env1\<lparr>e_out := (\<lambda>_ _. Some 42), e_ret := (\<lambda>_ _. 0)\<rparr>) 1 [Some OOM_MEM_ACT]) boot)) \<and> (42 :: int) = 42 \<and> 0 < (42 :: int)"
proof -
  let ?E = "env1\<lparr>e_out := (\<lambda>_ _. Some 42), e_ret := (\<lambda>_ _. 0)\<rparr>"
  have k: "OS (Kill 42 SIGTERM) \<in> set (trace (exec (lowmem_def_predefine_action ?E 1 [Some OOM_MEM_ACT]) boot))"
    by (simp add: lowmem_action_run oom_rest_def argv_at_def lowmem_get_victim_pid_def victim_allowed_def
        kill_victim_def make_memps_log_def boot_def alive_def log_call_def get_app_oomadj_def fopen_def
        set_app_oomadj_def)
  show ?thesis
    using k lowmem_action_kills_only_the_victim [OF _ k, of 42] by simp
qed

text \<open>
  A low-battery alert that arrives while the boot animation runs is not lost: the
  action arms one timer, and when that timer fires after the start-up sequence is done,
  the pop-up it launches has the content that belongs to the argument of the alert, and
  the pending state is cleared.
\<close>

theorem deferred_low_battery_popup:
  assumes "alive s" "1 \<le> argc" "argv_at argv 0 = Some a"
    and starter: "\<And>h. e_ret E h (VCONF (Get_int VK_STARTER_SEQUENCE)) = 0"
      "\<And>h. e_out E h (VCONF (Get_int VK_STARTER_SEQUENCE)) = Some 0"
    and later: "alive u" "pre u = pre (exec (lowbat_def_predefine_action E argc argv) s)"
      "\<And>h. e_out F h (VCONF (Get_int VK_STARTER_SEQUENCE)) = Some 1"
      "\<And>h. 0 \<le> e_ret F h (POPUP (Syspopup_launch ''lowbat-syspopup''))"
  shows "result (lowbat_def_predefine_action E argc argv) s = 0 \<and>
    trace (exec (lowbat_popup F) u) =
      [POPUP Bundle_free, POPUP (Syspopup_launch ''lowbat-syspopup''),
       POPUP (Bundle_add ''_SYSPOPUP_CONTENT_'' (popup_content (lowbat_option a))),
       POPUP Bundle_create, VCONF (Get_int VK_STARTER_SEQUENCE)] @ trace u \<and>
    lowbat_popup_id (pre (exec (lowbat_popup F) u)) = 0"
proof -
  let ?t = "exec (lowbat_def_predefine_action E argc argv) s"
  have "lowbat_popup_option (pre ?t) = lowbat_option a" "result (lowbat_def_predefine_action E argc argv) s = 0"
    using assms(1-5) by (simp_all add: lowbat_def_predefine_action_def)
  then show ?thesis
    using later by (simp add: lowbat_popup_def not_less [symmetric])
qed

lemma deferred_low_battery_popup_witness:
  "lowbat_popup_id (pre (exec (lowbat_popup (env1\<lparr>e_out := (\<lambda>_ _. Some 1)\<rparr>))
     (exec (lowbat_def_predefine_action (env1\<lparr>e_out := (\<lambda>_ _. Some 0), e_ret := (\<lambda>_ _. 0)\<rparr>) 1
       [Some WARNING_LOW_BAT_ACT]) boot))) = 0"
proof -
  let ?E = "env1\<lparr>e_out := (\<lambda>_ _. Some 0), e_ret := (\<lambda>_ _. 0)\<rparr>" and ?F = "env1\<lparr>e_out := (\<lambda>_ _. Some 1)\<rparr>"
  let ?u = "exec (lowbat_def_predefine_action ?E 1 [Some WARNING_LOW_BAT_ACT]) boot"
  have "alive ?u"
    by (simp add: lowbat_def_predefine_action_def argv_at_def boot_def alive_def log_call_def)
  then show ?thesis
    using deferred_low_battery_popup [of boot 1 "[Some WARNING_LOW_BAT_ACT]" WARNING_LOW_BAT_ACT ?E ?u ?F]
    by (simp add: argv_at_def)
qed

end
