(* ===== verification/SS_Device.thy ===== *)
theory SS_Device
  imports SS_Lowbat SS_Mmc SS_Predefine
begin

text \<open>
  \<open>ss_device_change_handler.c\<close>, \<open>ss_usb_handler.c\<close> and \<open>ss_ta_handler.c\<close>: the callbacks
  the plug-and-unplug notifications run, and the state of the connectors at start-up.
  The argument \<open>ad\<close> of the callbacks is passed on and never read.
\<close>

section \<open>USB, charger, earjack, HDMI, keyboard slide\<close>

definition SYS_DEVICE_NOTI :: string where "SYS_DEVICE_NOTI = ''/usr/bin/sys_device_noti''"

text \<open>\<open>sys_device_noti.h\<close>\<close>

definition CB_NOTI_BATT_CHARGE :: int where "CB_NOTI_BATT_CHARGE = 0"
definition CB_NOTI_BATT_FULL :: int where "CB_NOTI_BATT_FULL = 2"
definition CB_NOTI_OFF :: int where "CB_NOTI_OFF = 0"
definition CB_NOTI_ON :: int where "CB_NOTI_ON = 1"

definition noti_charge :: "env \<Rightarrow> (ss, unit) state" where
  "noti_charge E = do {
     ss_launch_if_noexist E (Some SYS_DEVICE_NOTI) (Some (show_int CB_NOTI_BATT_CHARGE));
     return ()
   }"

definition noti_full :: "env \<Rightarrow> int \<Rightarrow> (ss, unit) state" where
  "noti_full E onoff = do {
     ss_launch_if_noexist E (Some SYS_DEVICE_NOTI)
       (Some (show_int CB_NOTI_BATT_FULL @ '' '' @ show_int onoff));
     return ()
   }"

definition usb_chgdet_cb :: "env \<Rightarrow> (ss, unit) state" where
  "usb_chgdet_cb E = do {
     call E (PM (Change_state LCD_NORMAL));
     ss_lowbat_is_charge_in_now E;
     ss_lowbat_monitor E;
     ss_action_entry_call_internal E (Some PREDEF_USBCON) 0 [];
     (r, val) \<leftarrow> call_out E (OEM (Get OEM_jack_usb_online)) (-1);
     if r = 0 \<and> val = 1 then noti_charge E else return ()
   }"

definition lowbat_warning_popup :: "env \<Rightarrow> (ss, unit) state" where
  "lowbat_warning_popup E = do {
     call E (POPUP Bundle_create);
     call E (POPUP (Bundle_add ''_SYSPOPUP_CONTENT_'' ''warning''));
     call E (POPUP (Syspopup_launch ''lowbat-syspopup''));
     call E (POPUP Bundle_free);
     return ()
   }"

definition charger_changed :: "env \<Rightarrow> int \<Rightarrow> (ss, unit) state" where
  "charger_changed E val = do {
     call E (VCONF (Set_int VK_CHARGER_STATUS val));
     if val = 0 then do {
       call E (PM (Unlock_state LCD_OFF STAY_CUR_STATE));
       (_, bat_state) \<leftarrow> call_out E (VCONF (Get_int VK_BATTERY_STATUS_LOW)) (konst E K_BAT_NORMAL);
       if bat_state < konst E K_BAT_NORMAL then lowbat_warning_popup E else return ()
     } else do {
       call E (PM (Lock_state LCD_OFF STAY_CUR_STATE 0));
       noti_charge E
     }
   }"

definition ta_chgdet_cb :: "env \<Rightarrow> (ss, unit) state" where
  "ta_chgdet_cb E = do {
     call E (PM (Change_state LCD_NORMAL));
     ss_lowbat_is_charge_in_now E;
     ss_lowbat_monitor E;
     (r, val) \<leftarrow> call_out E (OEM (Get OEM_jack_charger_online)) (-1);
     if r = 0 then charger_changed E val else return ()
   }"

definition earjack_chgdet_cb :: "env \<Rightarrow> (ss, unit) state" where
  "earjack_chgdet_cb E = do {
     ss_action_entry_call_internal E (Some PREDEF_EARJACKCON) 0 [];
     return ()
   }"

definition earkey_chgdet_cb :: "env \<Rightarrow> (ss, unit) state" where
  "earkey_chgdet_cb E = do {
     junk \<leftarrow> get_junk E;
     (r, val) \<leftarrow> call_out E (OEM (Get OEM_jack_earkey_online)) junk;
     if r = 0 then do { call E (VCONF (Set_int VK_EARJACKKEY val)); return () } else return ()
   }"

definition tvout_chgdet_cb :: "env \<Rightarrow> (ss, unit) state" where
  "tvout_chgdet_cb E = do { call E (PM (Change_state LCD_NORMAL)); return () }"

text \<open>The \<open>else\<close> belongs to the inner test.\<close>

definition hdmi_chgdet_cb :: "env \<Rightarrow> (ss, unit) state" where
  "hdmi_chgdet_cb E = do {
     call E (PM (Change_state LCD_NORMAL));
     junk \<leftarrow> get_junk E;
     (r, val) \<leftarrow> call_out E (OEM (Get OEM_jack_hdmi_online)) junk;
     if r = 0 then do {
       (if val = 1 then call E (PM (Lock_state LCD_NORMAL GOTO_STATE_NOW 0))
        else call E (PM (Unlock_state LCD_NORMAL PM_SLEEP_MARGIN)));
       return ()
     } else return ()
   }"

definition keyboard_chgdet_cb :: "env \<Rightarrow> (ss, unit) state" where
  "keyboard_chgdet_cb E = do {
     (ret, val) \<leftarrow> call_out E (OEM (Get OEM_jack_keyboard_online)) (-1);
     (if ret = 0 then call E (VCONF (Set_int VK_SLIDING_KEYBOARD (if val \<noteq> 1 then 0 else val)))
      else call E (VCONF (Set_int VK_SLIDING_KEYBOARD (konst E K_KEYBOARD_NOT_SUPPORTED))));
     return ()
   }"

section \<open>Input devices, camera, unknown devices\<close>

text \<open>One entry of the bundle; on failure the bundle is freed and the function returns -1.\<close>

fun ticker_entries :: "env \<Rightarrow> (string \<times> string) list \<Rightarrow> (ss, int) state" where
  "ticker_entries E [] = do {
     call E (POPUP (Syspopup_launch ''tickernoti-syspopup''));
     call E (POPUP Bundle_free);
     return 0
   }"
| "ticker_entries E ((k, v) # kvs) = do {
     ret \<leftarrow> call E (POPUP (Bundle_add k v));
     if ret \<noteq> 0 then do { call E (POPUP Bundle_free); return (-1) } else ticker_entries E kvs
   }"

definition show_tickernoti :: "env \<Rightarrow> string \<Rightarrow> (ss, int) state" where
  "show_tickernoti E msg = do {
     b \<leftarrow> call E (POPUP Bundle_create);
     if b = 0 then return (-1)
     else do {
       r0 \<leftarrow> call E (POPUP (Bundle_add ''0'' ''info''));
       if r0 \<noteq> 0 then do { call E (POPUP Bundle_free); return (-1) }
       else do {
         txt \<leftarrow> call_str E (OS (Dgettext msg));
         ticker_entries E [(''1'', str_or_empty txt), (''2'', ''0''), (''3'', ''3'')]
       }
     }
   }"

definition keyboard_add_cb :: "env \<Rightarrow> (ss, unit) state" where
  "keyboard_add_cb E = do {
     call E (PM (Change_state LCD_NORMAL));
     show_tickernoti E ''Keyboard connected'';
     set_dev (\<lambda>d. d\<lparr>input_device_number := input_device_number d + 1\<rparr>)
   }"

definition keyboard_remove_cb :: "env \<Rightarrow> (ss, unit) state" where
  "keyboard_remove_cb E = do {
     call E (PM (Change_state LCD_NORMAL));
     show_tickernoti E ''Keyboard removed safely'';
     set_dev (\<lambda>d. if input_device_number d > 0
                  then d\<lparr>input_device_number := input_device_number d - 1\<rparr> else d)
   }"

definition mouse_add_cb :: "env \<Rightarrow> (ss, unit) state" where
  "mouse_add_cb E = do {
     call E (PM (Change_state LCD_NORMAL));
     show_tickernoti E ''Mouse connected'';
     set_dev (\<lambda>d. d\<lparr>input_device_number := input_device_number d + 1\<rparr>)
   }"

definition mouse_remove_cb :: "env \<Rightarrow> (ss, unit) state" where
  "mouse_remove_cb E = do {
     call E (PM (Change_state LCD_NORMAL));
     show_tickernoti E ''Mouse removed safely'';
     set_dev (\<lambda>d. if input_device_number d > 0
                  then d\<lparr>input_device_number := input_device_number d - 1\<rparr> else d)
   }"

text \<open>The name kept is that of the last directory or link which is not hidden.\<close>

fun camera_name :: "env \<Rightarrow> string list \<Rightarrow> string \<Rightarrow> (ss, string) state" where
  "camera_name E [] buf = return buf"
| "camera_name E (d_name # ds) buf = do {
     (_, st_mode) \<leftarrow> call_out E (FS (Lstat d_name)) 0;
     if (S_ISDIR st_mode \<or> S_ISLNK st_mode) \<and> \<not> prefix ''.'' d_name
     then camera_name E ds (take 254 d_name) else camera_name E ds buf
   }"

definition camera_add_cb :: "env \<Rightarrow> (ss, unit) state" where
  "camera_add_cb E = do {
     call E (PM (Change_state LCD_NORMAL));
     show_tickernoti E ''Camera connected'';
     dp \<leftarrow> call E (FS (Opendir ''/tmp/camera''));
     if dp = 0 then return ()
     else do {
       call E (FS (Chdir ''/tmp/camera''));
       names \<leftarrow> readdir_all E ''/tmp/camera'';
       buf \<leftarrow> camera_name E names ''unknown_camera'';
       call E (FS (Closedir ''/tmp/camera''));
       call E (POPUP Bundle_create);
       call E (POPUP (Bundle_add ''_SYSPOPUP_CONTENT_'' ''camera_add''));
       call E (POPUP (Bundle_add ''device_name'' buf));
       call E (POPUP (Syspopup_launch ''usbotg-syspopup''));
       call E (POPUP Bundle_free);
       return ()
     }
   }"

definition otg_popup :: "env \<Rightarrow> string \<Rightarrow> (ss, unit) state" where
  "otg_popup E content = do {
     call E (POPUP Bundle_create);
     call E (POPUP (Bundle_add ''_SYSPOPUP_CONTENT_'' content));
     call E (POPUP (Syspopup_launch ''usbotg-syspopup''));
     call E (POPUP Bundle_free);
     return ()
   }"

definition camera_remove_cb :: "env \<Rightarrow> (ss, unit) state" where
  "camera_remove_cb E = otg_popup E ''camera_remove''"

definition unknown_usb_add_cb :: "env \<Rightarrow> (ss, unit) state" where
  "unknown_usb_add_cb E = do {
     call E (PM (Change_state LCD_NORMAL));
     otg_popup E ''unknown_add''
   }"

definition unknown_usb_remove_cb :: "env \<Rightarrow> (ss, unit) state" where
  "unknown_usb_remove_cb E = do {
     call E (PM (Change_state LCD_NORMAL));
     otg_popup E ''unknown_remove''
   }"

section \<open>Memory card, mass storage, charging\<close>

text \<open>\<open>data\<close> is the pointer the callback was registered with, NULL for the removal.\<close>

definition mmc_chgdet_cb :: "env \<Rightarrow> bool \<Rightarrow> (ss, unit) state" where
  "mmc_chgdet_cb E data = do {
     (if \<not> data then ss_mmc_removed E else ss_mmc_inserted E);
     return ()
   }"

definition ums_unmount_cb :: "env \<Rightarrow> (ss, unit) state" where
  "ums_unmount_cb E = do { call E (FS (Umount MOVINAND_MOUNT_POINT 0)); return () }"

text \<open>
  The second half of \<open>charge_cb\<close>; \<open>val\<close> still holds what the health query stored, when
  this one stores nothing.
\<close>

definition full_edge :: "env \<Rightarrow> int \<Rightarrow> (ss, unit) state" where
  "full_edge E val0 = do {
     (_, val) \<leftarrow> call_out E (OEM (Get OEM_battery_charge_full)) val0;
     full \<leftarrow> getv (\<lambda>s. bat_full_noti (dev s));
     if val = 0 then do {
       (if full = 1 then noti_full E CB_NOTI_OFF else return ());
       set_dev (\<lambda>d. d\<lparr>bat_full_noti := 0\<rparr>)
     } else if val = 1 \<and> full = 0 then do {
       set_dev (\<lambda>d. d\<lparr>bat_full_noti := 1\<rparr>);
       noti_full E CB_NOTI_ON
     } else return ()
   }"

definition charge_cb :: "env \<Rightarrow> (ss, unit) state" where
  "charge_cb E = do {
     ss_lowbat_monitor E;
     (r, val) \<leftarrow> call_out E (OEM (Get OEM_battery_health)) (-1);
     if r = 0 \<and> (val = konst E K_BATTERY_OVERHEAT \<or> val = konst E K_BATTERY_COLD) then do {
       ss_action_entry_call_internal E (Some PREDEF_LOWBAT) 1 [Some CHARGE_ERROR_ACT];
       return ()
     } else full_edge E val
   }"

definition usb_storage_cb :: "env \<Rightarrow> bool \<Rightarrow> (ss, unit) state" where
  "usb_storage_cb E data =
     (if \<not> data then do {
        vconf_value \<leftarrow> call_str E (VCONF (Get_str VK_INTERNAL_REMOVED_USB_STORAGE));
        ss_action_entry_call_internal E (Some PREDEF_USB_STORAGE_REMOVE) 1 [vconf_value];
        return ()
      } else do {
        show_tickernoti E ''Mass storage enabled'';
        vconf_value \<leftarrow> call_str E (VCONF (Get_str VK_INTERNAL_ADDED_USB_STORAGE));
        ss_action_entry_call_internal E (Some PREDEF_USB_STORAGE_ADD) 1 [vconf_value];
        return ()
      })"

section \<open>Start-up\<close>

definition ss_device_change_init :: "env \<Rightarrow> (ss, int) state" where
  "ss_device_change_init E = do {
     for_each (\<lambda>noti. do { ss_noti_add E noti; return () })
       [''device_usb_chgdet'', ''device_ta_chgdet'', ''device_earjack_chgdet'', ''device_earkey_chgdet'',
        ''device_tvout_chgdet'', ''device_hdmi_chgdet'', ''device_keyboard_chgdet'', ''device_keyboard_add'',
        ''device_keyboard_remove'', ''device_mouse_add'', ''device_mouse_remove'', ''device_camera_add'',
        ''device_camera_remove'', ''device_unknown_usb_add'', ''device_unknown_usb_remove'', ''mmcblk_add'',
        ''mmcblk_remove'', ''unmount_ums'', ''device_charge_chgdet''];
     call E (VCONF (Notify_key_changed VK_INTERNAL_ADDED_USB_STORAGE));
     call E (VCONF (Notify_key_changed VK_INTERNAL_REMOVED_USB_STORAGE));
     set_dev (\<lambda>d. d\<lparr>input_device_number := 0\<rparr>);
     keyboard_chgdet_cb E;
     hdmi_chgdet_cb E;
     return 0
   }"

definition ss_usb_init :: "env \<Rightarrow> (ss, int) state" where
  "ss_usb_init E = do {
     (r, val) \<leftarrow> call_out E (OEM (Get OEM_jack_usb_online)) (-1);
     if r = 0 \<and> val = 1 then do {
       call E (VCONF (Set_int VK_USB_STATUS (konst E K_USB_AVAILABLE)));
       pm_retry E (Lock_state LCD_OFF STAY_CUR_STATE 0) RETRY;
       pid \<leftarrow> ss_launch_if_noexist E (Some USBCON_EXEC_PATH) None;
       return (if pid < 0 then -1 else 0)
     } else if r = 0 \<and> val = 0 then do {
       call E (VCONF (Set_int VK_USB_STATUS (konst E K_USB_DISCONNECTED)));
       return 0
     } else return 0
   }"

definition ss_ta_init :: "env \<Rightarrow> (ss, int) state" where
  "ss_ta_init E = do {
     (r, val) \<leftarrow> call_out E (OEM (Get OEM_jack_charger_online)) (-1);
     (if r = 0 \<and> val = 1 then do {
        call E (VCONF (Set_int VK_CHARGER_STATUS (konst E K_CHARGER_CONNECTED)));
        pm_retry E (Lock_state LCD_OFF STAY_CUR_STATE 0) RETRY
      } else if r = 0 \<and> val = 0 then do {
        call E (VCONF (Set_int VK_CHARGER_STATUS (konst E K_CHARGER_DISCONNECTED)));
        return ()
      } else return ());
     return 0
   }"

section \<open>Frames\<close>

lemma ticker_rules:
  "frame queue_part (ticker_entries E kvs)" "obeys_halt (ticker_entries E kvs)"
  "off_log f \<Longrightarrow> frame f (ticker_entries E kvs)"
proof -
  show f: "off_log f \<Longrightarrow> frame f (ticker_entries E kvs)" for f :: "ss \<Rightarrow> 'b"
    by (induction E kvs rule: ticker_entries.induct) (simp_all add: frame_def off_log_def)
  show "frame queue_part (ticker_entries E kvs)"
    by (induction E kvs rule: ticker_entries.induct) (auto intro!: frames)
  show "obeys_halt (ticker_entries E kvs)"
    by (induction E kvs rule: ticker_entries.induct) (auto intro!: stops)
qed

lemma camera_rules:
  "frame queue_part (camera_name E ds buf)" "obeys_halt (camera_name E ds buf)"
proof -
  show "frame queue_part (camera_name E ds buf)"
    by (induction ds arbitrary: buf) (auto intro!: frames)
  show "obeys_halt (camera_name E ds buf)"
    by (induction ds arbitrary: buf) (auto intro!: stops)
qed

lemma show_ticker_rules:
  "frame queue_part (show_tickernoti E msg)" "obeys_halt (show_tickernoti E msg)"
  unfolding show_tickernoti_def by (intro frames stops ticker_rules)+

lemma frame_show_ticker: "off_log f \<Longrightarrow> frame f (show_tickernoti E msg)"
  unfolding show_tickernoti_def
  by (intro frame_bind frame_if frame_return frame_calls ticker_rules(3); assumption)

lemmas device_cb_defs = usb_chgdet_cb_def ta_chgdet_cb_def earjack_chgdet_cb_def earkey_chgdet_cb_def
  tvout_chgdet_cb_def hdmi_chgdet_cb_def keyboard_chgdet_cb_def keyboard_add_cb_def keyboard_remove_cb_def
  mouse_add_cb_def mouse_remove_cb_def camera_add_cb_def camera_remove_cb_def unknown_usb_add_cb_def
  unknown_usb_remove_cb_def mmc_chgdet_cb_def ums_unmount_cb_def charge_cb_def usb_storage_cb_def
  noti_charge_def noti_full_def lowbat_warning_popup_def charger_changed_def otg_popup_def full_edge_def

context callback_safe
begin

lemma pres_launch [presI]:
  "pres I (ss_launch_if_noexist E p a)" "pres I (ss_launch_evenif_exist E p a)"
  by (intro pres_light frames stops)+

lemma pres_mmc [presI]: "pres I (ss_mmc_inserted E)" "pres I (ss_mmc_removed E)"
  by (intro pres_light frames stops)+

lemma pres_device_helpers [presI]:
  "pres I (show_tickernoti E msg)" "pres I (camera_name E ds buf)"
  by (intro pres_light show_ticker_rules camera_rules)+

lemma pres_device [presI]:
  "pres I (usb_chgdet_cb E)" "pres I (ta_chgdet_cb E)"
  "pres I (earjack_chgdet_cb E)" "pres I (earkey_chgdet_cb E)"
  "pres I (tvout_chgdet_cb E)" "pres I (hdmi_chgdet_cb E)"
  "pres I (keyboard_chgdet_cb E)" "pres I (keyboard_add_cb E)"
  "pres I (keyboard_remove_cb E)" "pres I (mouse_add_cb E)"
  "pres I (mouse_remove_cb E)" "pres I (camera_add_cb E)"
  "pres I (camera_remove_cb E)" "pres I (unknown_usb_add_cb E)"
  "pres I (unknown_usb_remove_cb E)" "pres I (mmc_chgdet_cb E b)"
  "pres I (ums_unmount_cb E)" "pres I (charge_cb E)"
  "pres I (usb_storage_cb E b)"
  unfolding device_cb_defs by (intro presI)+

lemma pres_device_init [presI]:
  "pres I (ss_device_change_init E)" "pres I (ss_usb_init E)"
  "pres I (ss_ta_init E)"
  unfolding ss_device_change_init_def ss_usb_init_def ss_ta_init_def by (intro presI)+

end

section \<open>What a computation last said of a lock or a key\<close>

text \<open>Read from a log whose most recent call is first.\<close>

fun lcd_off_held :: "hist \<Rightarrow> bool" where
  "lcd_off_held [] = False"
| "lcd_off_held (c # h) =
     (case c of
        PM (Lock_state LCD_OFF f t) \<Rightarrow> True
      | PM (Unlock_state LCD_OFF f) \<Rightarrow> False
      | _ \<Rightarrow> lcd_off_held h)"

fun charger_published :: "hist \<Rightarrow> int option" where
  "charger_published [] = None"
| "charger_published (c # h) =
     (case c of VCONF (Set_int k v) \<Rightarrow> if k = VK_CHARGER_STATUS then Some v else charger_published h
      | _ \<Rightarrow> charger_published h)"

lemma launch_keeps:
  assumes "list_all launch_call h"
  shows "lcd_off_held (h @ k) = lcd_off_held k" "charger_published (h @ k) = charger_published k"
proof -
  have "lcd_off_held (c # x) = lcd_off_held x \<and> charger_published (c # x) = charger_published x"
    if "launch_call c" for c x
    using that by (cases c) auto
  then have "lcd_off_held (h @ k) = lcd_off_held k \<and> charger_published (h @ k) = charger_published k"
    using assms by (induction h) (simp_all del: lcd_off_held.simps charger_published.simps)
  then show "lcd_off_held (h @ k) = lcd_off_held k" "charger_published (h @ k) = charger_published k"
    by simp_all
qed

lemma noti_charge_keeps:
  "lcd_off_held (trace (exec (noti_charge E) s)) = lcd_off_held (trace s)"
  "charger_published (trace (exec (noti_charge E) s)) = charger_published (trace s)"
proof -
  obtain h where "trace (exec (ss_launch_if_noexist E (Some SYS_DEVICE_NOTI)
      (Some (show_int CB_NOTI_BATT_CHARGE))) s) = h @ trace s" "list_all launch_call h"
    using emitsD [OF emits_launchers(2)] by metis
  then show "lcd_off_held (trace (exec (noti_charge E) s)) = lcd_off_held (trace s)"
    "charger_published (trace (exec (noti_charge E) s)) = charger_published (trace s)"
    using launch_keeps by (simp_all add: noti_charge_def)
qed

lemma charger_changed_effect:
  assumes "alive s"
  shows "lcd_off_held (trace (exec (charger_changed E val) s)) = (val \<noteq> 0)"
    "charger_published (trace (exec (charger_changed E val) s)) = Some val"
  using assms by (simp_all add: charger_changed_def lowbat_warning_popup_def noti_charge_keeps)

section \<open>What the battery monitor leaves alone\<close>

text \<open>Components that neither the log, nor the battery variables, nor posting an alert touch.\<close>

definition off_battery :: "(ss \<Rightarrow> 'b) \<Rightarrow> bool" where
  "off_battery f \<longleftrightarrow> off_log f \<and> (\<forall>g. frame f (set_bat g)) \<and>
     (\<forall>E t argc args. argc \<le> SYSMAN_MAXARG \<longrightarrow> frame f (ss_action_entry_call_internal E (Some t) argc args))"

lemma off_battery_components: "off_battery alive" "off_battery dev"
  by (auto simp: off_battery_def frame_def exec_call_internal exec_run_queue_add split: option.split)

lemma off_battery_rules:
  assumes "off_battery f"
  shows "off_log f" "frame f (set_bat g)" "frame f (call E c)" "frame f (call_out E c v)"
    "frame f (call_str E c)" "frame f (bat_action E a)"
proof -
  show "off_log f" using assms by (simp add: off_battery_def)
  then show c: "frame f (call E c)" "frame f (call_out E c v)" "frame f (call_str E c)" for E c v
    by (simp_all add: frame_calls)
  show "frame f (set_bat g)" using assms by (simp add: off_battery_def)
  have "frame f (ss_action_entry_call_internal E (Some t) 1 args)" for t args
    using assms by (simp add: off_battery_def SYSMAN_MAXARG_def)
  then show "frame f (bat_action E a)"
    using \<open>off_log f\<close> by (cases a) (auto intro!: frames)
qed

lemma off_battery_parts:
  assumes "off_battery f"
  shows "frame f (publish_level E c v)" "frame f (publish_capacity E c)" "frame f (bat_transition E n)"
    "frame f (ss_lowbat_is_charge_in_now E)"
  unfolding publish_level_def set_status_low_def publish_capacity_def bat_transition_def
    ss_lowbat_is_charge_in_now_def ss_lowbat_set_charge_on_def
  by (intro frame_bind frame_if frame_case_prod frame_case_option frame_return frame_getv
      off_battery_rules assms)+

lemma off_battery_process: "off_battery f \<Longrightarrow> frame f (lowbat_process E c)"
  unfolding lowbat_process_def
  by (intro frame_bind frame_if frame_case_prod frame_return off_battery_rules off_battery_parts; assumption)

lemma off_battery_monitor: "off_battery f \<Longrightarrow> frame f (ss_lowbat_monitor E)"
  unfolding ss_lowbat_monitor_def lowbat_read_def
  by (intro frame_bind frame_if frame_case_prod frame_return frame_getv frame_reads off_battery_rules
      off_battery_process; assumption)

lemmas monitor_keeps = off_battery_components [THEN off_battery_monitor, THEN frameD]
  off_battery_components [THEN off_battery_parts(4), THEN frameD]

section \<open>Charging\<close>

text \<open>The processes forked.\<close>

definition forks :: "hist \<Rightarrow> nat" where
  "forks h = length (filter (\<lambda>c. c = OS Fork) h)"

definition full_flag :: "int \<Rightarrow> int \<Rightarrow> int" where
  "full_flag full val = (if val = 0 then 0 else if val = 1 \<and> full = 0 then 1 else full)"

lemma noti_full_keeps: "dev (exec (noti_full E b) s) = dev s" "queue_part (exec (noti_full E b) s) = queue_part s"
proof -
  have "frame dev (noti_full E b)" "frame queue_part (noti_full E b)"
    unfolding noti_full_def by (intro frames)+
  then show "dev (exec (noti_full E b) s) = dev s" "queue_part (exec (noti_full E b) s) = queue_part s"
    by (simp_all add: frame_def)
qed

lemma full_edge_effect:
  fixes E v0 s
  assumes "alive s" "e_out E (trace s) (OEM (Get OEM_battery_charge_full)) = Some fv"
  defines "t \<equiv> exec (full_edge E v0) s" and "flag \<equiv> bat_full_noti (dev s)"
  shows "queue_part t = queue_part s"
    "alive t \<Longrightarrow> bat_full_noti (dev t) = full_flag flag fv"
    "full_flag flag fv = flag \<Longrightarrow> forks (trace t) = forks (trace s)"
  using assms
  by (auto simp: full_edge_def full_flag_def noti_full_keeps forks_def split: if_splits)


section \<open>Input devices\<close>

datatype input_event = Keyboard_add | Keyboard_remove | Mouse_add | Mouse_remove

fun input_cb :: "env \<Rightarrow> input_event \<Rightarrow> (ss, unit) state" where
  "input_cb E Keyboard_add = keyboard_add_cb E"
| "input_cb E Keyboard_remove = keyboard_remove_cb E"
| "input_cb E Mouse_add = mouse_add_cb E"
| "input_cb E Mouse_remove = mouse_remove_cb E"

definition is_add :: "input_event \<Rightarrow> bool" where
  "is_add e \<longleftrightarrow> e = Keyboard_add \<or> e = Mouse_add"

lemma show_ticker_keeps: "alive (exec (show_tickernoti E m) s) = alive s" "dev (exec (show_tickernoti E m) s) = dev s"
  using frameD [OF frame_show_ticker, of alive] frameD [OF frame_show_ticker, of dev] frames by blast+

lemma input_cb_effect:
  assumes "alive s"
  shows "alive (exec (input_cb E e) s)"
    "input_device_number (dev (exec (input_cb E e) s)) =
      (if is_add e then input_device_number (dev s) + 1
       else if input_device_number (dev s) > 0 then input_device_number (dev s) - 1
       else input_device_number (dev s))"
  using assms
  by (cases e; simp add: keyboard_add_cb_def keyboard_remove_cb_def mouse_add_cb_def mouse_remove_cb_def
      show_ticker_keeps is_add_def)+

text \<open>Every removal in the list has its addition before it.\<close>

fun balanced :: "int \<Rightarrow> input_event list \<Rightarrow> bool" where
  "balanced n [] \<longleftrightarrow> True"
| "balanced n (e # es) \<longleftrightarrow> (if is_add e then balanced (n + 1) es else n > 0 \<and> balanced (n - 1) es)"

definition plugged :: "input_event list \<Rightarrow> int" where
  "plugged es = int (length (filter is_add es)) - int (length (filter (\<lambda>e. \<not> is_add e) es))"

definition run_input :: "env \<Rightarrow> input_event list \<Rightarrow> ss \<Rightarrow> ss" where
  "run_input E es s = fold (\<lambda>e. exec (input_cb E e)) es s"

section \<open>Properties\<close>

definition charger_env :: "int \<Rightarrow> env" where
  "charger_env val = env1\<lparr>e_ret := (\<lambda>h c. case c of OEM (Get k) \<Rightarrow> 0 | FS f \<Rightarrow> 0 | _ \<Rightarrow> 1),
     e_out := (\<lambda>h c. Some val)\<rparr>"

text \<open>
  C37: After a charger event that could be read, the published charger status is the one
  read, and the lock that keeps the LCD-off state is held exactly when a charger is
  connected, whatever the battery monitor and the notification program did.
\<close>

theorem charger_event_holds_lcd:
  assumes "alive s" "\<And>h. e_ret E h (OEM (Get OEM_jack_charger_online)) = 0"
    and "\<And>h. e_out E h (OEM (Get OEM_jack_charger_online)) = Some val"
  shows "charger_published (trace (exec (ta_chgdet_cb E) s)) = Some val \<and>
    lcd_off_held (trace (exec (ta_chgdet_cb E) s)) = (val \<noteq> 0)"
  using assms by (simp add: ta_chgdet_cb_def charger_changed_effect monitor_keeps)

lemma charger_event_holds_lcd_witness:
  "lcd_off_held (trace (exec (ta_chgdet_cb (charger_env 1)) boot)) \<and>
   \<not> lcd_off_held (trace (exec (ta_chgdet_cb (charger_env 0)) boot))"
  using charger_event_holds_lcd [of boot "charger_env 1" 1] charger_event_holds_lcd [of boot "charger_env 0" 0]
  by (simp add: charger_env_def)

text \<open>
  A charging event with a bad battery health queues the charge-error alert and leaves
  the battery-full flag alone; any other one queues nothing beyond what the monitor did and
  moves the flag, and a process is started only when the flag changes.
\<close>

theorem charge_event_effect:
  assumes "alive s" "malloc_ok E" "\<And>h. e_ret E h (OEM (Get OEM_battery_health)) = 0"
    and "\<And>h. e_out E h (OEM (Get OEM_battery_health)) = Some hv"
    and "\<And>h. e_out E h (OEM (Get OEM_battery_charge_full)) = Some fv"
  defines "u \<equiv> exec (ss_lowbat_monitor E) s" and "t \<equiv> exec (charge_cb E) s"
    and "flag \<equiv> bat_full_noti (dev s)"
  shows "if hv \<in> {konst E K_BATTERY_OVERHEAT, konst E K_BATTERY_COLD}
    then queue_part t = post_action PREDEF_LOWBAT 1 [Some CHARGE_ERROR_ACT] (queue_part u) \<and>
      bat_full_noti (dev t) = flag
    else queue_part t = queue_part u \<and> (alive t \<longrightarrow> bat_full_noti (dev t) = full_flag flag fv) \<and>
      (full_flag flag fv = flag \<longrightarrow> forks (trace t) = forks (trace u))"
proof -
  have u: "alive u" "dev u = dev s" using assms(1) by (simp_all add: u_def monitor_keeps)
  define v where "v = log_call (OEM (Get OEM_battery_health)) u"
  have v: "alive v" "dev v = dev s" "queue_part v = queue_part u" "forks (trace v) = forks (trace u)"
    using u by (simp_all add: v_def forks_def)
  show ?thesis
  proof (cases "hv \<in> {konst E K_BATTERY_OVERHEAT, konst E K_BATTERY_COLD}")
    case True
    then have t: "t = exec (ss_action_entry_call_internal E (Some PREDEF_LOWBAT) 1 [Some CHARGE_ERROR_ACT]) v"
      using assms(3,4) by (auto simp: t_def charge_cb_def u_def v_def)
    show ?thesis
      using True call_internal_posts(1) [OF v(1) assms(2), of 1 PREDEF_LOWBAT "[Some CHARGE_ERROR_ACT]"]
      by (simp add: t v flag_def SYSMAN_MAXARG_def del: post_action.simps)
  next
    case False
    then have t: "t = exec (full_edge E hv) v"
      using assms(3,4) by (simp add: t_def charge_cb_def u_def v_def)
    show ?thesis
      using False full_edge_effect [OF v(1) assms(5), of hv] by (simp add: t v flag_def)
  qed
qed

lemma charge_event_effect_witness:
  "queue_part (exec (charge_cb (charger_env 7)) boot) = queue_part (exec (ss_lowbat_monitor (charger_env 7)) boot)"
  using charge_event_effect [of boot "charger_env 7" 7 7]
  by (simp add: charger_env_def malloc_ok_def)


text \<open>
  Plugging and unplugging mass storage queues the action of the matching name with
  one argument, the value of the matching key, or NULL when the key has none.
\<close>

theorem storage_event_posts:
  assumes "alive s" "malloc_ok E"
    and "\<And>h. e_str E h (VCONF (Get_str VK_INTERNAL_ADDED_USB_STORAGE)) = added"
    and "\<And>h. e_str E h (VCONF (Get_str VK_INTERNAL_REMOVED_USB_STORAGE)) = removed"
  shows "queue_part (exec (usb_storage_cb E True) s) =
      post_action PREDEF_USB_STORAGE_ADD 1 [added] (queue_part s) \<and>
    queue_part (exec (usb_storage_cb E False) s) =
      post_action PREDEF_USB_STORAGE_REMOVE 1 [removed] (queue_part s)"
proof
  let ?n = "exec (show_tickernoti E ''Mass storage enabled'') s"
  have n: "queue_part ?n = queue_part s" by (rule frameD [OF show_ticker_rules(1)])
  show "queue_part (exec (usb_storage_cb E True) s) =
      post_action PREDEF_USB_STORAGE_ADD 1 [added] (queue_part s)"
    using call_internal_posts(1) [OF _ assms(2), of "log_call (VCONF (Get_str VK_INTERNAL_ADDED_USB_STORAGE)) ?n"
        1 PREDEF_USB_STORAGE_ADD "[added]"] assms(1,3)
    by (simp add: usb_storage_cb_def show_ticker_keeps n SYSMAN_MAXARG_def del: post_action.simps)
  show "queue_part (exec (usb_storage_cb E False) s) =
      post_action PREDEF_USB_STORAGE_REMOVE 1 [removed] (queue_part s)"
    using call_internal_posts(1) [OF _ assms(2), of "log_call (VCONF (Get_str VK_INTERNAL_REMOVED_USB_STORAGE)) s"
        1 PREDEF_USB_STORAGE_REMOVE "[removed]"] assms(1,4)
    by (simp add: usb_storage_cb_def SYSMAN_MAXARG_def del: post_action.simps)
qed

lemma storage_event_posts_witness:
  "map rq_argv (run_queue (exec (usb_storage_cb (env1\<lparr>e_str := (\<lambda>_ _. Some ''sda1'')\<rparr>) False)
     (boot\<lparr>predef_act_list := [\<lparr>owner_pid = 1, ae_type = PREDEF_USB_STORAGE_REMOVE, ae_path = [],
       predefine_action = Fn_ss_usb_storage_removed, ui_viewable = None, is_accessable = None\<rparr>]\<rparr>))) =
   [[Some ''sda1'']]"
  (is "map rq_argv (run_queue (exec (usb_storage_cb ?E False) ?s)) = _")
proof -
  have "queue_part (exec (usb_storage_cb ?E False) ?s) =
      post_action PREDEF_USB_STORAGE_REMOVE 1 [Some ''sda1''] (queue_part ?s)"
    using storage_event_posts [of ?s ?E "Some ''sda1''" "Some ''sda1''"]
    by (simp add: malloc_ok_def del: post_action.simps)
  then show ?thesis by (simp add: queue_part_def)
qed

text \<open>
  The number of input devices is never negative, and when every device that is
  removed was added before, it is the number added minus the number removed, whatever the
  notifications return.
\<close>

theorem input_devices_counted:
  assumes "alive s" "0 \<le> input_device_number (dev s)"
  shows "0 \<le> input_device_number (dev (run_input E es s)) \<and>
    (balanced (input_device_number (dev s)) es \<longrightarrow>
      input_device_number (dev (run_input E es s)) = input_device_number (dev s) + plugged es)"
  using assms
proof (induction es arbitrary: s)
  case Nil
  then show ?case by (simp add: run_input_def plugged_def)
next
  case (Cons e es)
  define t where "t = exec (input_cb E e) s"
  have t: "alive t" "input_device_number (dev t) =
      (if is_add e then input_device_number (dev s) + 1
       else if input_device_number (dev s) > 0 then input_device_number (dev s) - 1
       else input_device_number (dev s))"
    using input_cb_effect [OF Cons.prems(1), of E e] by (simp_all add: t_def)
  have "run_input E (e # es) s = run_input E es t" by (simp add: run_input_def t_def)
  then show ?case
    using Cons.IH [OF t(1)] t(2) Cons.prems(2) by (auto simp: plugged_def)
qed

lemma input_devices_counted_witness:
  "input_device_number (dev (run_input env1 [Keyboard_add, Mouse_add, Keyboard_remove] boot)) = 1"
  using input_devices_counted [of boot env1 "[Keyboard_add, Mouse_add, Keyboard_remove]"]
  by (simp add: boot_def alive_def is_add_def plugged_def)

end
