(* ===== verification/SS_Sysnoti.thy ===== *)
theory SS_Sysnoti
  imports SS_Invariant SS_Data
begin

text \<open>
  \<open>ss_sysnoti.c\<close>: the socket over which other processes ask for an action.  A message is
  a sequence of ints and of strings with their length in front; a read that a signal
  interrupts is repeated.  What a read leaves in the buffer is the string the environment
  gives for it, also when the read was short.
\<close>

section \<open>Reading ints and strings\<close>

text \<open>Where the model gives up a loop that only \<open>EINTR\<close> keeps alive.\<close>

definition RECV_FUEL :: nat where "RECV_FUEL = 1000"

fun read_int :: "env \<Rightarrow> nat \<Rightarrow> int \<Rightarrow> int \<Rightarrow> (ss, int option) state" where
  "read_int E 0 fd val = do { halt Blocked; return None }"
| "read_int E (Suc n) fd val = do {
     (r, val) \<leftarrow> call_out E (FS (Read fd)) val;
     errno \<leftarrow> get_errno E;
     if r < 0 then if errno = EINTR then read_int E n fd val else return None
     else return (Some val)
   }"

fun read_bytes :: "env \<Rightarrow> nat \<Rightarrow> int \<Rightarrow> (ss, string option) state" where
  "read_bytes E 0 fd = do { halt Blocked; return None }"
| "read_bytes E (Suc n) fd = do {
     str \<leftarrow> peek_str E (FS (Read fd));
     r \<leftarrow> call E (FS (Read fd));
     errno \<leftarrow> get_errno E;
     if r < 0 then if errno = EINTR then read_bytes E n fd else return None
     else return (Some (str_or_empty str))
   }"

definition recv_int :: "env \<Rightarrow> int \<Rightarrow> (ss, int) state" where
  "recv_int E fd = do {
     junk \<leftarrow> get_junk E;
     v \<leftarrow> read_int E RECV_FUEL fd junk;
     return (case v of None \<Rightarrow> -1 | Some val \<Rightarrow> val)
   }"

definition recv_str :: "env \<Rightarrow> int \<Rightarrow> (ss, string option) state" where
  "recv_str E fd = do {
     junk \<leftarrow> get_junk E;
     l \<leftarrow> read_int E RECV_FUEL fd junk;
     case l of
       None \<Rightarrow> return None
     | Some len \<Rightarrow>
         if len \<le> 0 then return None
         else if len \<ge> INT_MAX then return None
         else do {
           str \<leftarrow> call E (OS (Malloc (len + 1)));
           if str = 0 then return None
           else do {
             t \<leftarrow> read_bytes E RECV_FUEL fd;
             return (map_option (\<lambda>t. takeWhile (\<lambda>c. c \<noteq> CHR 0x00) (take (nat len) t)) t)
           }
         }
   }"

section \<open>A message\<close>

definition CALL_SYSMAN_ACTION :: int where "CALL_SYSMAN_ACTION = 1"

text \<open>
  The arguments from the \<open>i\<close>-th on; \<open>argv\<close> has \<open>SYSMAN_MAXARG\<close> elements and the loop
  does not look at that.
\<close>

fun recv_args :: "env \<Rightarrow> int \<Rightarrow> int \<Rightarrow> nat \<Rightarrow> (ss, string option list) state" where
  "recv_args E fd i 0 = return []"
| "recv_args E fd i (Suc n) = do {
     a \<leftarrow> recv_str E fd;
     if i \<ge> SYSMAN_MAXARG then do { halt OutOfBounds; return [] }
     else do {
       as \<leftarrow> recv_args E fd (i + 1) n;
       return (a # as)
     }
   }"

definition read_message :: "env \<Rightarrow> int \<Rightarrow> (ss, sysnoti) state" where
  "read_message E fd = do {
     pid \<leftarrow> recv_int E fd;
     cmd \<leftarrow> recv_int E fd;
     type \<leftarrow> recv_str E fd;
     path \<leftarrow> recv_str E fd;
     argc \<leftarrow> recv_int E fd;
     argv \<leftarrow> recv_args E fd 0 (nat argc);
     return \<lparr>sn_pid = pid, sn_cmd = cmd, sn_type = type, sn_path = path, sn_argc = argc, sn_argv = argv\<rparr>
   }"

text \<open>The answer to the client.  \<open>free_message\<close> frees memory only and is left out.\<close>

definition answer :: "env \<Rightarrow> int \<Rightarrow> int \<Rightarrow> (ss, int) state" where
  "answer E client_sockfd ret = do {
     call E (IPC (Write_client ret));
     call E (FS (Close client_sockfd));
     return 1
   }"

text \<open>Looking up the name of the sender is all that happens beside the output.\<close>

definition print_sysnoti_msg :: "env \<Rightarrow> sysnoti \<Rightarrow> (ss, unit) state" where
  "print_sysnoti_msg E msg = do { call E (SYSMAN (Get_cmdline_name (sn_pid msg))); return () }"

text \<open>
  From the complete message on.  \<open>read_message\<close> always returns 0, so that the branch for
  a negative value is never taken.
\<close>

definition serve_message :: "env \<Rightarrow> int \<Rightarrow> sysnoti \<Rightarrow> (ss, int) state" where
  "serve_message E client_sockfd msg = do {
     print_sysnoti_msg E msg;
     if sn_argc msg > SYSMAN_MAXARG then answer E client_sockfd (-1)
     else do {
       ret \<leftarrow> (if sn_cmd msg = CALL_SYSMAN_ACTION
               then ss_action_entry_call E msg (sn_argc msg) (sn_argv msg) else return (-1));
       answer E client_sockfd ret
     }
   }"

definition sysnoti_cb :: "env \<Rightarrow> (ss, int) state" where
  "sysnoti_cb E = do {
     active \<leftarrow> call E (ECORE Fd_handler_active);
     if active = 0 then return 1
     else do {
       msgp \<leftarrow> call E (OS (Malloc 88));
       if msgp = 0 then return 1
       else do {
         client_sockfd \<leftarrow> call E (IPC Accept);
         if client_sockfd = -1 then return 1
         else do {
           msg \<leftarrow> read_message E client_sockfd;
           serve_message E client_sockfd msg
         }
       }
     }
   }"

section \<open>The server socket\<close>

definition SYSNOTI_SOCKET_PATH :: string where "SYSNOTI_SOCKET_PATH = ''/tmp/sn''"

definition ss_sysnoti_server_init :: "env \<Rightarrow> (ss, int) state" where
  "ss_sysnoti_server_init E = do {
     acc \<leftarrow> call E (FS (Access SYSNOTI_SOCKET_PATH));
     (if acc = 0 then do { call E (FS (Unlink SYSNOTI_SOCKET_PATH)); return () } else return ());
     fd \<leftarrow> call E (IPC Socket);
     if fd < 0 then return (-1)
     else do {
       x1 \<leftarrow> call E (IPC (Fsetxattr ''security.SMACK64IPOUT''));
       errno1 \<leftarrow> get_errno E;
       if x1 < 0 \<and> errno1 \<noteq> EOPNOTSUPP then return (-1)
       else do {
         x2 \<leftarrow> call E (IPC (Fsetxattr ''security.SMACK64IPIN''));
         errno2 \<leftarrow> get_errno E;
         if x2 < 0 \<and> errno2 \<noteq> EOPNOTSUPP then return (-1)
         else do {
           b \<leftarrow> call E (IPC Bind);
           if b < 0 then return (-1)
           else do {
             call E (FS (Chmod SYSNOTI_SOCKET_PATH 511));
             call E (IPC Listen);
             return fd
           }
         }
       }
     }
   }"

definition ss_sysnoti_init :: "env \<Rightarrow> (ss, int) state" where
  "ss_sysnoti_init E = do {
     fd \<leftarrow> ss_sysnoti_server_init E;
     call E (ECORE (Fd_handler_add fd));
     return fd
   }"


section \<open>Frames\<close>

lemma read_rules:
  "frame queue_part (read_int E n fd v)" "frame queue_part (read_bytes E n fd)"
  "obeys_halt (read_int E n fd v)" "obeys_halt (read_bytes E n fd)"
proof -
  show "frame queue_part (read_int E n fd v)" by (induction n arbitrary: v) (auto intro!: frames)
  show "frame queue_part (read_bytes E n fd)" by (induction n) (auto intro!: frames)
  show "obeys_halt (read_int E n fd v)" by (induction n arbitrary: v) (auto intro!: stops)
  show "obeys_halt (read_bytes E n fd)" by (induction n) (auto intro!: stops)
qed

lemma recv_rules:
  "frame queue_part (recv_int E fd)" "frame queue_part (recv_str E fd)"
  "obeys_halt (recv_int E fd)" "obeys_halt (recv_str E fd)"
  unfolding recv_int_def recv_str_def by (intro frames stops read_rules)+

lemma recv_args_rules:
  "frame queue_part (recv_args E fd i n)" "obeys_halt (recv_args E fd i n)"
proof -
  show "frame queue_part (recv_args E fd i n)"
    by (induction n arbitrary: i) (auto intro!: frames recv_rules)
  show "obeys_halt (recv_args E fd i n)"
    by (induction n arbitrary: i) (auto intro!: stops recv_rules)
qed

lemma read_message_rules:
  "frame queue_part (read_message E fd)" "obeys_halt (read_message E fd)"
  unfolding read_message_def by (intro frames stops recv_rules recv_args_rules)+

lemma stops_serve: "obeys_halt (serve_message E c m)" "obeys_halt (answer E c r)"
  unfolding serve_message_def print_sysnoti_msg_def answer_def by (intro stops)+

lemma stops_sysnoti [stops]: "obeys_halt (sysnoti_cb E)"
  unfolding sysnoti_cb_def by (intro stops read_message_rules stops_serve)

lemma frame_sysnoti_init [frames]: "frame queue_part (ss_sysnoti_init E)"
  unfolding ss_sysnoti_init_def ss_sysnoti_server_init_def by (intro frames)

lemma stops_sysnoti_init [stops]: "obeys_halt (ss_sysnoti_init E)"
  unfolding ss_sysnoti_init_def ss_sysnoti_server_init_def by (intro stops)

section \<open>Requests keep the invariant of the daemon\<close>

context callback_safe
begin

lemma pres_action_call [presI]: "pres I (ss_action_entry_call E m argc argv)"
proof -
  have "I (exec (ss_action_entry_call E m argc argv) s)" if inv: "I s" for s
  proof (cases "sn_type m")
    case None
    have "pres I (ss_action_entry_find None)"
      unfolding ss_action_entry_find_def option.case by (intro presI)
    then have "I (exec (ss_action_entry_find None) s)" using inv by (rule presD)
    moreover have "result (ss_action_entry_find None) s = None" by (simp add: ss_action_entry_find_def)
    ultimately show ?thesis using None by (simp add: ss_action_entry_call_def)
  next
    case (Some t)
    show ?thesis
    proof (cases "action_lookup s t")
      case None
      then show ?thesis using inv Some by (simp add: ss_action_entry_call_def)
    next
      case look: (Some d)
      define u where "u = (case is_accessable d of None \<Rightarrow> s | Some lib \<Rightarrow> log_call (DL (Is_accessable lib (sn_pid m))) s)"
      have "I u" "d \<in> set (predef_act_list u)"
        using inv lookup_mem [OF look] by (simp_all add: u_def split: option.split)
      then have "I u" "I (exec ss_core_action_run (exec (ss_run_queue_add E d argc argv) u))"
        using post by blast+
      then show ?thesis
        using look Some by (cases "is_accessable d") (simp_all add: ss_action_entry_call_def u_def)
    qed
  qed
  then show ?thesis by (simp add: pres_def)
qed

lemma pres_sysnoti [presI]: "pres I (sysnoti_cb E)"
  unfolding sysnoti_cb_def serve_message_def print_sysnoti_msg_def answer_def
  by (intro presI pres_light [OF read_message_rules])

end

section \<open>The client's encoding\<close>

text \<open>A message as the sequence of what the reads find in the socket.\<close>

datatype chunk = Int_chunk int | Str_chunk string

fun encode_str :: "string option \<Rightarrow> chunk list" where
  "encode_str None = [Int_chunk 0]"
| "encode_str (Some t) = [Int_chunk (int (length t)), Str_chunk t]"

definition encode_msg :: "sysnoti \<Rightarrow> chunk list" where
  "encode_msg m = Int_chunk (sn_pid m) # Int_chunk (sn_cmd m) # encode_str (sn_type m) @
     encode_str (sn_path m) @ Int_chunk (sn_argc m) # concat (map encode_str (sn_argv m))"

text \<open>What a C string with its length in front can carry: an empty one arrives as NULL.\<close>

definition sendable :: "string option \<Rightarrow> bool" where
  "sendable x \<longleftrightarrow> (case x of None \<Rightarrow> True
     | Some t \<Rightarrow> t \<noteq> [] \<and> CHR 0x00 \<notin> set t \<and> int (length t) < INT_MAX)"

definition sendable_msg :: "sysnoti \<Rightarrow> bool" where
  "sendable_msg m \<longleftrightarrow> sendable (sn_type m) \<and> sendable (sn_path m) \<and>
     sn_argc m = int (length (sn_argv m)) \<and> list_all sendable (sn_argv m)"

text \<open>The reads that follow a history succeed and find the chunks, one each.\<close>

fun delivers :: "env \<Rightarrow> int \<Rightarrow> chunk list \<Rightarrow> hist \<Rightarrow> bool" where
  "delivers E fd [] h \<longleftrightarrow> True"
| "delivers E fd (Int_chunk v # cs) h \<longleftrightarrow>
     0 \<le> e_ret E h (FS (Read fd)) \<and> e_out E h (FS (Read fd)) = Some v \<and> delivers E fd cs (FS (Read fd) # h)"
| "delivers E fd (Str_chunk t # cs) h \<longleftrightarrow>
     (let k = OS (Malloc (int (length t) + 1)) # h in
      e_ret E h (OS (Malloc (int (length t) + 1))) \<noteq> 0 \<and>
      0 \<le> e_ret E k (FS (Read fd)) \<and> e_str E k (FS (Read fd)) = Some t \<and> delivers E fd cs (FS (Read fd) # k))"

lemma first_read:
  assumes "0 \<le> e_ret E (trace s) (FS (Read fd))"
  shows "e_out E (trace s) (FS (Read fd)) = Some v \<Longrightarrow> result (read_int E RECV_FUEL fd j) s = Some v"
    and "exec (read_int E RECV_FUEL fd j) s = log_call (FS (Read fd)) s"
    and "e_str E (trace s) (FS (Read fd)) = Some t \<Longrightarrow> result (read_bytes E RECV_FUEL fd) s = Some t"
    and "exec (read_bytes E RECV_FUEL fd) s = log_call (FS (Read fd)) s"
proof -
  have "RECV_FUEL = Suc 999" by (simp add: RECV_FUEL_def)
  then obtain n where fuel: "RECV_FUEL = Suc n" by blast
  show "e_out E (trace s) (FS (Read fd)) = Some v \<Longrightarrow> result (read_int E RECV_FUEL fd j) s = Some v"
    "exec (read_int E RECV_FUEL fd j) s = log_call (FS (Read fd)) s"
    "e_str E (trace s) (FS (Read fd)) = Some t \<Longrightarrow> result (read_bytes E RECV_FUEL fd) s = Some t"
    "exec (read_bytes E RECV_FUEL fd) s = log_call (FS (Read fd)) s"
    using assms by (simp_all add: fuel str_or_empty_def)
qed

lemma recv_int_delivered:
  assumes "alive s" "delivers E fd (Int_chunk v # cs) (trace s)"
  shows "result (recv_int E fd) s = v" "alive (exec (recv_int E fd) s)"
    "delivers E fd cs (trace (exec (recv_int E fd) s))"
  using assms by (simp_all add: recv_int_def first_read)

lemma recv_str_delivered:
  assumes "alive s" "delivers E fd (encode_str x @ cs) (trace s)" "sendable x"
  shows "result (recv_str E fd) s = x" "alive (exec (recv_str E fd) s)"
    "delivers E fd cs (trace (exec (recv_str E fd) s))"
proof -
  have "result (recv_str E fd) s = x \<and> alive (exec (recv_str E fd) s) \<and>
      delivers E fd cs (trace (exec (recv_str E fd) s))"
  proof (cases x)
    case None
    then show ?thesis using assms(1,2) by (simp add: recv_str_def first_read)
  next
    case (Some t)
    have "takeWhile (\<lambda>c. c \<noteq> CHR 0x00) t = t"
      using assms(3) Some by (auto simp: sendable_def takeWhile_eq_all_conv)
    then show ?thesis
      using assms Some by (simp add: recv_str_def first_read sendable_def Let_def)
  qed
  then show "result (recv_str E fd) s = x" "alive (exec (recv_str E fd) s)"
    "delivers E fd cs (trace (exec (recv_str E fd) s))" by simp_all
qed

lemma recv_args_delivered:
  assumes "alive s" "delivers E fd (concat (map encode_str xs)) (trace s)" "list_all sendable xs"
  shows "if i + int (length xs) \<le> SYSMAN_MAXARG
    then result (recv_args E fd i (length xs)) s = xs \<and> alive (exec (recv_args E fd i (length xs)) s)
    else i \<le> SYSMAN_MAXARG \<longrightarrow> halted (exec (recv_args E fd i (length xs)) s) = Some OutOfBounds"
  using assms
proof (induction xs arbitrary: i s)
  case Nil
  then show ?case by simp
next
  case (Cons x xs)
  note r = recv_str_delivered [OF Cons.prems(1), of E fd x "concat (map encode_str xs)"]
  show ?case using Cons.IH [of "exec (recv_str E fd) s" "i + 1"] Cons.prems r by auto
qed

text \<open>The state in which the arguments are read, and the fields read before them.\<close>

lemma message_header_delivered:
  assumes "alive s" "delivers E fd (encode_msg m) (trace s)" "sendable_msg m"
  shows "\<exists>u. alive u \<and> delivers E fd (concat (map encode_str (sn_argv m))) (trace u) \<and>
    exec (read_message E fd) s = exec (recv_args E fd 0 (nat (sn_argc m))) u \<and>
    result (read_message E fd) s = \<lparr>sn_pid = sn_pid m, sn_cmd = sn_cmd m, sn_type = sn_type m,
      sn_path = sn_path m, sn_argc = sn_argc m, sn_argv = result (recv_args E fd 0 (nat (sn_argc m))) u\<rparr>"
proof -
  let ?args = "concat (map encode_str (sn_argv m))"
  note str = recv_str_delivered [where fd = fd and E = E] and int = recv_int_delivered [where fd = fd and E = E]
  define s1 where "s1 = exec (recv_int E fd) s"
  define s2 where "s2 = exec (recv_int E fd) s1"
  define s3 where "s3 = exec (recv_str E fd) s2"
  define s4 where "s4 = exec (recv_str E fd) s3"
  define s5 where "s5 = exec (recv_int E fd) s4"
  have ok: "sendable (sn_type m)" "sendable (sn_path m)" using assms(3) by (simp_all add: sendable_msg_def)
  have 0: "delivers E fd (Int_chunk (sn_pid m) # Int_chunk (sn_cmd m) # encode_str (sn_type m) @
      encode_str (sn_path m) @ Int_chunk (sn_argc m) # ?args) (trace s)"
    using assms(2) by (simp only: encode_msg_def)
  note 1 = int [OF assms(1) 0, folded s1_def]
  note 2 = int [OF 1(2,3), folded s2_def]
  note 3 = str [OF 2(2,3) ok(1), folded s3_def]
  note 4 = str [OF 3(2,3) ok(2), folded s4_def]
  note 5 = int [OF 4(2,3), folded s5_def]
  have "exec (read_message E fd) s = exec (recv_args E fd 0 (nat (sn_argc m))) s5"
    "result (read_message E fd) s = \<lparr>sn_pid = sn_pid m, sn_cmd = sn_cmd m, sn_type = sn_type m,
      sn_path = sn_path m, sn_argc = sn_argc m, sn_argv = result (recv_args E fd 0 (nat (sn_argc m))) s5\<rparr>"
    by (simp_all add: read_message_def 1 2 3 4 5 s1_def [symmetric] s2_def [symmetric] s3_def [symmetric]
        s4_def [symmetric] s5_def [symmetric])
  with 5 show ?thesis by blast
qed


text \<open>Either the message comes out as it was sent, or there are too many arguments.\<close>

lemma read_message_delivered:
  assumes "alive s" "delivers E fd (encode_msg m) (trace s)" "sendable_msg m"
  shows "if sn_argc m \<le> SYSMAN_MAXARG
    then result (read_message E fd) s = m \<and> alive (exec (read_message E fd) s)
    else halted (exec (read_message E fd) s) = Some OutOfBounds"
proof -
  obtain u where u: "alive u" "delivers E fd (concat (map encode_str (sn_argv m))) (trace u)"
    "exec (read_message E fd) s = exec (recv_args E fd 0 (nat (sn_argc m))) u"
    "result (read_message E fd) s = \<lparr>sn_pid = sn_pid m, sn_cmd = sn_cmd m, sn_type = sn_type m,
      sn_path = sn_path m, sn_argc = sn_argc m, sn_argv = result (recv_args E fd 0 (nat (sn_argc m))) u\<rparr>"
    using message_header_delivered [OF assms] by blast
  have "nat (sn_argc m) = length (sn_argv m)" "list_all sendable (sn_argv m)"
    using assms(3) by (simp_all add: sendable_msg_def)
  then show ?thesis
    using recv_args_delivered [OF u(1,2), of 0] u(3,4) assms(3)
    by (simp add: sendable_msg_def SYSMAN_MAXARG_def)
qed

text \<open>An environment whose reads, on any descriptor, find the chunks in order.\<close>

definition reads :: "hist \<Rightarrow> nat" where
  "reads h = length (filter (\<lambda>c. case c of FS (Read fd) \<Rightarrow> True | _ \<Rightarrow> False) h)"

definition sock_env :: "chunk list \<Rightarrow> env" where
  "sock_env cs = env1\<lparr>
     e_out := (\<lambda>h c. case drop (reads h) cs of Int_chunk v # _ \<Rightarrow> Some v | _ \<Rightarrow> None),
     e_str := (\<lambda>h c. case drop (reads h) cs of Str_chunk t # _ \<Rightarrow> Some t | _ \<Rightarrow> None)\<rparr>"

lemma sock_env_ret [simp]: "e_ret (sock_env cs) h c = 1" "malloc_ok (sock_env cs)"
  by (simp_all add: sock_env_def malloc_ok_def)

lemma sock_env_delivers: "reads h = length xs \<Longrightarrow> delivers (sock_env (xs @ cs)) fd cs h"
proof (induction cs arbitrary: xs h)
  case Nil
  then show ?case by simp
next
  case (Cons c cs)
  have step: "reads k = length xs \<Longrightarrow> delivers (sock_env (xs @ c # cs)) fd cs (FS (Read fd) # k)" for k
    using Cons.IH [of "FS (Read fd) # k" "xs @ [c]"] by (simp add: reads_def)
  show ?case
    using step [of h] step [of "OS (Malloc (int (length t) + 1)) # h" for t] Cons.prems
    by (cases c) (simp_all add: sock_env_def reads_def)
qed

section \<open>Serving a message\<close>

text \<open>Whether the registered action lets this process in, by a fixed policy of its library.\<close>

definition granted :: "(string \<Rightarrow> int \<Rightarrow> bool) \<Rightarrow> sysnoti \<Rightarrow> action_entry list \<Rightarrow> bool" where
  "granted policy m acts \<longleftrightarrow> sn_cmd m = CALL_SYSMAN_ACTION \<and>
     (case find (\<lambda>d. Some (ae_type d) = sn_type m) acts of
        None \<Rightarrow> False
      | Some d \<Rightarrow> (case is_accessable d of None \<Rightarrow> True | Some lib \<Rightarrow> policy lib (sn_pid m)))"

lemma served:
  assumes "alive u" "malloc_ok E" "sn_type m = Some t" "sn_argc m \<le> SYSMAN_MAXARG"
    and "\<And>h lib p. (e_ret E h (DL (Is_accessable lib p)) \<noteq> 0) = policy lib p"
  shows "alive (exec (serve_message E c m) u) \<and> queue_part (exec (serve_message E c m) u) =
      (if granted policy m (predef_act_list u)
       then post_action t (sn_argc m) (sn_argv m) (queue_part u) else queue_part u) \<and>
    (\<exists>h. trace (exec (serve_message E c m) u) = FS (Close c) #
       IPC (Write_client (if granted policy m (predef_act_list u) then 0 else -1)) # h)"
proof -
  define v where "v = log_call (SYSMAN (Get_cmdline_name (sn_pid m))) u"
  have v: "alive v" "queue_part v = queue_part u" "predef_act_list v = predef_act_list u"
    using assms(1) by (simp_all add: v_def)
  have run: "exec (serve_message E c m) u =
      (if sn_cmd m = CALL_SYSMAN_ACTION
       then exec (answer E c (result (ss_action_entry_call E m (sn_argc m) (sn_argv m)) v))
         (exec (ss_action_entry_call E m (sn_argc m) (sn_argv m)) v)
       else exec (answer E c (-1)) v)"
    using assms(4) by (simp add: serve_message_def print_sysnoti_msg_def v_def)
  show ?thesis
  proof (cases "action_lookup u t")
    case None
    then show ?thesis
      using run assms(1,3) v
      by (simp add: ss_action_entry_call_def answer_def granted_def action_lookup_def)
  next
    case (Some d)
    define w where "w = (case is_accessable d of None \<Rightarrow> v | Some lib \<Rightarrow> log_call (DL (Is_accessable lib (sn_pid m))) v)"
    have w: "alive w" "queue_part w = queue_part u" using v by (simp_all add: w_def split: option.split)
    have fnd: "find (\<lambda>d. ae_type d = t) (predef_act_list u) = Some d"
      using Some by (simp add: action_lookup_def)
    define ok where "ok = (case is_accessable d of None \<Rightarrow> True | Some lib \<Rightarrow> policy lib (sn_pid m))"
    have acc: "e_ret E (trace v) (DL (Is_accessable lib p)) = 0 \<longleftrightarrow> \<not> policy lib p" for lib p
      using assms(5) by blast
    have call: "exec (ss_action_entry_call E m (sn_argc m) (sn_argv m)) v =
        (if ok then exec ss_core_action_run (exec (ss_run_queue_add E d (sn_argc m) (sn_argv m)) w) else w)"
      "result (ss_action_entry_call E m (sn_argc m) (sn_argv m)) v = (if ok then 0 else -1)"
      using Some v assms(3) acc
      by (cases "is_accessable d"; simp add: ss_action_entry_call_def ok_def w_def action_lookup_def)+
    have post: "queue_part (exec ss_core_action_run (exec (ss_run_queue_add E d (sn_argc m) (sn_argv m)) w)) =
        post_action t (sn_argc m) (sn_argv m) (queue_part u)"
      "alive (exec ss_core_action_run (exec (ss_run_queue_add E d (sn_argc m) (sn_argv m)) w))"
      using w fnd malloc_okD [OF assms(2)] assms(4)
      by (auto simp: exec_run_queue_add queue_part_def new_entry_def)
    have "granted policy m (predef_act_list u) = (sn_cmd m = CALL_SYSMAN_ACTION \<and> ok)"
      using fnd assms(3) by (simp add: granted_def ok_def)
    then show ?thesis
      using run call post w v by (simp add: answer_def del: post_action.simps exec_core_action_run)
  qed
qed

text \<open>The whole callback for a message that arrives.\<close>

lemma client_served:
  assumes "alive s" "malloc_ok E" "sn_type m = Some t" "sendable_msg m" "sn_argc m \<le> SYSMAN_MAXARG"
    and "\<And>h. e_ret E h (ECORE Fd_handler_active) \<noteq> 0" "\<And>h. e_ret E h (IPC Accept) = c" "c \<noteq> -1"
    and "delivers E c (encode_msg m) (IPC Accept # OS (Malloc 88) # ECORE Fd_handler_active # trace s)"
    and "\<And>h lib p. (e_ret E h (DL (Is_accessable lib p)) \<noteq> 0) = policy lib p"
  shows "alive (exec (sysnoti_cb E) s) \<and> queue_part (exec (sysnoti_cb E) s) =
      (if granted policy m (predef_act_list s)
       then post_action t (sn_argc m) (sn_argv m) (queue_part s) else queue_part s) \<and>
    (\<exists>h. trace (exec (sysnoti_cb E) s) = FS (Close c) #
       IPC (Write_client (if granted policy m (predef_act_list s) then 0 else -1)) # h)"
proof -
  define v where "v = log_call (IPC Accept) (log_call (OS (Malloc 88)) (log_call (ECORE Fd_handler_active) s))"
  have v: "alive v" "queue_part v = queue_part s"
    "trace v = IPC Accept # OS (Malloc 88) # ECORE Fd_handler_active # trace s"
    using assms(1) by (simp_all add: v_def)
  define u where "u = exec (read_message E c) v"
  have d: "delivers E c (encode_msg m) (trace v)" using v(3) assms(9) by simp
  have m: "result (read_message E c) v = m" "alive u"
    using read_message_delivered [OF v(1) d assms(4)] assms(5) by (simp_all add: u_def)
  have q: "queue_part u = queue_part s"
    unfolding u_def using frameD [OF read_message_rules(1), of E c v] v(2) by simp
  then have p: "predef_act_list u = predef_act_list s" by (simp add: queue_part_def)
  have "exec (sysnoti_cb E) s = exec (serve_message E c m) u"
    using assms(1,6,7,8) m(1) malloc_okD [OF assms(2)]
    by (simp add: sysnoti_cb_def v_def u_def)
  then show ?thesis using served [OF m(2) assms(2,3,5,10), of c] q p by simp
qed

section \<open>Properties\<close>

text \<open>
  C24: A message of at most sixteen arguments is read back exactly as the client encoded
  it, whatever its strings contain (a NUL byte and the empty string apart), and reading it
  touches neither the table nor the queue.
\<close>

theorem message_round_trip:
  assumes "alive s" "delivers E fd (encode_msg m) (trace s)" "sendable_msg m" "sn_argc m \<le> SYSMAN_MAXARG"
  shows "result (read_message E fd) s = m \<and> alive (exec (read_message E fd) s) \<and>
    queue_part (exec (read_message E fd) s) = queue_part s"
  using read_message_delivered [OF assms(1-3)] assms(4) frameD [OF read_message_rules(1)] by auto

text \<open>A request to change the time, from process 77.\<close>

definition time_request :: sysnoti where
  "time_request = \<lparr>sn_pid = 77, sn_cmd = 1, sn_type = Some ''set_datetime'', sn_path = None, sn_argc = 1,
     sn_argv = [Some ''12'']\<rparr>"

lemma time_request_ok: "sendable_msg time_request" "sn_argc time_request \<le> SYSMAN_MAXARG"
  by (simp_all add: time_request_def sendable_msg_def sendable_def INT_MAX_def SYSMAN_MAXARG_def)

lemma message_round_trip_witness:
  "result (read_message (sock_env (encode_msg time_request)) 5) boot = time_request"
  using message_round_trip [OF boot_simps(3) _ time_request_ok]
    sock_env_delivers [of "[]" "[]" "encode_msg time_request" 5] by (simp add: reads_def)

text \<open>
  C33: A message with more than sixteen arguments is not refused: the loop that reads the
  arguments writes behind the array of the message before the check of their number.
\<close>

theorem long_message_overflows:
  assumes "alive s" "delivers E fd (encode_msg m) (trace s)" "sendable_msg m" "SYSMAN_MAXARG < sn_argc m"
  shows "halted (exec (read_message E fd) s) = Some OutOfBounds"
  using read_message_delivered [OF assms(1-3)] assms(4) by simp

lemma long_message_overflows_witness:
  "\<exists>m. sn_argc m = 17 \<and> halted (exec (read_message (sock_env (encode_msg m)) 5) boot) = Some OutOfBounds"
proof -
  define m where "m = time_request\<lparr>sn_argc := 17, sn_argv := replicate 17 (Some ''x'')\<rparr>"
  have "sendable_msg m" "sn_argc m = 17"
    by (simp_all add: m_def time_request_def sendable_msg_def sendable_def INT_MAX_def list_all_iff)
  then show ?thesis
    using long_message_overflows [OF boot_simps(3), of "sock_env (encode_msg m)" 5 m]
      sock_env_delivers [of "[]" "[]" "encode_msg m" 5] by (auto simp: reads_def SYSMAN_MAXARG_def)
qed

text \<open>
  C14: For a message that names a type and has at most sixteen arguments, the daemon queues
  an action exactly when the client asked to call one, an action of that type is registered
  and its access check lets in the pid written in the message; the client is told 0 in that
  case, and -1 otherwise, when the queue stays as it was.
\<close>

theorem client_request_served:
  assumes "alive s" "malloc_ok E" "sn_type m = Some t" "sendable_msg m" "sn_argc m \<le> SYSMAN_MAXARG"
    and "\<And>h. e_ret E h (ECORE Fd_handler_active) \<noteq> 0" "\<And>h. e_ret E h (IPC Accept) = c" "c \<noteq> -1"
    and "delivers E c (encode_msg m) (IPC Accept # OS (Malloc 88) # ECORE Fd_handler_active # trace s)"
    and "\<And>h lib p. (e_ret E h (DL (Is_accessable lib p)) \<noteq> 0) = policy lib p"
  shows "queue_part (exec (sysnoti_cb E) s) =
      (if granted policy m (predef_act_list s)
       then post_action t (sn_argc m) (sn_argv m) (queue_part s) else queue_part s) \<and>
    (\<exists>h. trace (exec (sysnoti_cb E) s) = FS (Close c) #
       IPC (Write_client (if granted policy m (predef_act_list s) then 0 else -1)) # h)"
  using client_served [OF assms] by blast

lemma client_request_served_witness:
  "map rq_argv (run_queue (exec (sysnoti_cb (sock_env (encode_msg time_request)))
     (boot\<lparr>predef_act_list := [\<lparr>owner_pid = 1, ae_type = ''set_datetime'', ae_path = [],
       predefine_action = Fn_set_datetime_action, ui_viewable = None, is_accessable = None\<rparr>]\<rparr>))) =
   [[Some ''12'']]"
  (is "map rq_argv (run_queue (exec (sysnoti_cb ?E) ?s)) = _")
proof -
  have "delivers ?E 1 (encode_msg time_request) [IPC Accept, OS (Malloc 88), ECORE Fd_handler_active]"
    using sock_env_delivers [of "[IPC Accept, OS (Malloc 88), ECORE Fd_handler_active]" "[]"] by (simp add: reads_def)
  then have "queue_part (exec (sysnoti_cb ?E) ?s) =
      (if granted (\<lambda>_ _. True) time_request (predef_act_list ?s)
       then post_action ''set_datetime'' (sn_argc time_request) (sn_argv time_request) (queue_part ?s)
       else queue_part ?s)"
    using client_request_served [of ?s ?E time_request "''set_datetime''" 1 "\<lambda>_ _. True"] time_request_ok
    by (simp add: time_request_def)
  then show ?thesis
    by (simp add: granted_def time_request_def CALL_SYSMAN_ACTION_def queue_part_def)
qed

text \<open>
  C32: A client that sends the length 0 for the type of the action it calls kills the
  daemon: the type arrives as NULL and is compared with the registered ones.
\<close>

theorem null_type_kills_daemon:
  assumes "alive s" "malloc_ok E" "sn_type m = None" "sendable_msg m" "sn_argc m \<le> SYSMAN_MAXARG"
    and "sn_cmd m = CALL_SYSMAN_ACTION" "predef_act_list s \<noteq> []"
    and "\<And>h. e_ret E h (ECORE Fd_handler_active) \<noteq> 0" "\<And>h. e_ret E h (IPC Accept) = c" "c \<noteq> -1"
    and "delivers E c (encode_msg m) (IPC Accept # OS (Malloc 88) # ECORE Fd_handler_active # trace s)"
  shows "halted (exec (sysnoti_cb E) s) = Some NullDeref"
proof -
  define v where "v = log_call (IPC Accept) (log_call (OS (Malloc 88)) (log_call (ECORE Fd_handler_active) s))"
  have v: "alive v" "queue_part v = queue_part s"
    "trace v = IPC Accept # OS (Malloc 88) # ECORE Fd_handler_active # trace s"
    using assms(1) by (simp_all add: v_def)
  define u where "u = exec (read_message E c) v"
  have "delivers E c (encode_msg m) (trace v)" using v(3) assms(11) by simp
  then have m: "result (read_message E c) v = m" "alive u"
    using read_message_delivered [OF v(1) _ assms(4)] assms(5) by (simp_all add: u_def)
  have "queue_part u = queue_part s"
    unfolding u_def using frameD [OF read_message_rules(1), of E c v] v(2) by simp
  then have "predef_act_list u \<noteq> []" using assms(7) by (simp add: queue_part_def)
  then have "halted (exec (serve_message E c m) u) = Some NullDeref"
    using m(2) assms(3,5,6) by (simp add: serve_message_def print_sysnoti_msg_def ss_action_entry_call_def ss_action_entry_find_def answer_def)
  moreover have "exec (sysnoti_cb E) s = exec (serve_message E c m) u"
    using assms(1,8,9,10) m(1) malloc_okD [OF assms(2)] by (simp add: sysnoti_cb_def v_def u_def)
  ultimately show ?thesis by simp
qed

lemma null_type_kills_daemon_witness:
  "halted (exec (sysnoti_cb (sock_env (encode_msg (time_request\<lparr>sn_type := None\<rparr>))))
     (boot\<lparr>predef_act_list := [\<lparr>owner_pid = 1, ae_type = ''set_datetime'', ae_path = [],
       predefine_action = Fn_set_datetime_action, ui_viewable = None, is_accessable = None\<rparr>]\<rparr>)) = Some NullDeref"
  (is "halted (exec (sysnoti_cb (sock_env (encode_msg ?m))) ?s) = _")
proof -
  have "delivers (sock_env (encode_msg ?m)) 1 (encode_msg ?m) [IPC Accept, OS (Malloc 88), ECORE Fd_handler_active]"
    using sock_env_delivers [of "[IPC Accept, OS (Malloc 88), ECORE Fd_handler_active]" "[]"] by (simp add: reads_def)
  then show ?thesis
    using null_type_kills_daemon [of ?s "sock_env (encode_msg ?m)" ?m 1] time_request_ok
    by (simp add: time_request_def sendable_msg_def sendable_def CALL_SYSMAN_ACTION_def)
qed

text \<open>
  Reads that a signal interrupts are repeated: as long as fewer than the bound of the
  model come in a row, an int is received as if there had been none.
\<close>

theorem interrupted_reads_retried:
  fixes fd :: int
  defines "R \<equiv> FS (Read fd)"
  assumes "alive s" "k < RECV_FUEL"
    and "\<And>i. i < k \<Longrightarrow> e_ret E (replicate i R @ trace s) R < 0 \<and>
      e_errno E (replicate (Suc i) R @ trace s) = EINTR"
    and "0 \<le> e_ret E (replicate k R @ trace s) R" "e_out E (replicate k R @ trace s) R = Some v"
  shows "result (recv_int E fd) s = v \<and> alive (exec (recv_int E fd) s) \<and>
    trace (exec (recv_int E fd) s) = replicate (Suc k) R @ trace s"
proof -
  have "result (read_int E n fd j) u = Some v \<and> alive (exec (read_int E n fd j) u) \<and>
      trace (exec (read_int E n fd j) u) = replicate (Suc k - i) R @ trace u"
    if "alive u" "trace u = replicate i R @ trace s" "i \<le> k" "k < i + n" for n i j u
    using that
  proof (induction n arbitrary: i j u)
    case 0
    then show ?case by simp
  next
    case (Suc n)
    define w where "w = log_call R u"
    have w: "alive w" "trace w = replicate (Suc i) R @ trace s" using Suc.prems by (simp_all add: w_def)
    show ?case
    proof (cases "i = k")
      case True
      then show ?thesis using Suc.prems assms(5,6) by (simp add: R_def)
    next
      case False
      then have e: "e_ret E (trace u) R < 0" "e_errno E (trace w) = EINTR"
        using assms(4) [of i] Suc.prems(2,3) w(2) by simp_all
      have "Suc k - i = Suc (Suc k - Suc i)" using False Suc.prems(3) by simp
      then show ?thesis
        using Suc.IH [OF w, of "case e_out E (trace u) R of None \<Rightarrow> j | Some x \<Rightarrow> x"] e Suc.prems False
        by (simp add: R_def [symmetric] w_def [symmetric] replicate_app_Cons_same) (simp add: w_def replicate_app_Cons_same)
    qed
  qed
  from this [of s 0 RECV_FUEL "e_junk E (trace s)"] show ?thesis
    using assms(2,3) by (simp add: recv_int_def)
qed


definition eintr_env :: env where
  "eintr_env = env1\<lparr>e_ret := (\<lambda>h c. if reads h < 2 then -1 else 4),
     e_errno := (\<lambda>_. EINTR), e_out := (\<lambda>_ _. Some 42)\<rparr>"

lemma interrupted_reads_retried_witness:
  "result (recv_int eintr_env 5) boot = 42 \<and> trace (exec (recv_int eintr_env 5) boot) = replicate 3 (FS (Read 5))"
proof -
  have "reads (replicate i (FS (Read 5))) = i" for i
    by (induction i) (simp_all add: reads_def)
  then show ?thesis
    using interrupted_reads_retried [of boot 2 eintr_env 5 42]
    by (simp add: eintr_env_def RECV_FUEL_def numeral_3_eq_3)
qed

end
