(* ===== verification/SS_Timemgr.thy ===== *)
theory SS_Timemgr
  imports SS_Invariant SS_Data
begin

text \<open>
  \<open>ss_timemgr.c\<close>: setting the date and the time zone.  The state the power manager is
  locked in is one of its bit values, \<open>PM_NUM\<close> of the number the code writes.
\<close>

section \<open>The functions\<close>

definition default_localtime :: string where "default_localtime = ''/opt/etc/localtime''"

text \<open>\<open>strndup\<close> is taken to succeed.\<close>

definition substring :: "string option \<Rightarrow> nat \<Rightarrow> nat \<Rightarrow> string option" where
  "substring str begin len =
     (case str of
        None \<Rightarrow> None
      | Some t \<Rightarrow> if length t = 0 \<or> length t < begin \<or> length t < begin + len then None
                  else Some (take len (drop begin t)))"

definition handle_timezone :: "env \<Rightarrow> string option \<Rightarrow> (ss, int) state" where
  "handle_timezone E str =
     (case str of
        None \<Rightarrow> return (-1)
      | Some tzpath \<Rightarrow> do {
          st \<leftarrow> call E (FS (Stat default_localtime));
          errno \<leftarrow> get_errno E;
          gone \<leftarrow> (if st = -1 \<and> errno = ENOENT then return True
                  else do { ret \<leftarrow> call E (FS (Unlink default_localtime)); return (\<not> ret < 0) });
          if \<not> gone then return (-1)
          else do {
            ret \<leftarrow> call E (FS (Symlink tzpath default_localtime));
            if ret < 0 then return (-1)
            else do { call E (OS Tzset); return 0 }
          }
        })"

definition handle_date :: "env \<Rightarrow> string option \<Rightarrow> (ss, int) state" where
  "handle_date E str =
     (case str of
        None \<Rightarrow> return (-1)
      | Some t \<Rightarrow> do {
          call E (VCONF (Set_int VK_SYSTEM_TIMECHANGE (atoi t)));
          return 0
        })"

definition lock_for :: "int \<Rightarrow> pmstate" where
  "lock_for ret = PM_NUM (if ret = 1 then 1 else if ret = 2 then 2 else 4)"

definition set_datetime_action :: "env \<Rightarrow> int \<Rightarrow> string option list \<Rightarrow> (ss, int) state" where
  "set_datetime_action E argc argv =
     (if argc < 1 then return (-1)
      else do {
        (_, ret) \<leftarrow> call_out E (VCONF (Get_int VK_PM_STATE)) 0;
        call E (PM (Lock_state (lock_for ret) STAY_CUR_STATE 0));
        r \<leftarrow> handle_date E (argv_at argv 0);
        call E (PM (Unlock_state (lock_for ret) STAY_CUR_STATE));
        return r
      })"

text \<open>Here \<open>ret\<close> has no value when the key cannot be read.\<close>

definition set_timezone_action :: "env \<Rightarrow> int \<Rightarrow> string option list \<Rightarrow> (ss, int) state" where
  "set_timezone_action E argc argv =
     (if argc < 1 then return (-1)
      else do {
        junk \<leftarrow> get_junk E;
        (_, ret) \<leftarrow> call_out E (VCONF (Get_int VK_PM_STATE)) junk;
        call E (PM (Lock_state (lock_for ret) STAY_CUR_STATE 0));
        r \<leftarrow> handle_timezone E (argv_at argv 0);
        call E (PM (Unlock_state (lock_for ret) STAY_CUR_STATE));
        return r
      })"

definition ss_time_manager_init :: "env \<Rightarrow> (ss, int) state" where
  "ss_time_manager_init E = do {
     ss_action_entry_add_internal E PREDEF_SET_DATETIME (Some Fn_set_datetime_action) None None;
     ss_action_entry_add_internal E PREDEF_SET_TIMEZONE (Some Fn_set_timezone_action) None None;
     return 0
   }"

section \<open>Frames\<close>

lemmas time_defs = set_datetime_action_def set_timezone_action_def handle_date_def handle_timezone_def

lemma frames_timemgr [frames]:
  "frame queue_part (set_datetime_action E argc argv)" "frame queue_part (set_timezone_action E argc argv)"
  unfolding time_defs by (intro frames)+

lemma stops_timemgr [stops]:
  "obeys_halt (set_datetime_action E argc argv)" "obeys_halt (set_timezone_action E argc argv)"
  unfolding time_defs by (intro stops)+

section \<open>Handlers inside the lock\<close>

definition pm_free :: "ecall \<Rightarrow> bool" where
  "pm_free c \<longleftrightarrow> (\<forall>p. c \<noteq> PM p)"

lemma emits_handlers: "emits pm_free (handle_date E a)" "emits pm_free (handle_timezone E a)"
  unfolding handle_date_def handle_timezone_def by (intro emitsI; simp add: pm_free_def)+

lemma alive_handlers: "frame alive (handle_date E a)" "frame alive (handle_timezone E a)"
  unfolding handle_date_def handle_timezone_def by (intro frames)+

text \<open>The log of one locked section: taken, used without another power-manager call, released.\<close>

definition locked_section :: "hist \<Rightarrow> hist \<Rightarrow> bool" where
  "locked_section h k \<longleftrightarrow> (\<exists>st mid. st \<in> {PM_NUM 1, PM_NUM 2, PM_NUM 4} \<and> list_all pm_free mid \<and>
     k = PM (Unlock_state st STAY_CUR_STATE) # mid @ PM (Lock_state st STAY_CUR_STATE 0) #
       VCONF (Get_int VK_PM_STATE) # h)"

lemma locked_sectionI:
  fixes ret :: int
  assumes "emits pm_free m" "frame alive m" "alive s"
  defines "l \<equiv> PM (Lock_state (lock_for ret) STAY_CUR_STATE 0)"
    and "u \<equiv> PM (Unlock_state (lock_for ret) STAY_CUR_STATE)"
  shows "locked_section (trace s) (trace (log_call u (exec m (log_call l (log_call (VCONF (Get_int VK_PM_STATE)) s)))))"
proof -
  define v where "v = log_call l (log_call (VCONF (Get_int VK_PM_STATE)) s)"
  have v: "alive v" "trace v = l # VCONF (Get_int VK_PM_STATE) # trace s" using assms(3) by (simp_all add: v_def)
  obtain mid where "trace (exec m v) = mid @ trace v" "list_all pm_free mid" using emitsD [OF assms(1)] by blast
  moreover have "alive (exec m v)" using frameD [OF assms(2), of v] v(1) by simp
  moreover have "lock_for ret \<in> {PM_NUM 1, PM_NUM 2, PM_NUM 4}" by (simp add: lock_for_def)
  ultimately show ?thesis
    unfolding locked_section_def v_def [symmetric] by (simp add: v(2) l_def u_def)
qed

section \<open>Properties\<close>

text \<open>
  Every request to change the time or the time zone that has an argument holds the
  power manager in one state, the one current when it could be read, for exactly the
  duration of the change: the lock taken is released, with the same state, whatever fails
  in between.
\<close>

theorem time_actions_release_lock:
  assumes "alive s" "1 \<le> argc"
  shows "locked_section (trace s) (trace (exec (set_datetime_action E argc argv) s)) \<and>
    locked_section (trace s) (trace (exec (set_timezone_action E argc argv) s))"
proof
  let ?r = "\<lambda>d. case e_out E (trace s) (VCONF (Get_int VK_PM_STATE)) of None \<Rightarrow> d | Some x \<Rightarrow> x"
  show "locked_section (trace s) (trace (exec (set_datetime_action E argc argv) s))"
    using locked_sectionI [OF emits_handlers(1) alive_handlers(1) assms(1), where ret = "?r 0"] assms(2)
    by (simp add: set_datetime_action_def del: trace_log_call)
  show "locked_section (trace s) (trace (exec (set_timezone_action E argc argv) s))"
    using locked_sectionI [OF emits_handlers(2) alive_handlers(2) assms(1), where ret = "?r (e_junk E (trace s))"] assms(2)
    by (simp add: set_timezone_action_def del: trace_log_call)
qed

lemma time_actions_release_lock_witness:
  "locked_section [] (trace (exec (set_timezone_action env1 1 [Some ''Asia/Seoul'']) boot))"
  using time_actions_release_lock [of boot 1 env1 "[Some ''Asia/Seoul'']"] by simp

text \<open>
  Changing the time zone answers 0 exactly when the new link was made, and then the
  C library is told; when the new link cannot be made after the old one was removed, the
  answer is -1 and nothing restores the old one.
\<close>

theorem timezone_link_replaced_or_lost:
  fixes tz :: string
  assumes "alive s" "e_ret E (trace s) (FS (Stat default_localtime)) = 0"
    and "\<And>h. e_ret E h (FS (Unlink default_localtime)) = 0"
  defines "t \<equiv> exec (handle_timezone E (Some tz)) s"
    and "k \<equiv> FS (Symlink tz default_localtime) # FS (Unlink default_localtime) #
      FS (Stat default_localtime) # trace s"
  shows "if e_ret E (tl k) (hd k) < 0
    then result (handle_timezone E (Some tz)) s = -1 \<and> trace t = k
    else result (handle_timezone E (Some tz)) s = 0 \<and> trace t = OS Tzset # k"
  using assms by (simp add: handle_timezone_def)

lemma timezone_link_replaced_or_lost_witness:
  "trace (exec (handle_timezone (env1\<lparr>e_ret := (\<lambda>h c. case c of FS (Symlink a b) \<Rightarrow> -1 | _ \<Rightarrow> 0)\<rparr>) (Some ''Mars'')) boot) =
     [FS (Symlink ''Mars'' default_localtime), FS (Unlink default_localtime), FS (Stat default_localtime)]"
  using timezone_link_replaced_or_lost [of boot "env1\<lparr>e_ret := (\<lambda>h c. case c of FS (Symlink a b) \<Rightarrow> -1 | _ \<Rightarrow> 0)\<rparr>" "''Mars''"]
  by simp

end
