(* ===== verification/SS_Files.thy ===== *)
theory SS_Files
  imports SS_Invariant
begin

text \<open>
  Files of the model read and written through a descriptor, for the handlers that use
  \<open>open\<close>, \<open>read\<close> and \<open>write\<close> in place of stdio, and C strings in buffers.
\<close>

section \<open>C strings\<close>

text \<open>What a buffer holds as a string: everything before the first NUL.\<close>

definition c_string :: "string \<Rightarrow> string" where
  "c_string t = takeWhile (\<lambda>c. c \<noteq> CHR 0x00) t"

section \<open>Files read and written through a descriptor\<close>

text \<open>
  Opening a file that is not there creates an empty one when \<open>create\<close> is set.  A read that
  succeeds returns everything up to its limit; a write that succeeds replaces the front of
  the file.
\<close>

definition file_open :: "env \<Rightarrow> string \<Rightarrow> bool \<Rightarrow> (ss, int) state" where
  "file_open E p create = do {
     r \<leftarrow> call E (FS (Open p));
     there \<leftarrow> getv (\<lambda>s. files s p \<noteq> None);
     if r = -1 \<or> \<not> there \<and> \<not> create then return (-1)
     else do {
       (if there then return () else upd (\<lambda>s. s\<lparr>files := (files s)(p \<mapsto> [])\<rparr>));
       return r
     }
   }"

definition content :: "ss \<Rightarrow> string \<Rightarrow> string" where
  "content s p = (case files s p of None \<Rightarrow> [] | Some t \<Rightarrow> t)"

definition file_read :: "env \<Rightarrow> int \<Rightarrow> string \<Rightarrow> nat \<Rightarrow> (ss, string option) state" where
  "file_read E fd p n = do {
     r \<leftarrow> call E (FS (Read fd));
     txt \<leftarrow> getv (\<lambda>s. content s p);
     return (if r < 0 then None else Some (take n txt))
   }"

definition file_write :: "env \<Rightarrow> int \<Rightarrow> string \<Rightarrow> string \<Rightarrow> (ss, int) state" where
  "file_write E fd p txt = do {
     r \<leftarrow> call E (FS (Write fd txt));
     if r = -1 then return (-1)
     else do {
       upd (\<lambda>s. s\<lparr>files := (files s)(p \<mapsto> txt @ drop (length txt) (content s p))\<rparr>);
       return (int (length txt))
     }
   }"

definition file_unlink :: "env \<Rightarrow> string \<Rightarrow> (ss, int) state" where
  "file_unlink E p = do {
     r \<leftarrow> call E (FS (Unlink p));
     (if r = 0 then upd (\<lambda>s. s\<lparr>files := (files s)(p := None)\<rparr>) else return ());
     return r
   }"

section \<open>Frames\<close>

lemma frames_file [frames]:
  "frame queue_part (file_open E p b)" "frame queue_part (file_read E fd p n)"
  "frame queue_part (file_write E fd p t)" "frame queue_part (file_unlink E p)"
  by (simp_all add: frame_def file_open_def file_read_def file_write_def file_unlink_def)

lemma stops_file [stops]:
  "obeys_halt (file_open E p b)" "obeys_halt (file_read E fd p n)"
  "obeys_halt (file_write E fd p t)" "obeys_halt (file_unlink E p)"
  unfolding file_open_def file_read_def file_write_def file_unlink_def by (intro stops)+

end
