(* ===== verification/SS_Pmon.thy ===== *)
theory SS_Pmon
  imports SS_Launch SS_Files
begin

text \<open>
  \<open>ss_pmon_handler.c\<close>: relaunching permanent processes.  The record of such a process is
  the file named after its pid in \<open>PMON_PERMANENT_DIR\<close> and holds its command line, the
  arguments separated by NUL bytes; these files are part of \<open>files\<close>.
\<close>

section \<open>The command line of a dead process\<close>

definition PMON_PERMANENT_DIR :: string where "PMON_PERMANENT_DIR = ''/tmp/permanent''"

definition permanent_path :: "int \<Rightarrow> string" where
  "permanent_path pid = PMON_PERMANENT_DIR @ ''/'' @ show_int pid"

text \<open>The first \<open>n\<close> bytes, where \<open>n\<close> is the argument \<open>size\<close>.\<close>

definition replace_char :: "nat \<Rightarrow> string \<Rightarrow> string" where
  "replace_char n t = map (\<lambda>c. if c = CHR 0x00 then CHR '' '' else c) (take n t) @ drop n t"

text \<open>The buffer is zeroed first, and the result of the read is not looked at.\<close>

definition pmon_get_permanent_pname :: "env \<Rightarrow> int \<Rightarrow> (ss, string option) state" where
  "pmon_get_permanent_pname E pid = do {
     fd \<leftarrow> file_open E (permanent_path pid) False;
     if fd = -1 then return None
     else do {
       st \<leftarrow> call E (FS (Fstat fd));
       if st < 0 then return None
       else do {
         st_size \<leftarrow> getv (\<lambda>s. length (content s (permanent_path pid)));
         cmdline \<leftarrow> call E (OS (Malloc (int st_size + 1)));
         if cmdline = 0 then return None
         else do {
           data \<leftarrow> file_read E fd (permanent_path pid) st_size;
           call E (FS (Close fd));
           return (Some (c_string (replace_char (st_size - 1)
             (case data of None \<Rightarrow> replicate st_size (CHR 0x00) | Some t \<Rightarrow> t))))
         }
       }
     }
   }"

section \<open>Handing the record over to the new process\<close>

text \<open>
  \<open>cnt\<close> is unsigned: the test \<open>cnt <= 0\<close> catches an empty file and not a failed read,
  after which the write asks for more than \<open>SSIZE_MAX\<close> bytes and fails.
\<close>

definition copy_record :: "env \<Rightarrow> int \<Rightarrow> int \<Rightarrow> (ss, bool) state" where
  "copy_record E pid new_pid = do {
     fd \<leftarrow> file_open E (permanent_path pid) False;
     if fd = -1 then return False
     else do {
       buf \<leftarrow> file_read E fd (permanent_path pid) PATH_MAX;
       call E (FS (Close fd));
       if buf = Some [] then return False
       else do {
         fd2 \<leftarrow> file_open E (permanent_path new_pid) True;
         if fd2 = -1 then return False
         else do {
           w \<leftarrow> (case buf of
               Some t \<Rightarrow> file_write E fd2 (permanent_path new_pid) t
             | None \<Rightarrow> do { call E (FS (Write fd2 [])); return (-1) });
           call E (FS (Close fd2));
           return (w \<noteq> -1)
         }
       }
     }
   }"

definition make_permanent_dir :: "env \<Rightarrow> (ss, unit) state" where
  "make_permanent_dir E = do {
     acc \<leftarrow> call E (FS (Access PMON_PERMANENT_DIR));
     if acc < 0 then do { call E (FS (Mkdir PMON_PERMANENT_DIR 511)); return () } else return ()
   }"

definition adopt_process :: "env \<Rightarrow> int \<Rightarrow> int \<Rightarrow> (ss, int) state" where
  "adopt_process E pid new_pid = do {
     make_permanent_dir E;
     copied \<leftarrow> copy_record E pid new_pid;
     if \<not> copied then return (-1)
     else do {
       call E (OEM (Put OEM_process_monitor_mp_pnp new_pid));
       ok \<leftarrow> fopen E (oom_adj_path new_pid) Wr;
       if \<not> ok then return (-1)
       else do {
         fprintf E (oom_adj_path new_pid) (show_int (-17));
         file_unlink E (permanent_path pid);
         return 0
       }
     }
   }"

definition pmon_process :: "env \<Rightarrow> int \<Rightarrow> (ss, int) state" where
  "pmon_process E pid = do {
     vip \<leftarrow> call E (SYSMAN (Is_vip pid));
     if vip \<noteq> 0 then return 0
     else do {
       acc \<leftarrow> call E (FS (Access ''/tmp/.hibernation_start''));
       if acc = 0 then return 0
       else do {
         cmdline \<leftarrow> pmon_get_permanent_pname E pid;
         case cmdline of
           None \<Rightarrow> return 0
         | Some c \<Rightarrow> do {
             new_pid \<leftarrow> ss_launch_evenif_exist E (Some c) (Some []);
             if new_pid > 0 then adopt_process E pid new_pid else return 0
           }
       }
     }
   }"

definition pmon_cb :: "env \<Rightarrow> (ss, int) state" where
  "pmon_cb E = do {
     active \<leftarrow> call E (ECORE Fd_handler_active);
     if active = 0 then return 1
     else do {
       fd \<leftarrow> getv (\<lambda>s. pmon_fd (dev s));
       junk \<leftarrow> get_junk E;
       (r, dead_pid) \<leftarrow> call_out E (FS (Read fd)) junk;
       if r < 0 then return 1
       else do { pmon_process E dead_pid; return 1 }
     }
   }"

definition ss_pmon_init :: "env \<Rightarrow> (ss, int) state" where
  "ss_pmon_init E = do {
     node \<leftarrow> peek_str E (OEM (Get OEM_process_monitor_node));
     r \<leftarrow> call E (OEM (Get OEM_process_monitor_node));
     if 0 > r then return (-1)
     else do {
       fd \<leftarrow> call E (FS (Open (str_or_empty node)));
       set_dev (\<lambda>d. d\<lparr>pmon_fd := fd\<rparr>);
       if fd < 0 then return (-1)
       else do { call E (ECORE (Fd_handler_add fd)); return 0 }
     }
   }"

section \<open>Frames\<close>

lemmas pmon_defs = pmon_cb_def pmon_process_def adopt_process_def make_permanent_dir_def copy_record_def
  pmon_get_permanent_pname_def

lemma frames_pmon [frames]: "frame queue_part (pmon_cb E)" "frame queue_part (ss_pmon_init E)"
  unfolding pmon_defs ss_pmon_init_def by (intro frames)+

lemma stops_pmon [stops]: "obeys_halt (pmon_cb E)" "obeys_halt (ss_pmon_init E)"
  unfolding pmon_defs ss_pmon_init_def by (intro stops)+

context callback_safe
begin

lemma pres_pmon [presI]: "pres I (pmon_cb E)" "pres I (ss_pmon_init E)"
  by (intro pres_light frames stops)+

end

section \<open>The command line is relaunched as it was\<close>

text \<open>The record the kernel's command line leaves: each argument with a NUL behind it.\<close>

definition record_of :: "string list \<Rightarrow> string" where
  "record_of args = concat (map (\<lambda>a. a @ [CHR 0x00]) args)"

definition plain_arg :: "string \<Rightarrow> bool" where
  "plain_arg a \<longleftrightarrow> a \<noteq> [] \<and> CHR '' '' \<notin> set a \<and> CHR 0x00 \<notin> set a \<and> (\<forall>c \<in> set a. plain_char c)"

definition spaced :: "string list \<Rightarrow> string" where
  "spaced args = concat (map (\<lambda>a. a @ [CHR '' '']) args)"

lemma map_spaces:
  "list_all plain_arg args \<Longrightarrow> map (\<lambda>c. if c = CHR 0x00 then CHR '' '' else c) (record_of args) = spaced args"
proof (induction args)
  case Nil
  then show ?case by (simp add: record_of_def spaced_def)
next
  case (Cons a args)
  then have "map (\<lambda>c. if c = CHR 0x00 then CHR '' '' else c) a = a"
    by (intro map_idI) (auto simp: plain_arg_def)
  with Cons show ?case by (simp add: record_of_def spaced_def)
qed

lemma spaced_plain: "list_all plain_arg args \<Longrightarrow> \<forall>c \<in> set (spaced args). plain_char c"
proof -
  have "plain_char (CHR '' '')" by (simp add: plain_char_def)
  then show "list_all plain_arg args \<Longrightarrow> \<forall>c \<in> set (spaced args). plain_char c"
    by (induction args) (auto simp: spaced_def plain_arg_def)
qed

lemma fields_spaced: "list_all plain_arg args \<Longrightarrow> SS_Launch.fields [] (spaced args) = args"
proof (induction args)
  case Nil
  then show ?case by (simp add: spaced_def)
next
  case (Cons a args)
  then have "SS_Launch.fields [] (spaced (a # args)) = SS_Launch.fields a (CHR '' '' # spaced args)"
    using fields_no_space [of a "[]" "CHR '' '' # spaced args"] by (simp add: spaced_def plain_arg_def)
  also have "\<dots> = a # args" using Cons by simp
  finally show ?case .
qed

text \<open>The last NUL stays and ends the string; the launcher adds the last space.\<close>

lemma relaunch_command:
  assumes "list_all plain_arg args" "args \<noteq> []"
  shows "c_string (replace_char (length (record_of args) - 1) (record_of args)) @ '' '' = spaced args"
proof -
  obtain r where r: "record_of args = r @ [CHR 0x00]"
    using assms(2) by (cases args rule: rev_cases) (simp_all add: record_of_def)
  obtain t where t: "spaced args = t @ '' ''"
    using assms(2) by (cases args rule: rev_cases) (simp_all add: spaced_def)
  have m: "map (\<lambda>c. if c = CHR 0x00 then CHR '' '' else c) r = t"
    using map_spaces [OF assms(1)] by (simp add: r t)
  have "CHR 0x00 \<notin> set (map (\<lambda>c. if c = CHR 0x00 then CHR '' '' else c) r)" by auto
  then have "CHR 0x00 \<notin> set t" by (simp add: m)
  then have "takeWhile (\<lambda>c. c \<noteq> CHR 0x00) (t @ [CHR 0x00]) = t @ takeWhile (\<lambda>c. c \<noteq> CHR 0x00) [CHR 0x00]"
    by (intro takeWhile_append2) auto
  then show ?thesis by (simp add: r t replace_char_def c_string_def m)
qed


section \<open>The parent of a launch leaves the files alone\<close>

lemma launch_file_parent:
  "0 < fst (result (launch_app_with_nice E f args None nc) s) \<Longrightarrow>
     files (exec (launch_app_with_nice E f args None nc) s) = files s"
  by (cases f) (auto simp: launch_app_with_nice_def launch_app_child_def split: if_splits)

lemma launch_cmd_files:
  assumes "0 < result (launch_app_cmd_with_nice E c nc) s"
  shows "files (exec (launch_app_cmd_with_nice E c nc) s) = files s"
proof -
  have p: "files (exec (parse_cmd E c n) s) = files s" for n
    by (simp add: parse_cmd_def Let_def split: option.split)
  show ?thesis
    using assms launch_file_parent p
    by (auto simp: launch_app_cmd_with_nice_def split: prod.splits if_splits)
qed

lemma launch_evenif_files:
  assumes "0 < result (ss_launch_evenif_exist E p a) s"
  shows "files (exec (ss_launch_evenif_exist E p a) s) = files s"
proof (cases p)
  case None
  then show ?thesis by (simp add: ss_launch_evenif_exist_def)
next
  case (Some path)
  have l: "files (exec (ss_set_current_lang E) s) = files s"
    by (simp add: ss_set_current_lang_def split: option.split)
  show ?thesis
    using assms Some l launch_cmd_files
    by (auto simp: ss_launch_evenif_exist_def launch_tail_def read_nice_flag_def split: if_splits)
qed

section \<open>Handing over in a working file system\<close>

definition files_work :: "env \<Rightarrow> bool" where
  "files_work E \<longleftrightarrow> malloc_ok E \<and> (\<forall>h p. e_ret E h (FS (Open p)) \<noteq> -1) \<and>
     (\<forall>h fd. 0 \<le> e_ret E h (FS (Fstat fd)) \<and> 0 \<le> e_ret E h (FS (Read fd))) \<and>
     (\<forall>h fd t. e_ret E h (FS (Write fd t)) \<noteq> -1) \<and> (\<forall>h p. e_ret E h (FS (Unlink p)) = 0) \<and>
     (\<forall>h p m. e_ret E h (FS (Fopen p m)) \<noteq> 0) \<and> (\<forall>h p t. e_write E h p t)"

lemma files_workD:
  assumes "files_work E"
  shows "e_ret E h (OS (Malloc n)) \<noteq> 0" "e_ret E h (FS (Open p)) \<noteq> -1" "0 \<le> e_ret E h (FS (Fstat fd))"
    "\<not> e_ret E h (FS (Read fd)) < 0" "e_ret E h (FS (Write fd t)) \<noteq> -1" "e_ret E h (FS (Unlink p)) = 0"
    "e_ret E h (FS (Fopen p m)) \<noteq> 0" "e_write E h p t"
  using assms by (simp_all add: files_work_def malloc_okD not_less)

lemma pname_works:
  assumes "files_work E" "alive s" "files s (permanent_path pid) = Some txt"
  shows "result (pmon_get_permanent_pname E pid) s = Some (c_string (replace_char (length txt - 1) txt))"
    "alive (exec (pmon_get_permanent_pname E pid) s)" "files (exec (pmon_get_permanent_pname E pid) s) = files s"
  using assms(2,3) files_workD [OF assms(1)]
  by (simp_all add: pmon_get_permanent_pname_def file_open_def file_read_def content_def not_less [symmetric])

lemma permanent_path_inj:
  "permanent_path p = permanent_path q \<Longrightarrow> is_int32 p \<Longrightarrow> is_int32 q \<Longrightarrow> p = q"
  using show_int_inj by (simp add: permanent_path_def)

lemma copy_record_works:
  assumes "files_work E" "alive s" "files s (permanent_path pid) = Some txt" "txt \<noteq> []" "length txt \<le> PATH_MAX"
    and "files s (permanent_path new) = None"
  shows "result (copy_record E pid new) s" "alive (exec (copy_record E pid new) s)"
    "files (exec (copy_record E pid new) s) = (files s)(permanent_path new \<mapsto> txt)"
  using assms(2-6) files_workD [OF assms(1)]
  by (simp_all add: copy_record_def file_open_def file_read_def file_write_def content_def PATH_MAX_def)

lemma permanent_not_proc: "permanent_path p \<noteq> oom_adj_path q"
  by (simp add: permanent_path_def PMON_PERMANENT_DIR_def oom_adj_path_def)

lemma adopt_works:
  assumes "files_work E" "alive s" "files s (permanent_path pid) = Some txt" "txt \<noteq> []" "length txt \<le> PATH_MAX"
    and "files s (permanent_path new) = None" "files s (oom_adj_path new) \<noteq> None"
  shows "result (adopt_process E pid new) s = 0"
    "files (exec (adopt_process E pid new) s) =
      (files s)(permanent_path new \<mapsto> txt, oom_adj_path new \<mapsto> show_int (-17), permanent_path pid := None)"
proof -
  define s1 where "s1 = exec (make_permanent_dir E) s"
  have s1: "alive s1" "files s1 = files s" using assms(2) by (simp_all add: s1_def make_permanent_dir_def)
  define s2 where "s2 = exec (copy_record E pid new) s1"
  have cp: "result (copy_record E pid new) s1" "alive s2" "files s2 = (files s)(permanent_path new \<mapsto> txt)"
    using copy_record_works [OF assms(1) s1(1), of pid "txt" new] assms(3-6) s1(2) by (simp_all add: s2_def)
  have there: "files s2 (oom_adj_path new) \<noteq> None"
    using cp(3) assms(7) permanent_not_proc by (simp add: fun_upd_def)
  have body: "exec (adopt_process E pid new) s = exec (file_unlink E (permanent_path pid))
      (exec (fprintf E (oom_adj_path new) (show_int (-17))) (exec (fopen E (oom_adj_path new) Wr)
        (log_call (OEM (Put OEM_process_monitor_mp_pnp new)) s2)))"
    "result (adopt_process E pid new) s = 0"
    using cp there files_workD [OF assms(1)]
    by (simp_all add: adopt_process_def s1_def [symmetric] s2_def [symmetric] fopen_def)
  show "result (adopt_process E pid new) s = 0" by (rule body(2))
  show "files (exec (adopt_process E pid new) s) =
      (files s)(permanent_path new \<mapsto> txt, oom_adj_path new \<mapsto> show_int (-17), permanent_path pid := None)"
    using cp there files_workD [OF assms(1)]
    by (simp add: body(1) fopen_def fopen_effect_def fprintf_def file_unlink_def)
qed


section \<open>Properties\<close>

definition pmon_env :: env where
  "pmon_env = env1\<lparr>e_ret := (\<lambda>h c. case c of
       FS (Access p) \<Rightarrow> if p = ''/sbin/x'' then 0 else -1 | FS (Unlink p) \<Rightarrow> 0
     | SYSMAN (Is_vip p) \<Rightarrow> 0 | OS Fork \<Rightarrow> 30 | _ \<Rightarrow> 1)\<rparr>"

definition pmon_state :: ss where
  "pmon_state = boot\<lparr>files := (\<lambda>_. None)(permanent_path 7 \<mapsto> record_of [''/sbin/x''], oom_adj_path 30 \<mapsto> ''0'')\<rparr>"

lemma pmon_env_ok: "files_work pmon_env" "alive pmon_state"
  "files pmon_state (permanent_path 7) = Some (record_of [''/sbin/x''])"
  "plain_arg ''/sbin/x''"
  using permanent_not_proc
  by (auto simp: pmon_env_def pmon_state_def files_work_def malloc_ok_def plain_arg_def plain_char_def)

text \<open>
  C38: The command line recorded for a permanent process is relaunched as it was: when the
  process dies, is not a VIP, no hibernation is under way and the record can be read, the
  child that the daemon forks executes the program with the whole argument
  vector of the dead process, for at most 255 arguments without spaces, quotes and
  backslashes; a record of more arguments makes the launcher write behind its array.
\<close>

theorem relaunch_same_arguments:
  fixes E pid s args
  assumes "files_work E" "alive s" "files s (permanent_path pid) = Some (record_of (path # args))"
    and "list_all plain_arg (path # args)" "child_runs E path"
    and "\<And>h. e_ret E h (SYSMAN (Is_vip pid)) = 0" "\<And>h. e_ret E h (FS (Access ''/tmp/.hibernation_start'')) \<noteq> 0"
  defines "t \<equiv> exec (pmon_process E pid) s"
  shows "if length (path # args) \<le> MAX_ARGS
    then halted t = Some Execed \<and> hd (trace t) = OS (Execvp path (path # args))
    else halted t = Some OutOfBounds"
proof -
  let ?r = "record_of (path # args)"
  define c where "c = c_string (replace_char (length ?r - 1) ?r)"
  define s1 where "s1 = log_call (FS (Access ''/tmp/.hibernation_start'')) (log_call (SYSMAN (Is_vip pid)) s)"
  define s2 where "s2 = exec (pmon_get_permanent_pname E pid) s1"
  define u where "u = exec (ss_launch_evenif_exist E (Some c) (Some [])) s2"
  have s1: "alive s1" "files s1 = files s" using assms(2) by (simp_all add: s1_def)
  have s2: "result (pmon_get_permanent_pname E pid) s1 = Some c" "alive s2"
    using pname_works [OF assms(1) s1(1), of pid ?r] assms(3) s1(2) by (simp_all add: c_def s2_def)
  have "all_args (c @ '' '' @ str_or_empty (Some [])) = path # args"
    using relaunch_command [OF assms(4)] all_args_plain [OF spaced_plain [OF assms(4)]] fields_spaced [OF assms(4)]
    by (simp add: c_def str_or_empty_def)
  note u = launch_evenif_child [OF s2(2) this assms(5), folded u_def]
  then have dead: "\<not> alive u" by (metis alive_def option.distinct(1))
  have adopt: "obeys_halt (adopt_process E pid n)" for n
    unfolding pmon_defs by (intro stops)
  have "t = u"
    using assms(2,6,7) s2(1) obeys_haltD [OF adopt dead]
    by (simp add: t_def pmon_process_def s1_def [symmetric] s2_def [symmetric] u_def [symmetric])
  then show ?thesis using u by (simp add: Suc_le_eq)
qed

text \<open>The same device, in the child.\<close>

definition pmon_child_env :: env where
  "pmon_child_env = pmon_env\<lparr>e_ret := (\<lambda>h c. if c = OS Fork then 0 else e_ret pmon_env h c)\<rparr>"

lemma relaunch_same_arguments_witness:
  "hd (trace (exec (pmon_process pmon_child_env 7) pmon_state)) = OS (Execvp ''/sbin/x'' [''/sbin/x''])"
proof -
  have e: "e_ret pmon_child_env h c = (if c = OS Fork then 0 else e_ret pmon_env h c)"
    "e_write pmon_child_env = e_write pmon_env" for h c
    by (simp_all add: pmon_child_env_def)
  have w: "files_work pmon_child_env" using pmon_env_ok(1) by (simp add: files_work_def malloc_ok_def e)
  have c: "child_runs pmon_child_env ''/sbin/x''"
    using files_workD(1) [OF w] by (simp add: child_runs_def malloc_ok_def e) (simp add: pmon_env_def)
  show ?thesis
    using relaunch_same_arguments [OF w pmon_env_ok(2), of 7 "''/sbin/x''" "[]"] pmon_env_ok(3,4) c
    by (simp add: e MAX_ARGS_def) (simp add: pmon_env_def)
qed

text \<open>
  When a permanent process that is not a VIP dies and its program can be started
  again, the daemon answers 0, the record of the dead process becomes the record of the new
  one, the new one gets the superuser score, and no other file changes.
\<close>

theorem relaunch_moves_record:
  fixes contents :: string
  assumes "files_work E" "alive s" "files s (permanent_path pid) = Some contents"
    and "contents \<noteq> []" "length contents \<le> PATH_MAX"
    and "files s (permanent_path new) = None" "files s (oom_adj_path new) \<noteq> None"
    and "\<And>h. e_ret E h (SYSMAN (Is_vip pid)) = 0" "\<And>h. e_ret E h (FS (Access ''/tmp/.hibernation_start'')) \<noteq> 0"
  defines "cmd \<equiv> c_string (replace_char (length contents - 1) contents)"
  assumes "\<And>u. alive u \<Longrightarrow> result (ss_launch_evenif_exist E (Some cmd) (Some [])) u = new \<and>
      alive (exec (ss_launch_evenif_exist E (Some cmd) (Some [])) u)" "0 < new"
  shows "result (pmon_process E pid) s = 0 \<and>
    files (exec (pmon_process E pid) s) = (files s)(permanent_path new \<mapsto> contents,
      oom_adj_path new \<mapsto> show_int (-17), permanent_path pid := None)"
proof -
  define s1 where "s1 = log_call (FS (Access ''/tmp/.hibernation_start'')) (log_call (SYSMAN (Is_vip pid)) s)"
  have s1: "alive s1" "files s1 = files s" using assms(2) by (simp_all add: s1_def)
  define s2 where "s2 = exec (pmon_get_permanent_pname E pid) s1"
  have s2: "result (pmon_get_permanent_pname E pid) s1 = Some cmd" "alive s2" "files s2 = files s"
    using pname_works [OF assms(1) s1(1), of pid contents] assms(3) s1(2) by (simp_all add: cmd_def s2_def)
  define s3 where "s3 = exec (ss_launch_evenif_exist E (Some cmd) (Some [])) s2"
  have s3: "result (ss_launch_evenif_exist E (Some cmd) (Some [])) s2 = new" "alive s3" "files s3 = files s"
    using assms(11) [OF s2(2)] launch_evenif_files [of E "Some cmd" "Some []" s2] assms(12) s2(3) by (simp_all add: s3_def)
  have "exec (pmon_process E pid) s = exec (adopt_process E pid new) s3"
    "result (pmon_process E pid) s = result (adopt_process E pid new) s3"
    using assms(8,9,12) s2(1) s3(1)
    by (simp_all add: pmon_process_def s1_def [symmetric] s2_def [symmetric] s3_def [symmetric])
  then show ?thesis
    using adopt_works [OF assms(1) s3(2), of pid contents new] assms(3-7) s3(3) by simp
qed

lemma relaunch_moves_record_witness:
  "files (exec (pmon_process pmon_env 7) pmon_state) (permanent_path 30) = Some (record_of [''/sbin/x''])"
proof -
  have i: "is_int32 7" "is_int32 30" by (simp_all add: is_int32_def INT_MAX_def INT_MIN_def)
  have p: "permanent_path 30 \<noteq> permanent_path 7" using permanent_path_inj [OF _ i(2,1)] by auto
  have cmd: "c_string (replace_char (length (record_of [''/sbin/x'']) - 1) (record_of [''/sbin/x''])) = ''/sbin/x''"
    by code_simp
  have plain: "\<forall>c \<in> set ''/sbin/x''. plain_char c" using pmon_env_ok(4) by (simp add: plain_arg_def)
  have "can_launch pmon_env ''/sbin/x'' 30" by (simp add: can_launch_def pmon_env_def)
  then have l: "alive u \<Longrightarrow> result (ss_launch_evenif_exist pmon_env (Some ''/sbin/x'') (Some [])) u = 30 \<and>
      alive (exec (ss_launch_evenif_exist pmon_env (Some ''/sbin/x'') (Some [])) u)" for u
    using launch_evenif_parent [of u pmon_env "''/sbin/x''" 30 "Some []"] plain by (simp add: str_or_empty_def)
  have f: "files pmon_state (permanent_path 30) = None" "files pmon_state (oom_adj_path 30) = Some ''0''"
    using p permanent_not_proc by (auto simp: pmon_state_def)
  have "files (exec (pmon_process pmon_env 7) pmon_state) =
      (files pmon_state)(permanent_path 30 \<mapsto> record_of [''/sbin/x''],
      oom_adj_path 30 \<mapsto> show_int (-17), permanent_path 7 := None)"
  proof (rule conjunct2 [OF relaunch_moves_record [OF pmon_env_ok(1-3), where new = 30]])
    show "record_of [''/sbin/x''] \<noteq> []" "length (record_of [''/sbin/x'']) \<le> PATH_MAX"
      by (simp_all add: record_of_def PATH_MAX_def)
    show "e_ret pmon_env h (SYSMAN (Is_vip 7)) = 0" "e_ret pmon_env h (FS (Access ''/tmp/.hibernation_start'')) \<noteq> 0" for h
      by (simp_all add: pmon_env_def)
    show "result (ss_launch_evenif_exist pmon_env (Some (c_string (replace_char
        (length (record_of [''/sbin/x'']) - 1) (record_of [''/sbin/x''])))) (Some [])) u = 30 \<and>
      alive (exec (ss_launch_evenif_exist pmon_env (Some (c_string (replace_char
        (length (record_of [''/sbin/x'']) - 1) (record_of [''/sbin/x''])))) (Some [])) u)" if "alive u" for u
      unfolding cmd by (rule l [OF that])
  qed (use f in simp_all)
  then show ?thesis using p permanent_not_proc by simp
qed

end
