(* ===== verification/SS_Bs.thy ===== *)
theory SS_Bs
  imports SS_Launch SS_Files
begin

text \<open>
  \<open>ss_bs.c\<close>: the file other processes append crash reports to, watched by ecore, and the
  crash worker that is started for each of its lines.  The line buffer is one array that
  lives through the whole loop, so what an earlier line left behind the end of a later one
  is part of the model.
\<close>

section \<open>The notification file\<close>

definition BSNOTI_DIR :: string where "BSNOTI_DIR = ''/opt/bs''"
definition BSNOTI_FILE :: string where "BSNOTI_FILE = ''curbs.log''"
definition BSNOTI_FULL_PATH :: string where "BSNOTI_FULL_PATH = BSNOTI_DIR @ ''/'' @ BSNOTI_FILE"
definition CRASH_WORKER_PATH :: string where
  "CRASH_WORKER_PATH = ''/usr/apps/org.tizen.crash-worker/bin/crash-worker''"

definition MAX_INPUT :: nat where "MAX_INPUT = 255"

definition make_noti_file :: "env \<Rightarrow> string \<Rightarrow> string \<Rightarrow> (ss, int) state" where
  "make_noti_file E path file = do {
     acc \<leftarrow> call E (FS (Access path));
     (if acc = -1 then do {
        call E (OS (System (''mkdir -p '' @ path)));
        call E (OS (System (''chown root:app '' @ path)));
        return ()
      } else return ());
     let buf = path @ ''/'' @ file;
     there \<leftarrow> call E (FS (Access buf));
     if there = 0 then return (-1)
     else do {
       fd \<leftarrow> file_open E buf True;
       call E (FS (Close fd));
       call E (OS (System (''chmod 666 '' @ path @ ''/'' @ file)));
       call E (OS (System (''chown root:app '' @ path @ ''/'' @ file)));
       return 0
     }
   }"

section \<open>One line\<close>

definition LINE_BUF :: nat where "LINE_BUF = NAME_MAX + MAX_INPUT"

text \<open>Writing a string at the start of the buffer leaves what lies behind its NUL.\<close>

definition set_buf :: "string \<Rightarrow> string \<Rightarrow> string" where
  "set_buf buf t = t @ CHR 0x00 # drop (Suc (length t)) buf"

fun index_of :: "char \<Rightarrow> string \<Rightarrow> nat option" where
  "index_of x [] = None"
| "index_of x (c # cs) = (if c = x then Some 0 else map_option Suc (index_of x cs))"

text \<open>
  What the body of the loop does with the buffer once \<open>fgets\<close> has stored \<open>chunk\<close> in it: it
  may look before the array, stop at a line without end, find no usable space, or start the
  worker with an argument; in the last two cases the buffer goes on.
\<close>

datatype line_result = Bad_index | Unterminated | No_launch string | Launch string string

definition parse_line :: "string \<Rightarrow> string \<Rightarrow> line_result" where
  "parse_line old chunk =
     (let args = set_buf old chunk; len = length (c_string args) in
      if len = 0 then Bad_index
      else if args ! (len - 1) \<noteq> CHR 0x0A then Unterminated
      else let args = args[len - 1 := CHR 0x00] in
        case index_of (CHR '' '') args of
          None \<Rightarrow> No_launch args
        | Some i \<Rightarrow>
            if i \<ge> NAME_MAX - 1 then No_launch args
            else let bsfile_name = c_string (take i args);
                     bs_color = c_string (take (MAX_INPUT - 1) (drop (i + 1) args));
                     new = bsfile_name @ '' '' @ bs_color in
              Launch new (set_buf args new))"

text \<open>The loop; the result is the last value of \<open>ret\<close>.\<close>

fun crash_lines :: "env \<Rightarrow> string \<Rightarrow> int \<Rightarrow> string list \<Rightarrow> (ss, int) state" where
  "crash_lines E buf ret [] = return ret"
| "crash_lines E buf ret (chunk # chunks) =
     (case parse_line buf chunk of
        Bad_index \<Rightarrow> do { halt OutOfBounds; return ret }
      | Unterminated \<Rightarrow> return ret
      | No_launch buf \<Rightarrow> if ret < 0 then return ret else crash_lines E buf ret chunks
      | Launch args buf \<Rightarrow> do {
          ret \<leftarrow> ss_launch_evenif_exist E (Some CRASH_WORKER_PATH) (Some args);
          if ret < 0 then return ret else crash_lines E buf ret chunks
        })"

lemma first_line_nonempty: "t \<noteq> [] \<Longrightarrow> first_line t \<noteq> []"
  by (cases t) simp_all

text \<open>What the calls of \<open>fgets\<close> store, one after the other.\<close>

function fgets_all :: "string \<Rightarrow> string list" where
  "fgets_all t =
     (if t = [] then []
      else let l = take (LINE_BUF - 1) (first_line t) in l # fgets_all (drop (length l) t))"
  by pat_completeness auto

termination
  by (relation "measure length")
    (auto simp: LINE_BUF_def NAME_MAX_def MAX_INPUT_def first_line_nonempty)

definition launch_crash_worker :: "env \<Rightarrow> string \<Rightarrow> (ss, unit) state" where
  "launch_crash_worker E path = do {
     ok \<leftarrow> fopen E path Rd;
     if \<not> ok then return ()
     else do {
       chunks \<leftarrow> getv (\<lambda>s. fgets_all (content s path));
       stack \<leftarrow> getv (\<lambda>s. e_stack E (trace s));
       ret \<leftarrow> crash_lines E (take LINE_BUF (stack @ replicate LINE_BUF (CHR 0x00))) (-1) chunks;
       if ret \<noteq> -1 then do { fopen E path Wr; return () } else return ()
     }
   }"

section \<open>The callback and the start\<close>

datatype file_event = ECORE_FILE_EVENT_DELETED_DIRECTORY | ECORE_FILE_EVENT_DELETED_SELF
  | ECORE_FILE_EVENT_MODIFIED | Other_event

fun bs_file_cb :: "env \<Rightarrow> file_event \<Rightarrow> string \<Rightarrow> (ss, unit) state" where
  "bs_file_cb E event path =
     (if event = ECORE_FILE_EVENT_DELETED_DIRECTORY \<or> event = ECORE_FILE_EVENT_DELETED_SELF then do {
        r \<leftarrow> make_noti_file E BSNOTI_DIR BSNOTI_FILE;
        if 0 > r then launch_crash_worker E path else return ()
      } else launch_crash_worker E path)"

definition ss_bs_init :: "env \<Rightarrow> (ss, int) state" where
  "ss_bs_init E = do {
     r \<leftarrow> make_noti_file E BSNOTI_DIR BSNOTI_FILE;
     (if 0 > r then launch_crash_worker E BSNOTI_FULL_PATH else return ());
     i \<leftarrow> call E (ECORE File_init);
     (if 0 = i then launch_crash_worker E BSNOTI_FULL_PATH else return ());
     m \<leftarrow> call E (ECORE (File_monitor_add BSNOTI_FULL_PATH));
     set_dev (\<lambda>d. d\<lparr>bs_file_monitor := m\<rparr>);
     if m = 0 then do { launch_crash_worker E BSNOTI_FULL_PATH; return (-1) } else return 0
   }"

section \<open>Frames\<close>

lemma crash_lines_rules:
  "frame queue_part (crash_lines E buf ret cs)" "obeys_halt (crash_lines E buf ret cs)"
proof -
  show "frame queue_part (crash_lines E buf ret cs)"
    by (induction cs arbitrary: buf ret) (auto intro!: frames split: line_result.split)
  show "obeys_halt (crash_lines E buf ret cs)"
    by (induction cs arbitrary: buf ret) (auto intro!: stops split: line_result.split)
qed

lemma crash_worker_rules:
  "frame queue_part (launch_crash_worker E p)" "obeys_halt (launch_crash_worker E p)"
  unfolding launch_crash_worker_def by (intro frames stops crash_lines_rules)+

context callback_safe
begin

lemma pres_bs [presI]: "pres I (bs_file_cb E ev p)" "pres I (ss_bs_init E)"
proof -
  have "pres I (launch_crash_worker E p)" for p
    by (intro pres_light crash_worker_rules)
  moreover have "pres I (make_noti_file E d f)" for d f
    unfolding make_noti_file_def by (intro pres_light frames stops)
  ultimately show "pres I (bs_file_cb E ev p)" "pres I (ss_bs_init E)"
    unfolding bs_file_cb.simps ss_bs_init_def by (intro presI; simp)+
qed

end

section \<open>A well-formed file\<close>

text \<open>A report is the name of a file and a colour; its line is the two with a space between.\<close>

type_synonym report = "string \<times> string"

fun report_ok :: "report \<Rightarrow> bool" where
  "report_ok (n, c) \<longleftrightarrow>
     list_all (\<lambda>x. x \<noteq> CHR '' '' \<and> x \<noteq> CHR 0x00 \<and> x \<noteq> CHR 0x0A) n \<and> length n < NAME_MAX - 1 \<and>
     list_all (\<lambda>x. x \<noteq> CHR 0x00 \<and> x \<noteq> CHR 0x0A) c \<and> length c < MAX_INPUT"

fun report_args :: "report \<Rightarrow> string" where
  "report_args (n, c) = n @ '' '' @ c"

definition report_line :: "report \<Rightarrow> string" where
  "report_line r = report_args r @ [CHR 0x0A]"

text \<open>The daemon as one would write it from scratch: start the worker for each report in turn,
  until a start fails, and empty the file if one has succeeded.\<close>

fun report_all :: "env \<Rightarrow> int \<Rightarrow> report list \<Rightarrow> (ss, int) state" where
  "report_all E ret [] = return ret"
| "report_all E ret (r # rs) = do {
     ret \<leftarrow> ss_launch_evenif_exist E (Some CRASH_WORKER_PATH) (Some (report_args r));
     if ret < 0 then return ret else report_all E ret rs
   }"

definition handle_reports :: "env \<Rightarrow> string \<Rightarrow> report list \<Rightarrow> (ss, unit) state" where
  "handle_reports E path rs = do {
     ok \<leftarrow> fopen E path Rd;
     if \<not> ok then return ()
     else do {
       ret \<leftarrow> report_all E (-1) rs;
       if ret \<noteq> -1 then do { fopen E path Wr; return () } else return ()
     }
   }"

declare fgets_all.simps [simp del]

lemma c_string_stop: "CHR 0x00 \<notin> set a \<Longrightarrow> c_string (a @ CHR 0x00 # b) = a"
  unfolding c_string_def by (induction a) auto

lemma c_string_id: "CHR 0x00 \<notin> set a \<Longrightarrow> c_string a = a"
  unfolding c_string_def by (induction a) auto

lemma index_of_first: "x \<notin> set a \<Longrightarrow> index_of x (a @ x # b) = Some (length a)"
  by (induction a) auto

lemma parse_line_cut:
  assumes "CHR '' '' \<notin> set n" "CHR 0x00 \<notin> set n" "length n < NAME_MAX - 1"
    and "CHR 0x00 \<notin> set (n @ '' '' @ c)"
    and "set_buf old chunk = n @ CHR '' '' # c @ [CHR 0x0A, CHR 0x00] @ rest"
  shows "parse_line old chunk = Launch (n @ '' '' @ take (MAX_INPUT - 1) c)
    (set_buf (n @ CHR '' '' # c @ [CHR 0x00, CHR 0x00] @ rest) (n @ '' '' @ take (MAX_INPUT - 1) c))"
proof -
  have len: "c_string (n @ CHR '' '' # c @ [CHR 0x0A, CHR 0x00] @ rest) = n @ CHR '' '' # c @ [CHR 0x0A]"
    using c_string_stop [of "n @ CHR '' '' # c @ [CHR 0x0A]" rest] assms(4) by simp
  have upd: "(n @ CHR '' '' # c @ [CHR 0x0A, CHR 0x00] @ rest)[Suc (length n + length c) := CHR 0x00] =
      n @ CHR '' '' # c @ [CHR 0x00, CHR 0x00] @ rest"
    by (simp add: list_update_append)
  have nth: "(n @ CHR '' '' # c @ [CHR 0x0A, CHR 0x00] @ rest) ! Suc (length n + length c) = CHR 0x0A"
    by (simp add: nth_append)
  have idx: "index_of (CHR '' '') (n @ CHR '' '' # c @ [CHR 0x00, CHR 0x00] @ rest) = Some (length n)"
    using assms(1) by (rule index_of_first)
  have col: "c_string (take (MAX_INPUT - 1) (c @ [CHR 0x00, CHR 0x00] @ rest)) = take (MAX_INPUT - 1) c"
  proof (cases "length c < MAX_INPUT - 1")
    case True
    then obtain k where "MAX_INPUT - 1 - length c = Suc k" by (cases "MAX_INPUT - 1 - length c") auto
    with True show ?thesis using c_string_stop [of c] assms(4) by simp
  next
    case False
    then show ?thesis using c_string_id [of "take (MAX_INPUT - 1) c"] assms(4) by (auto dest: in_set_takeD)
  qed
  show ?thesis
    unfolding parse_line_def assms(5) Let_def len
    using assms(3) by (simp add: nth [simplified] upd [simplified] idx [simplified] col [simplified]
        c_string_id [OF assms(2)])
qed

lemma parse_report_line:
  assumes "report_ok (n, c)"
  shows "\<exists>rest. parse_line old (report_line (n, c)) =
    Launch (report_args (n, c)) (n @ CHR '' '' # c @ [CHR 0x00, CHR 0x00] @ rest)"
proof -
  let ?rest = "drop (Suc (length (report_line (n, c)))) old"
  have s: "set_buf old (report_line (n, c)) = n @ CHR '' '' # c @ [CHR 0x0A, CHR 0x00] @ ?rest"
    by (simp add: set_buf_def report_line_def)
  have "CHR '' '' \<notin> set n" "CHR 0x00 \<notin> set n" "length n < NAME_MAX - 1" "CHR 0x00 \<notin> set (n @ '' '' @ c)"
    using assms by (auto simp: list_all_iff)
  from parse_line_cut [OF this s] have "parse_line old (report_line (n, c)) = Launch (n @ '' '' @ take (MAX_INPUT - 1) c)
      (set_buf (n @ CHR '' '' # c @ [CHR 0x00, CHR 0x00] @ ?rest) (n @ '' '' @ take (MAX_INPUT - 1) c))" .
  moreover have "take (MAX_INPUT - 1) c = c" using assms by (simp add: MAX_INPUT_def)
  ultimately show ?thesis by (auto simp: set_buf_def)
qed

lemma crash_lines_reports:
  "list_all report_ok rs \<Longrightarrow> crash_lines E buf ret (map report_line rs) = report_all E ret rs"
proof (induction rs arbitrary: buf ret)
  case Nil
  then show ?case by simp
next
  case (Cons r rs)
  from Cons.prems obtain b where b: "parse_line buf (report_line r) = Launch (report_args r) b"
    using parse_report_line by (cases r) fastforce
  have "(\<lambda>ret. if ret < 0 then return ret else crash_lines E b ret (map report_line rs)) =
      (\<lambda>ret. if ret < 0 then return ret else report_all E ret rs)"
    using Cons by (intro ext) simp
  then show ?case by (simp add: b)
qed

lemma first_line_stop: "CHR 0x0A \<notin> set a \<Longrightarrow> first_line (a @ CHR 0x0A # b) = a @ [CHR 0x0A]"
  by (induction a) auto

lemma fgets_reports:
  "list_all report_ok rs \<Longrightarrow> fgets_all (concat (map report_line rs)) = map report_line rs"
proof (induction rs)
  case Nil
  show ?case by (simp add: fgets_all.simps [of "[]"])
next
  case (Cons r rs)
  obtain n c where r: "r = (n, c)" by (cases r)
  have ok: "report_ok (n, c)" using Cons.prems by (simp add: r)
  then have "CHR 0x0A \<notin> set n" "CHR 0x0A \<notin> set c" by (auto simp: list_all_iff)
  then have "CHR 0x0A \<notin> set (report_args r)" by (simp add: r)
  then have first: "first_line (concat (map report_line (r # rs))) = report_line r"
    using first_line_stop [of "report_args r"] by (simp add: report_line_def)
  have len: "length (report_line r) \<le> LINE_BUF - 1"
    using ok by (simp add: r report_line_def LINE_BUF_def NAME_MAX_def MAX_INPUT_def)
  have ne: "concat (map report_line (r # rs)) \<noteq> []" by (simp add: report_line_def)
  have "fgets_all (concat (map report_line (r # rs))) = report_line r # fgets_all (concat (map report_line rs))"
    unfolding fgets_all.simps [of "concat (map report_line (r # rs))"] first Let_def
    using ne len by simp
  then show ?case using Cons by simp
qed

lemma fopen_read_content: "content (exec (fopen E p Rd) s) q = content s q"
  using frame_fopen_files [THEN frameD] by (simp add: content_def)

section \<open>Properties\<close>

text \<open>
  C23: For a file of well-formed lines (a name without spaces of at most 253 characters, a
  space, a colour of at most 254) the loop over a reused line buffer does exactly what the
  description of the feature says: the crash worker is started once for each report, in the
  order of the file, with the name and the colour as its arguments, until a start fails; the
  file is emptied when the last start has succeeded, and kept when it has failed.
\<close>

theorem crash_reports_handled:
  assumes "content s path = concat (map report_line rs)" "list_all report_ok rs"
  shows "exec (launch_crash_worker E path) s = exec (handle_reports E path rs) s"
  using assms fgets_reports [OF assms(2)]
  by (simp add: launch_crash_worker_def handle_reports_def fopen_read_content crash_lines_reports)

lemma crash_reports_handled_witness:
  "\<forall>E s. exec (launch_crash_worker E ''/log'') (s\<lparr>files := [''/log'' \<mapsto> ''a red'' @ [CHR 0x0A] @ ''b blue'' @ [CHR 0x0A]]\<rparr>)
    = exec (handle_reports E ''/log'' [(''a'', ''red''), (''b'', ''blue'')])
        (s\<lparr>files := [''/log'' \<mapsto> ''a red'' @ [CHR 0x0A] @ ''b blue'' @ [CHR 0x0A]]\<rparr>)"
  by (intro allI crash_reports_handled) (simp_all add: content_def report_line_def NAME_MAX_def MAX_INPUT_def)

lemma parse_shorter_line:
  assumes "report_ok (n, c)" "list_all (\<lambda>x. x \<noteq> CHR '' '' \<and> x \<noteq> CHR 0x00 \<and> x \<noteq> CHR 0x0A) x"
    and "length x + 2 \<le> length n"
  shows "\<exists>buf. parse_line (n @ CHR '' '' # c @ [CHR 0x00, CHR 0x00] @ rest) (x @ [CHR 0x0A]) =
    Launch (report_args (x, c)) buf"
proof -
  define m where "m = drop (length x + 2) n"
  have nul: "CHR 0x00 \<notin> set x" "CHR 0x00 \<notin> set c" using assms(1,2) by (auto simp: list_all_iff)
  have sp: "CHR '' '' \<notin> set (x @ [CHR 0x00, CHR 0x00] @ m)"
    using assms(1,2) by (auto simp: list_all_iff m_def dest: in_set_dropD)
  have len: "length (x @ [CHR 0x00, CHR 0x00] @ m) = length n"
    using assms(3) by (simp add: m_def)
  have buf: "set_buf (n @ CHR '' '' # c @ [CHR 0x00, CHR 0x00] @ rest) (x @ [CHR 0x0A]) =
      x @ [CHR 0x0A, CHR 0x00] @ m @ CHR '' '' # c @ [CHR 0x00, CHR 0x00] @ rest"
    using assms(3) by (simp add: set_buf_def m_def)
  have str: "c_string (x @ [CHR 0x0A, CHR 0x00] @ z) = x @ [CHR 0x0A]" for z
    using c_string_stop [of "x @ [CHR 0x0A]"] nul(1) by simp
  have upd: "(x @ [CHR 0x0A, CHR 0x00] @ z)[length x := CHR 0x00] = x @ [CHR 0x00, CHR 0x00] @ z" for z
    by (simp add: list_update_append)
  have idx: "index_of (CHR '' '') (x @ [CHR 0x00, CHR 0x00] @ m @ CHR '' '' # z) = Some (length n)" for z
    using index_of_first [OF sp] len by simp
  have name: "c_string (take (length n) (x @ [CHR 0x00, CHR 0x00] @ z)) = x" for z
  proof -
    obtain k where "length n = length x + 2 + k" using assms(3) le_Suc_ex by blast
    then have "take (length n) (x @ [CHR 0x00, CHR 0x00] @ z) = x @ CHR 0x00 # CHR 0x00 # take k z"
      by simp
    then show ?thesis using c_string_stop [OF nul(1)] by simp
  qed
  have col: "c_string (take (MAX_INPUT - 1) (c @ [CHR 0x00, CHR 0x00] @ rest)) = c"
  proof (cases "MAX_INPUT - 1 - length c")
    case 0
    then have "length c = MAX_INPUT - 1" using assms(1) by (simp add: MAX_INPUT_def)
    then show ?thesis using c_string_id [OF nul(2)] by simp
  next
    case (Suc k)
    then show ?thesis using c_string_stop [OF nul(2)] by simp
  qed
  have dr: "drop (Suc (length n)) (x @ [CHR 0x00, CHR 0x00] @ m @ CHR '' '' # z) = z" for z
  proof -
    have "drop (Suc (length p)) (p @ CHR '' '' # z) = z" for p by simp
    from this [of "x @ [CHR 0x00, CHR 0x00] @ m"] show ?thesis unfolding len by simp
  qed
  have "length n < NAME_MAX - 1" using assms(1) by simp
  then show ?thesis
    unfolding parse_line_def buf Let_def str
    by (simp add: upd [simplified] idx [simplified] name [simplified] dr [simplified] col [simplified])
qed

text \<open>
  The space that separates name and colour is looked for in the whole array and not only in
  the line just read.  A line without a space that is at least two characters shorter than the
  name in the line before it is therefore not skipped: the crash worker is started for
  it, with the colour of the line before.
\<close>

theorem line_without_colour_takes_the_last:
  assumes "report_ok (n, c)" "list_all (\<lambda>x. x \<noteq> CHR '' '' \<and> x \<noteq> CHR 0x00 \<and> x \<noteq> CHR 0x0A) x"
    and "length x + 2 \<le> length n"
  shows "crash_lines E buf ret [report_line (n, c), x @ [CHR 0x0A]] = report_all E ret [(n, c), (x, c)]"
proof -
  obtain rest where 1: "parse_line buf (report_line (n, c)) =
      Launch (report_args (n, c)) (n @ CHR '' '' # c @ [CHR 0x00, CHR 0x00] @ rest)"
    using parse_report_line [OF assms(1)] by blast
  obtain b where 2: "parse_line (n @ CHR '' '' # c @ [CHR 0x00, CHR 0x00] @ rest) (x @ [CHR 0x0A]) =
      Launch (report_args (x, c)) b"
    using parse_shorter_line [OF assms] by blast
  show ?thesis using 1 2 by (simp cong: if_cong)
qed

lemma line_without_colour_takes_the_last_witness:
  "\<forall>E. crash_lines E [] (-1) [''abc red'' @ [CHR 0x0A], ''d'' @ [CHR 0x0A]] =
    report_all E (-1) [(''abc'', ''red''), (''d'', ''red'')]"
  using line_without_colour_takes_the_last [of "''abc''" "''red''" "''d''" _ "[]" "-1"]
  by (simp add: report_line_def NAME_MAX_def MAX_INPUT_def)

end
