(* ===== verification/SS_Main.thy ===== *)
theory SS_Main
  imports SS_Cpu SS_Lowmem SS_UsbStorage SS_Device SS_Sysnoti SS_Timemgr SS_Pmon SS_Bs
begin

text \<open>
  \<open>ss_main.c\<close> and the composition of the components: the function a table entry points to,
  the start-up, and the main loop, in which ecore runs one callback at a time.
\<close>

section \<open>Calling the function of a table entry\<close>

text \<open>
  \<open>predefine_action(argc, argv)\<close>.  A function found in a shared object is a call into
  that object; it may use the daemon's interface only through later requests.
\<close>

fun run_action :: "env \<Rightarrow> action_runner" where
  "run_action E Fn_lowmem_def_predefine_action argc argv = lowmem_def_predefine_action E argc argv"
| "run_action E Fn_lowbat_def_predefine_action argc argv = lowbat_def_predefine_action E argc argv"
| "run_action E Fn_usbcon_def_predefine_action argc argv = usbcon_def_predefine_action E argc argv"
| "run_action E Fn_earjackcon_def_predefine_action argc argv = earjackcon_def_predefine_action E argc argv"
| "run_action E Fn_poweroff_def_predefine_action argc argv = poweroff_def_predefine_action E argc argv"
| "run_action E Fn_launching_predefine_action argc argv = launching_predefine_action E argc argv"
| "run_action E Fn_restart_def_predefine_action argc argv = restart_def_predefine_action E argc argv"
| "run_action E Fn_set_foregrd_action argc argv = set_foregrd_action E argc argv"
| "run_action E Fn_set_backgrd_action argc argv = set_backgrd_action E argc argv"
| "run_action E Fn_set_active_action argc argv = set_active_action E argc argv"
| "run_action E Fn_set_inactive_action argc argv = set_inactive_action E argc argv"
| "run_action E Fn_set_oomadj_action argc argv = set_oomadj_action E argc argv"
| "run_action E Fn_set_datetime_action argc argv = set_datetime_action E argc argv"
| "run_action E Fn_set_timezone_action argc argv = set_timezone_action E argc argv"
| "run_action E Fn_set_max_frequency_action argc argv = set_max_frequency_action E argc argv"
| "run_action E Fn_set_min_frequency_action argc argv = set_min_frequency_action E argc argv"
| "run_action E Fn_release_max_frequency_action argc argv = release_max_frequency_action E argc argv"
| "run_action E Fn_release_min_frequency_action argc argv = release_min_frequency_action E argc argv"
| "run_action E Fn_ss_mmc_inserted argc argv = ss_mmc_inserted E"
| "run_action E Fn_ss_mmc_unmounted argc argv = ss_mmc_unmounted E argc argv"
| "run_action E Fn_ss_mmc_format argc argv = ss_mmc_format E"
| "run_action E Fn_ss_usb_storage_added argc argv = ss_usb_storage_added E argc argv"
| "run_action E Fn_ss_usb_storage_removed argc argv = ss_usb_storage_removed E argc argv"
| "run_action E (Fn_ext lib) argc argv = call E (DL (Ext_action lib))"

lemma run_action_frame: "frame queue_part (run_action E f argc argv)"
  by (cases f) (simp_all add: frames)

lemma run_action_stops [stops]: "obeys_halt (run_action E f argc argv)"
  by (cases f) (simp_all add: stops)

text \<open>The functions of the daemon satisfy what the core loop asks of them.\<close>

interpretation daemon: runner "run_action E" for E
  by unfold_locales (rule run_action_frame, rule run_action_stops)

text \<open>So do they when children die while they run.\<close>

interpretation signalled: loop_runner "interrupted E sig (run_action E)" "reported sig" for E sig
  by (rule daemon.interrupted_runner)

lemmas daemon_presI [presI] = daemon.pres_daemon_pipe signalled.pres_daemon_pipe

section \<open>Start-up\<close>

definition SS_PIDFILE_PATH :: string where "SS_PIDFILE_PATH = ''/var/run/.system_server.pid''"

definition writepid :: "env \<Rightarrow> string \<Rightarrow> (ss, unit) state" where
  "writepid E pidpath = do {
     ok \<leftarrow> fopen E pidpath Wr;
     if ok then do {
       pid \<leftarrow> call E (OS Getpid);
       fprintf E pidpath (show_int pid)
     } else return ()
   }"

text \<open>\<open>ss_queue_init\<close> sets a variable the model keeps as the empty queue.\<close>

definition system_server_init :: "env \<Rightarrow> (ss, unit) state" where
  "system_server_init E = do {
     r \<leftarrow> ss_devman_plugin_init E;
     if 0 > r then halt (Exited (-1))
     else do {
       ss_sysnoti_init E;
       ss_noti_init E;
       ss_core_init E;
       ss_signal_init E;
       ss_predefine_internal_init E;
       ss_process_manager_init E;
       ss_time_manager_init E;
       ss_cpu_handler_init E;
       ss_lowmem_init E;
       ss_lowbat_init E;
       ss_usb_init E;
       ss_ta_init E;
       ss_pmon_init E;
       ss_device_change_init E;
       ss_mmc_init E;
       ss_bs_init E;
       ss_usb_storage_init E;
       return ()
     }
   }"

definition system_main :: "env \<Rightarrow> (ss, unit) state" where
  "system_main E = do {
     fd \<leftarrow> call E (HEYNOTI Noti_init);
     call E (HEYNOTI (Attach_handler fd));
     system_server_init E
   }"

definition main_start :: "env \<Rightarrow> (ss, unit) state" where
  "main_start E = do { writepid E SS_PIDFILE_PATH; system_main E }"

section \<open>Callbacks\<close>

text \<open>The functions given to \<open>ecore_timer_add\<close>.\<close>

fun timer_callback :: "env \<Rightarrow> timer_cb \<Rightarrow> (ss, int) state" where
  "timer_callback E TCB_ss_lowbat_monitor = ss_lowbat_monitor E"
| "timer_callback E (TCB_lowmem a) = lowmem_timer_cb E a"
| "timer_callback E TCB_lowbat_popup = lowbat_popup E"
| "timer_callback E TCB_powerdown_ap_by_force = powerdown_ap_by_force E"
| "timer_callback E TCB_restart_ap_ecore = restart_ap_ecore E"

text \<open>The notifications \<open>ss_device_change_init\<close> subscribes to, in its order, and the
  two vconf keys of USB storage.\<close>

datatype device_event =
    Usb_chgdet | Ta_chgdet | Earjack_chgdet | Earkey_chgdet | Tvout_chgdet | Hdmi_chgdet
  | Keyboard_chgdet | Keyboard_add | Keyboard_remove | Mouse_add | Mouse_remove | Camera_add
  | Camera_remove | Unknown_usb_add | Unknown_usb_remove | Mmcblk_add | Mmcblk_remove
  | Unmount_ums | Charge_chgdet | Storage_key bool

fun device_callback :: "env \<Rightarrow> device_event \<Rightarrow> (ss, unit) state" where
  "device_callback E Usb_chgdet = usb_chgdet_cb E"
| "device_callback E Ta_chgdet = ta_chgdet_cb E"
| "device_callback E Earjack_chgdet = earjack_chgdet_cb E"
| "device_callback E Earkey_chgdet = earkey_chgdet_cb E"
| "device_callback E Tvout_chgdet = tvout_chgdet_cb E"
| "device_callback E Hdmi_chgdet = hdmi_chgdet_cb E"
| "device_callback E Keyboard_chgdet = keyboard_chgdet_cb E"
| "device_callback E Keyboard_add = keyboard_add_cb E"
| "device_callback E Keyboard_remove = keyboard_remove_cb E"
| "device_callback E Mouse_add = mouse_add_cb E"
| "device_callback E Mouse_remove = mouse_remove_cb E"
| "device_callback E Camera_add = camera_add_cb E"
| "device_callback E Camera_remove = camera_remove_cb E"
| "device_callback E Unknown_usb_add = unknown_usb_add_cb E"
| "device_callback E Unknown_usb_remove = unknown_usb_remove_cb E"
| "device_callback E Mmcblk_add = mmc_chgdet_cb E True"
| "device_callback E Mmcblk_remove = mmc_chgdet_cb E False"
| "device_callback E Unmount_ums = ums_unmount_cb E"
| "device_callback E Charge_chgdet = charge_cb E"
| "device_callback E (Storage_key added) = usb_storage_cb E added"

text \<open>Everything the main loop may run next; \<open>Sigchld\<close> carries the pid the kernel reports,
  \<open>Modem_off\<close> whether the modem was switched off for a restart.  In \<open>Pipe_interrupted\<close>
  children die while the functions of the queued actions run.\<close>

datatype event =
    Pipe_readable | Pipe_interrupted "hist \<Rightarrow> int list" | Sigchld int | Timer timer_cb | Device device_event | Memory_notice
  | Pm_state int | Power_saving int | Power_saving_cpu int | Client | Process_died
  | Crash_log file_event string | Modem_off bool

fun handle :: "env \<Rightarrow> event \<Rightarrow> (ss, unit) state" where
  "handle E Pipe_readable = do { core_pipe_cb E (run_action E); return () }"
| "handle E (Pipe_interrupted sig) = do { core_pipe_cb E (interrupted E sig (run_action E)); return () }"
| "handle E (Sigchld pid) = sig_child_handler E pid"
| "handle E (Timer t) = do { timer_callback E t; return () }"
| "handle E (Device d) = device_callback E d"
| "handle E Memory_notice = do { lowmem_cb E; return () }"
| "handle E (Pm_state k) = do { wakeup_cb E k; return () }"
| "handle E (Power_saving k) = do { power_saving_cb E k; return () }"
| "handle E (Power_saving_cpu k) = do { power_saving_cpu_cb E k; return () }"
| "handle E Client = do { sysnoti_cb E; return () }"
| "handle E Process_died = do { pmon_cb E; return () }"
| "handle E (Crash_log ev path) = bs_file_cb E ev path"
| "handle E (Modem_off restart) =
     do { (if restart then restart_ap E else powerdown_ap E); return () }"

section \<open>Every callback but these keeps what the components keep\<close>

fun of_core :: "event \<Rightarrow> bool" where
  "of_core Pipe_readable = True"
| "of_core (Pipe_interrupted sig) = True"
| "of_core (Sigchld p) = True"
| "of_core _ = False"

context callback_safe
begin

lemma pres_light_callbacks [presI]:
  "pres I (lowbat_popup E)" "pres I (powerdown_ap_by_force E)" "pres I (restart_ap_ecore E)"
  "pres I (restart_ap E)" "pres I (powerdown_ap E)"
  "pres I (power_saving_cb E k)" "pres I (power_saving_cpu_cb E k)"
  by (intro pres_light frames stops)+

lemma pres_timer [presI]: "pres I (timer_callback E t)"
  by (cases t) (simp_all add: presI)

lemma pres_device_callback [presI]: "pres I (device_callback E d)"
  by (cases d) (simp_all add: presI)

lemma pres_handle:
  assumes "\<not> of_core ev"
  shows "pres I (handle E ev)"
  using assms by (cases ev) (simp_all add: presI del: bs_file_cb.simps)

end

section \<open>Start-up keeps it too\<close>

context startup_safe
begin

lemma pres_load_sodir [presI]: "pres I (ss_action_entry_load_from_sodir E)"
  unfolding ss_action_entry_load_from_sodir_def by (intro presI)

lemma pres_register_all:
  "list_all (\<lambda>(t, f). home_name f = Some t) l \<Longrightarrow> pres I (register_all E l)"
  unfolding register_all_def by (induction l) (auto intro!: presI)

lemma pres_registering [presI]:
  "pres I (ss_time_manager_init E)" "pres I (ss_usb_storage_init E)"
  unfolding ss_time_manager_init_def ss_usb_storage_init_def by (intro presI; simp)+

lemma pres_mmc_init [presI]: "pres I (ss_mmc_init E)"
  unfolding ss_mmc_init_def by (intro presI; simp)

lemma pres_cpu_init [presI]: "pres I (ss_cpu_handler_init E)"
  unfolding ss_cpu_handler_init_def by (intro presI pres_light [of "set_freq_limit E"] frames stops; simp)

lemma pres_predefine_init [presI]: "pres I (ss_predefine_internal_init E)"
proof -
  have "pres I (earjackcon_def_predefine_action E 0 [])" by (intro pres_light frames stops)
  moreover have "pres I (register_all E builtin_actions)"
    by (rule pres_register_all) (simp add: builtin_actions_def)
  ultimately show ?thesis unfolding ss_predefine_internal_init_def by (intro presI)
qed

lemma pres_sysnoti_init [presI]: "pres I (ss_sysnoti_init E)"
  by (intro pres_light frames stops)

lemma pres_start: "pres I (main_start E)"
  unfolding main_start_def writepid_def system_main_def system_server_init_def by (intro presI)

end

section \<open>The main loop as a step relation\<close>

text \<open>
  The pipe becomes readable only when a message is in it, and the kernel reports the
  death of processes with a positive pid; everything else can happen at any time.
\<close>

fun enabled :: "ss \<Rightarrow> event \<Rightarrow> bool" where
  "enabled s Pipe_readable \<longleftrightarrow> core_pipe s \<noteq> []"
| "enabled s (Pipe_interrupted sig) \<longleftrightarrow> core_pipe s \<noteq> []"
| "enabled s (Sigchld pid) \<longleftrightarrow> 0 < pid"
| "enabled s _ \<longleftrightarrow> True"

inductive daemon_step :: "env \<Rightarrow> ss \<Rightarrow> event \<Rightarrow> ss \<Rightarrow> bool" for E where
  callback: "alive s \<Longrightarrow> enabled s ev \<Longrightarrow> daemon_step E s ev (exec (handle E ev) s)"

inductive_simps daemon_step_iff: "daemon_step E s ev t"

inductive daemon_run :: "env \<Rightarrow> ss \<Rightarrow> event list \<Rightarrow> ss \<Rightarrow> bool" for E s where
  stay: "daemon_run E s [] s"
| more: "daemon_run E s evs t \<Longrightarrow> daemon_step E t ev u \<Longrightarrow> daemon_run E s (evs @ [ev]) u"

lemma daemon_run_one: "alive s \<Longrightarrow> enabled s ev \<Longrightarrow> daemon_run E s [ev] (exec (handle E ev) s)"
  using daemon_run.more [OF daemon_run.stay daemon_step.callback] by fastforce

text \<open>The states of a daemon started with some files on the device.\<close>

definition started :: "env \<Rightarrow> (string \<rightharpoonup> string) \<Rightarrow> ss" where
  "started E F = exec (main_start E) (boot\<lparr>files := F\<rparr>)"

definition reachable :: "env \<Rightarrow> ss \<Rightarrow> bool" where
  "reachable E t \<longleftrightarrow> (\<exists>F evs. daemon_run E (started E F) evs t)"

lemma reachable_started: "reachable E (started E F)"
  unfolding reachable_def by (blast intro: daemon_run.stay)

lemma daemon_inv_started: "daemon_inv (started E F)"
proof -
  have "daemon_inv (boot\<lparr>files := F\<rparr>)"
    by (simp add: daemon_inv_def queue_inv_def queue_shape_def entries_ok_def table_ok_def queue_typed_def)
  then show ?thesis unfolding started_def by (rule presD [OF inv.pres_start])
qed

lemma daemon_inv_handle:
  assumes "daemon_inv s" "enabled s ev"
  shows "daemon_inv (exec (handle E ev) s)"
proof (cases "of_core ev")
  case True
  then have "pres daemon_inv (handle E ev)"
    using assms(2) by (cases ev) (auto intro!: presI)
  then show ?thesis using assms(1) by (rule presD)
next
  case False
  then have "pres daemon_inv (handle E ev)" by (rule inv.pres_handle)
  then show ?thesis using assms(1) by (rule presD)
qed

lemma daemon_inv_run: "daemon_run E s evs t \<Longrightarrow> daemon_inv s \<Longrightarrow> daemon_inv t"
  by (induction rule: daemon_run.induct) (auto simp: daemon_step_iff daemon_inv_handle)

lemma reachable_inv: "reachable E s \<Longrightarrow> daemon_inv s"
  using daemon_inv_run daemon_inv_started unfolding reachable_def by blast

lemma reachable_run: "reachable E s \<Longrightarrow> daemon_run E s evs t \<Longrightarrow> reachable E t"
proof -
  have append: "daemon_run E u evs2 t \<Longrightarrow> daemon_run E s evs1 u \<Longrightarrow> daemon_run E s (evs1 @ evs2) t"
    for s evs1 u evs2 t
    by (induction rule: daemon_run.induct) (auto simp flip: append_assoc intro: daemon_run.intros)
  show "reachable E s \<Longrightarrow> daemon_run E s evs t \<Longrightarrow> reachable E t"
    unfolding reachable_def using append by blast
qed

text \<open>What start-up and every callback keep holds in every reachable state.\<close>

lemma reachable_keeps:
  assumes "reachable E s" "pres I (main_start E)" "\<And>ev. pres I (handle E ev)" "\<And>F. I (boot\<lparr>files := F\<rparr>)"
  shows "I s"
proof -
  from assms(1) obtain F evs where run: "daemon_run E (started E F) evs s" by (auto simp: reachable_def)
  have "I (started E F)" unfolding started_def by (rule presD [OF assms(2,4)])
  with run show ?thesis
    by (induction rule: daemon_run.induct) (auto simp: daemon_step_iff intro: presD [OF assms(3)])
qed

section \<open>An entry that runs a process\<close>

text \<open>It stays in the queue as long as no message that clears its pid is under way.\<close>

definition running_as :: "ss_run_queue_entry \<Rightarrow> ss \<Rightarrow> bool" where
  "running_as e s \<longleftrightarrow> (alive s \<longrightarrow> e \<in> set (run_queue s) \<and> clear_msg (forked_pid e) \<notin> set (core_pipe s))"

interpretation running: callback_safe "running_as e" for e
proof (unfold_locales, goal_cases)
  case (1 s t)
  then show ?case by (auto simp: running_as_def queue_part_def)
next
  case (2 s d E argc argv)
  then show ?case by (auto simp: running_as_def exec_run_queue_add)
qed

lemma ran_others:
  assumes "SS_Core.ran y ps s s'" "e \<in> set (run_queue s)" "rq_addr e \<noteq> rq_addr y"
  shows "e \<in> set (run_queue s') \<and>
    set (core_pipe s') \<subseteq> insert (clear_msg (-1)) (clear_msg ` set ps) \<union> set (core_pipe s)"
  using assms(1)
proof (cases rule: ranE)
  case (1 p st)
  have "e \<in> set (run_queue s')"
    unfolding 1(2) set_map by (rule image_eqI [OF _ assms(2)]) (simp add: assms(3))
  then show ?thesis using 1(1) by auto
qed

context loop_runner
begin

lemma running_as_visit:
  assumes "running_as e s" "queue_shape s" "rq_state e = SS_STATE_RUNNING" "0 < forked_pid e"
    and "forked_pid e \<notin> deaths"
  shows "running_as e (exec (run_visit E act x) s)"
  using assms(2)
proof (cases rule: run_visit_cases [of s x E])
  case (ran y)
  let ?t = "exec (run_visit E act x) s"
  show ?thesis
  proof (cases "alive ?t")
    case True
    then have al: "alive s" by (rule obeys_halt_alive [OF run_visit_stops])
    obtain ps where ps: "set ps \<subseteq> {p \<in> deaths. 0 < p}" and r: "SS_Core.ran y ps s ?t"
      using core_action_ran [of E y s] True ran(4) by auto
    have e: "e \<in> set (run_queue s)" "clear_msg (forked_pid e) \<notin> set (core_pipe s)"
      using assms(1) al by (simp_all add: running_as_def)
    have ne: "rq_addr e \<noteq> rq_addr y"
    proof
      assume "rq_addr e = rq_addr y"
      then have "Some e = Some y" using rq_find_unique [OF assms(2) e(1)] rq_find_unique [OF assms(2) ran(1)] by metis
      then have "e = y" by blast
      with ran(3) assms(3) show False by (simp add: is_init_def)
    qed
    have "e \<in> set (run_queue ?t)"
      "set (core_pipe ?t) \<subseteq> insert (clear_msg (-1)) (clear_msg ` set ps) \<union> set (core_pipe s)"
      using ran_others [OF r e(1) ne] by simp_all
    moreover from this(2) have "clear_msg (forked_pid e) \<notin> set (core_pipe ?t)"
      using e(2) assms(4,5) ps by auto
    ultimately show ?thesis by (simp add: running_as_def)
  next
    case False
    then show ?thesis by (simp add: running_as_def)
  qed
next
  case same
  then show ?thesis using assms(1) by simp
qed

lemma shape_visit:
  assumes "queue_shape s" "alive (exec (run_visit E act x) s)"
  shows "queue_shape (exec (run_visit E act x) s)"
  using assms(1)
proof (cases rule: run_visit_cases [of s x E])
  case (ran y)
  then obtain ps where "set ps \<subseteq> {p \<in> deaths. 0 < p}" "SS_Core.ran y ps s (exec (run_visit E act x) s)"
    using core_action_ran [of E y s] assms(2) by auto
  then show ?thesis by (intro ran_shape [OF _ assms(1)]) auto
next
  case same
  then show ?thesis using assms(1) by simp
qed

lemma running_as_visits:
  assumes "running_as e s" "alive s \<longrightarrow> queue_shape s" "rq_state e = SS_STATE_RUNNING" "0 < forked_pid e"
    and "forked_pid e \<notin> deaths"
  shows "running_as e (fold (\<lambda>x. exec (run_visit E act x)) xs s)"
  using assms(1,2)
proof (induction xs arbitrary: s)
  case Nil
  then show ?case by simp
next
  case (Cons x xs)
  let ?t = "exec (run_visit E act x) s"
  show ?case
  proof (cases "alive s")
    case True
    then have "running_as e ?t" "alive ?t \<longrightarrow> queue_shape ?t"
      using running_as_visit [OF Cons.prems(1) _ assms(3-5)] shape_visit Cons.prems(2) by auto
    then show ?thesis using Cons.IH by simp
  next
    case False
    then have "?t = s" by (rule obeys_haltD [OF run_visit_stops])
    then show ?thesis using Cons by simp
  qed
qed

lemma running_as_pipe:
  assumes "running_as e s" "daemon_inv s" "rq_state e = SS_STATE_RUNNING" "0 < forked_pid e" "alive s"
    and "core_pipe s \<noteq> []" "forked_pid e \<notin> deaths"
  shows "running_as e (exec (core_pipe_cb E act) s)"
proof -
  obtain m ms where p: "core_pipe s = m # ms" using assms(6) by (cases "core_pipe s") auto
  have shape: "queue_shape s" using assms(2,5) by (simp add: daemon_inv_def queue_inv_def)
  define u where "u = (log_call (ECORE Fd_handler_active) s)\<lparr>core_pipe := ms\<rparr>"
  have u: "running_as e u" "queue_shape u"
    using assms(1,5) p shape by (auto simp: u_def running_as_def queue_shape_def)
  have e: "e \<in> set (run_queue s)" "m \<noteq> clear_msg (forked_pid e)" "clear_msg (forked_pid e) \<notin> set ms"
    using assms(1,5) p by (auto simp: running_as_def)
  show ?thesis
  proof (cases "im_type m")
    case SS_CORE_ACT_RUN
    have "running_as e (exec (ss_run_queue_run SS_STATE_INIT (core_action_run E act)) u)"
      unfolding exec_run_init using u assms(3,4,7) by (intro running_as_visits) auto
    then show ?thesis
      using assms(1,5) SS_CORE_ACT_RUN p by (simp add: exec_core_pipe_cb Let_def u_def [symmetric] running.I_log)
  next
    case SS_CORE_ACT_CLEAR
    then have "im_pid m \<noteq> forked_pid e" using e(2) by (cases m) auto
    then show ?thesis
      using assms(1,5) SS_CORE_ACT_CLEAR p e by (auto simp: exec_core_pipe_cb running_as_def Let_def)
  qed
qed

end

text \<open>The deaths the kernel reports during a callback.\<close>

fun deaths_in :: "event \<Rightarrow> int set" where
  "deaths_in (Sigchld p) = {p}"
| "deaths_in (Pipe_interrupted sig) = reported sig"
| "deaths_in _ = {}"

lemma running_as_step:
  assumes "running_as e s" "daemon_inv s" "rq_state e = SS_STATE_RUNNING" "0 < forked_pid e"
    and "daemon_step E s ev t" "forked_pid e \<notin> deaths_in ev"
  shows "running_as e t"
proof -
  have al: "alive s" and en: "enabled s ev" and t: "t = exec (handle E ev) s"
    using assms(5) by (auto simp: daemon_step_iff)
  consider (pipe) "ev = Pipe_readable" | (interrupted) sig where "ev = Pipe_interrupted sig"
    | (child) p where "ev = Sigchld p" "p \<noteq> forked_pid e" | (other) "\<not> of_core ev"
    using assms(6) by (cases ev) auto
  then show ?thesis
  proof cases
    case pipe
    then show ?thesis using daemon.running_as_pipe [OF assms(1-4) al] en t by simp
  next
    case interrupted
    then show ?thesis using signalled.running_as_pipe [OF assms(1-4) al] assms(6) en t by simp
  next
    case child
    then show ?thesis using assms(1) t by (auto simp: sig_child_handler_def running_as_def)
  next
    case other
    then show ?thesis unfolding t using presD [OF running.pres_handle [OF other] assms(1)] by simp
  qed
qed

lemma running_as_run:
  "daemon_run E s evs t \<Longrightarrow> running_as e s \<Longrightarrow> daemon_inv s \<Longrightarrow> rq_state e = SS_STATE_RUNNING \<Longrightarrow>
    0 < forked_pid e \<Longrightarrow> \<forall>ev \<in> set evs. forked_pid e \<notin> deaths_in ev \<Longrightarrow> running_as e t"
  by (induction rule: daemon_run.induct) (auto intro: running_as_step dest: daemon_inv_run)

section \<open>Names the start-up registers\<close>

text \<open>A name that is once in the table stays there; the start-up puts every built-in one in.\<close>

definition named :: "string \<Rightarrow> ss \<Rightarrow> bool" where
  "named t s \<longleftrightarrow> (alive s \<longrightarrow> action_lookup s t \<noteq> None)"

interpretation named: startup_safe "named t" for t
proof (unfold_locales, goal_cases)
  case (1 s u)
  then show ?case by (auto simp: named_def action_lookup_def queue_part_def)
next
  case (2 s d E argc argv)
  then show ?case by (auto simp: named_def exec_run_queue_add action_lookup_def)
next
  case (3 s d)
  then show ?case by (auto simp: named_def action_lookup_def)
qed

definition ensures :: "(ss \<Rightarrow> bool) \<Rightarrow> (ss, 'a) state \<Rightarrow> bool" where
  "ensures I m \<longleftrightarrow> (\<forall>s. I (exec m s))"

lemma ensures_later: "(\<And>x. ensures I (g x)) \<Longrightarrow> ensures I (m \<bind> g)"
  by (simp add: ensures_def)

lemma ensures_now: "ensures I m \<Longrightarrow> (\<And>x. pres I (g x)) \<Longrightarrow> ensures I (m \<bind> g)"
  by (simp add: ensures_def pres_def)

lemma ensures_halted: "ensures (named t) n \<Longrightarrow> ensures (named t) (if b then halt f else n)"
  by (simp add: ensures_def named_def)

lemma ensures_add:
  assumes "malloc_ok E"
  shows "ensures (named t) (ss_action_entry_add_internal E t (Some f) ui acc)"
proof -
  have "named t (exec (ss_action_entry_add_internal E t (Some f) ui acc) s)" for s
    using assms by (simp add: ss_action_entry_add_internal_def malloc_okD named_def)
      (simp add: action_lookup_def)
  then show ?thesis by (simp add: ensures_def)
qed

lemma ensures_register_all:
  assumes "malloc_ok E" "list_all (\<lambda>(t, f). home_name f = Some t) l" "t \<in> fst ` set l"
  shows "ensures (named t) (register_all E l)"
  using assms(2,3) unfolding register_all_def
proof (induction l)
  case Nil
  then show ?case by simp
next
  case (Cons x l)
  obtain u f where x: "x = (u, f)" by (cases x)
  have rest: "pres (named t) (register_all E l)"
    using Cons.prems(1) by (intro named.pres_register_all) simp
  show ?case
  proof (cases "u = t")
    case True
    have "ensures (named t) (ss_action_entry_add_internal E u (Some f) None None)"
      unfolding True by (rule ensures_add [OF assms(1)])
    then show ?thesis using rest x by (auto intro!: ensures_now simp: register_all_def)
  next
    case False
    then show ?thesis using Cons x by (auto intro!: ensures_later)
  qed
qed

lemma component_names:
  assumes "malloc_ok E"
  shows "t \<in> {PREDEF_FOREGRD, PREDEF_BACKGRD, PREDEF_ACTIVE, PREDEF_INACTIVE, OOMADJ_SET} \<Longrightarrow>
      ensures (named t) (ss_process_manager_init E)"
    "t \<in> {PREDEF_SET_DATETIME, PREDEF_SET_TIMEZONE} \<Longrightarrow> ensures (named t) (ss_time_manager_init E)"
    "t \<in> {PREDEF_SET_MAX_FREQUENCY, PREDEF_SET_MIN_FREQUENCY, PREDEF_RELEASE_MAX_FREQUENCY,
       PREDEF_RELEASE_MIN_FREQUENCY} \<Longrightarrow> ensures (named t) (ss_cpu_handler_init E)"
    "t \<in> {PREDEF_MOUNT_MMC, PREDEF_UNMOUNT_MMC, PREDEF_FORMAT_MMC} \<Longrightarrow> ensures (named t) (ss_mmc_init E)"
    "t \<in> {PREDEF_USB_STORAGE_ADD, PREDEF_USB_STORAGE_REMOVE} \<Longrightarrow> ensures (named t) (ss_usb_storage_init E)"
  unfolding ss_process_manager_init_def ss_time_manager_init_def ss_cpu_handler_init_def ss_mmc_init_def
    ss_usb_storage_init_def
  by (elim insertE emptyE; simp only:;
    ((rule ensures_now, rule ensures_add [OF assms]) | rule ensures_later | (intro presI; simp; fail))+)+

lemma predefine_names:
  assumes "malloc_ok E" "t \<in> fst ` set builtin_actions"
  shows "ensures (named t) (ss_predefine_internal_init E)"
proof -
  have "ensures (named t) (register_all E builtin_actions)"
    using assms by (intro ensures_register_all) (simp_all add: builtin_actions_def)
  moreover have "pres (named t) (earjackcon_def_predefine_action E 0 [])"
    by (intro named.pres_light frames stops)
  ultimately show ?thesis
    unfolding ss_predefine_internal_init_def by (intro ensures_later ensures_now presI)
qed

text \<open>Every built-in name is in the table of a daemon that has started.\<close>

lemma server_names:
  assumes "malloc_ok E" "home_name f = Some t"
  shows "ensures (named t) (system_server_init E)"
proof -
  note names = component_names [OF assms(1), of t] predefine_names [OF assms(1), of t]
  have groups: "t \<in> fst ` set builtin_actions \<or>
      t \<in> {PREDEF_FOREGRD, PREDEF_BACKGRD, PREDEF_ACTIVE, PREDEF_INACTIVE, OOMADJ_SET} \<or>
      t \<in> {PREDEF_SET_DATETIME, PREDEF_SET_TIMEZONE} \<or>
      t \<in> {PREDEF_SET_MAX_FREQUENCY, PREDEF_SET_MIN_FREQUENCY, PREDEF_RELEASE_MAX_FREQUENCY,
         PREDEF_RELEASE_MIN_FREQUENCY} \<or>
      t \<in> {PREDEF_MOUNT_MMC, PREDEF_UNMOUNT_MMC, PREDEF_FORMAT_MMC} \<or>
      t \<in> {PREDEF_USB_STORAGE_ADD, PREDEF_USB_STORAGE_REMOVE}"
    using assms(2) by (cases f) (simp_all add: builtin_actions_def)
  then consider "ensures (named t) (ss_predefine_internal_init E)"
    | "ensures (named t) (ss_process_manager_init E)" | "ensures (named t) (ss_time_manager_init E)"
    | "ensures (named t) (ss_cpu_handler_init E)" | "ensures (named t) (ss_mmc_init E)"
    | "ensures (named t) (ss_usb_storage_init E)"
    using names by metis
  then show ?thesis
    unfolding system_server_init_def
    by cases ((rule ensures_now, assumption) | rule ensures_halted | rule ensures_later | (intro presI; fail))+
qed

lemma started_names:
  assumes "malloc_ok E" "home_name f = Some t"
  shows "named t (started E F)"
proof -
  have "ensures (named t) (main_start E)"
    unfolding main_start_def system_main_def
    by (intro ensures_later server_names [OF assms])
  then show ?thesis by (simp add: ensures_def started_def)
qed

text \<open>No two functions have the same name.\<close>

lemma home_names_differ: "home_name f = home_name g \<Longrightarrow> home_name f \<noteq> None \<Longrightarrow> f = g"
  by (cases f; cases g; simp add: predef_names)

lemma home_name_inj: "home_name f = Some t \<Longrightarrow> home_name g = Some t \<Longrightarrow> f = g"
  by (rule home_names_differ) simp_all

text \<open>The entry found under a built-in name is the built-in function, or a shared object that took the name.\<close>

lemma reachable_lookup:
  assumes "reachable E s" "malloc_ok E" "alive s" "home_name f = Some t"
  shows "\<exists>d. action_lookup s t = Some d \<and> (predefine_action d = f \<or> predefine_action d = Fn_ext (ae_path d))"
proof -
  from assms(1) obtain F evs where run: "daemon_run E (started E F) evs s" by (auto simp: reachable_def)
  from run have "named t s"
  proof (induction rule: daemon_run.induct)
    case stay
    show ?case using assms(2,4) by (rule started_names)
  next
    case (more evs u ev)
    show ?case
    proof (cases "of_core ev")
      case True
      have "daemon_step E t ev u \<Longrightarrow> predef_act_list u = predef_act_list t \<and> (alive u \<longrightarrow> alive t)" for t u
        using True daemon.table_core_pipe_cb signalled.table_core_pipe_cb
        by (cases ev) (auto simp: daemon_step_iff sig_child_handler_def)
      from this [OF more.hyps(2)] show ?thesis
        using more.IH by (simp add: named_def action_lookup_def)
    next
      case False
      then have "pres (named t) (handle E ev)" by (rule named.pres_handle)
      then show ?thesis using more.IH more.hyps(2) by (auto simp: daemon_step_iff pres_def)
    qed
  qed
  then obtain d where d: "action_lookup s t = Some d" using assms(3) by (auto simp: named_def)
  have "well_bound d"
    using lookup_mem [OF d] reachable_inv [OF assms(1)] by (auto simp: daemon_inv_def queue_typed_def)
  then show ?thesis
    using d lookup_mem [OF d] home_name_inj [OF _ assms(4), of "predefine_action d"]
    by (auto simp: well_bound_def split: option.splits)
qed

section \<open>From a post to the call\<close>

text \<open>What the core loop does once the function of the entry at \<open>a\<close> has returned.\<close>

definition core_finish :: "env \<Rightarrow> nat \<Rightarrow> int \<Rightarrow> (ss, unit) state" where
  "core_finish E a ret =
     (if ret \<le> 0 then fast_done a
      else do {
        r \<leftarrow> call E (FS (Access (status_path ret)));
        if r = 0 then rq_update a (\<lambda>e. e\<lparr>forked_pid := ret\<rparr>) else fast_done a
      })"

text \<open>The state a posted function is called in, for a daemon that was idle.\<close>

definition called_in :: "ss \<Rightarrow> action_entry \<Rightarrow> int \<Rightarrow> string option list \<Rightarrow> ss" where
  "called_in s d argc args = s\<lparr>trace := ECORE Fd_handler_active # OS (Malloc 80) # trace s,
     run_queue := (new_entry s d argc args)\<lparr>rq_state := SS_STATE_RUNNING\<rparr> # run_queue s,
     next_addr := Suc (next_addr s), core_pipe := []\<rparr>"

lemma visits_done:
  "\<forall>e \<in> set (run_queue s). \<not> is_init e \<Longrightarrow> fold (\<lambda>x. exec (run_visit E act x)) xs s = s"
proof (induction xs)
  case Nil
  then show ?case by simp
next
  case (Cons x xs)
  then have "exec (run_visit E act x) s = s"
    by (auto simp: exec_run_visit is_init_def dest: rq_find_mem split: option.split)
  then show ?case using Cons by simp
qed

lemma finish_queue:
  "alive w \<Longrightarrow> run_queue w = e # q \<Longrightarrow> rq_addr e = a \<Longrightarrow> rq_state e = SS_STATE_RUNNING \<Longrightarrow>
    (\<And>x. x \<in> set q \<Longrightarrow> rq_addr x \<noteq> a) \<Longrightarrow>
    run_queue (exec (core_finish E a ret) w) =
      (if 0 < ret \<and> e_ret E (trace w) (FS (Access (status_path ret))) = 0 then e\<lparr>forked_pid := ret\<rparr> # q
       else e\<lparr>forked_pid := -1, rq_state := SS_STATE_DONE\<rparr> # q)"
  by (auto simp: core_finish_def fast_done_def intro!: map_if_id map_idI)

text \<open>One waiting entry in front of others that run, and its message: the next callback calls its function.\<close>

definition calling :: "ss \<Rightarrow> ss" where
  "calling w = w\<lparr>trace := ECORE Fd_handler_active # trace w, core_pipe := [],
     run_queue := (hd (run_queue w))\<lparr>rq_state := SS_STATE_RUNNING\<rparr> # tl (run_queue w)\<rparr>"

text \<open>What the handlers do beside the queue.\<close>

definition effects :: "ss \<Rightarrow> fault option \<times> (string \<rightharpoonup> string) \<times> bat_vars \<times> mem_vars \<times> cpu_vars \<times> predef_vars \<times> dev_vars" where
  "effects s = (halted s, files s, bat s, mem s, cpu s, pre s, dev s)"

lemma effects_calling [simp]: "effects (calling w) = effects w"
  by (simp add: calling_def effects_def)

lemma effects_finish: "effects (exec (core_finish E a ret) w) = effects w"
  by (simp add: core_finish_def fast_done_def effects_def)

text \<open>
  What the core loop leaves behind when it has called a function in a state: beside table,
  queue and pipe, everything is as the function left it, and the external calls are those of
  the function, after which the loop looks once whether the process the function names exists.
\<close>

definition left_by :: "env \<Rightarrow> (ss, int) state \<Rightarrow> ss \<Rightarrow> ss \<Rightarrow> bool" where
  "left_by E m u v \<longleftrightarrow> effects v = effects (exec m u) \<and>
     trace v = (if alive (exec m u) \<and> 0 < result m u then [FS (Access (status_path (result m u)))] else []) @
       trace (exec m u)"

lemma left_by_finish: "left_by E m u (exec (core_finish E a (result m u)) (exec m u))"
  by (simp add: left_by_def effects_finish) (simp add: core_finish_def fast_done_def)

context runner
begin

lemma single_run:
  assumes "alive w" "queue_shape w" "core_pipe w = [run_msg]" "run_queue w = e # q" "rq_state e = SS_STATE_INIT"
    and "\<forall>x \<in> set q. rq_state x = SS_STATE_RUNNING" "\<And>h. e_ret E h (ECORE Fd_handler_active) \<noteq> 0"
  defines "m \<equiv> act (predefine_action (rq_action_entry e)) (rq_argc e) (rq_argv e)"
  shows "exec (core_pipe_cb E act) w =
    exec (core_finish E (rq_addr e) (result m (calling w))) (exec m (calling w))"
proof -
  define p where "p = (log_call (ECORE Fd_handler_active) w)\<lparr>core_pipe := []\<rparr>"
  define v where "v = exec (core_action_run E act e) p"
  have "rq_addr e \<notin> rq_addr ` set q" using assms(2,4) by (simp add: queue_shape_def)
  then have old: "rq_state x = SS_STATE_RUNNING" "rq_addr x \<noteq> rq_addr e" if "x \<in> set q" for x
    using assms(6) that by (metis, metis image_eqI)
  have start: "exec (core_pipe_cb E act) w = fold (\<lambda>x. exec (run_visit E act x)) (e # q) p"
    using assms(1,3,4,7) by (simp add: exec_core_pipe_cb exec_run_init p_def)
  have first: "exec (run_visit E act e) p = v"
    using assms(4,5) by (simp add: exec_run_visit p_def rq_find_def v_def)
  have run: "v = exec (core_finish E (rq_addr e) (result m (calling w))) (exec m (calling w))"
  proof -
    have "map (\<lambda>x. if rq_addr x = rq_addr e then x\<lparr>rq_state := SS_STATE_RUNNING\<rparr> else x) q = q"
      using old by (intro map_if_id) auto
    then have "exec (rq_update (rq_addr e) (\<lambda>e. e\<lparr>rq_state := SS_STATE_RUNNING\<rparr>)) p = calling w"
      using assms(1,4) by (simp add: p_def calling_def log_call_def)
    then show ?thesis by (simp add: v_def core_action_run_def core_finish_def m_def)
  qed
  have "\<forall>x \<in> set (run_queue v). \<not> is_init x"
  proof -
    let ?w = "exec m (calling w)"
    have q: "run_queue ?w = e\<lparr>rq_state := SS_STATE_RUNNING\<rparr> # q"
      unfolding m_def act_parts(1) by (simp add: calling_def assms(4))
    show ?thesis
    proof (cases "alive ?w")
      case True
      then show ?thesis
        unfolding run using finish_queue [OF True q, of "rq_addr e" E "result m (calling w)"] old
        by (auto simp: is_init_def)
    next
      case False
      then have "v = ?w" unfolding run core_finish_def by (simp add: fast_done_def)
      then show ?thesis using q old by (auto simp: is_init_def)
    qed
  qed
  then show ?thesis unfolding start using visits_done first run by simp
qed

text \<open>In an idle daemon a posted action is such an entry.\<close>

lemma posted_run:
  fixes args :: "string option list"
  assumes "alive s" "malloc_ok E" "daemon_inv s" "core_pipe s = []" "action_lookup s t = Some d"
    and "argc \<le> SYSMAN_MAXARG" "\<And>h. e_ret E h (ECORE Fd_handler_active) \<noteq> 0"
  defines "m \<equiv> act (predefine_action d) argc (take (nat argc) args)"
    and "u \<equiv> called_in s d argc args"
  shows "exec (core_pipe_cb E act) (exec (ss_action_entry_call_internal E (Some t) argc args) s) =
    exec (core_finish E (next_addr s) (result m u)) (exec m u)"
proof -
  define w where "w = exec (ss_action_entry_call_internal E (Some t) argc args) s"
  have w: "w = (log_call (OS (Malloc 80)) s)\<lparr>run_queue := new_entry s d argc args # run_queue s,
      next_addr := Suc (next_addr s), core_pipe := [run_msg]\<rparr>"
    using assms(1,2,4-6) by (simp add: w_def exec_call_internal exec_run_queue_add malloc_okD new_entry_def)
  have idle: "rq_state x = SS_STATE_RUNNING" "0 < forked_pid x" if "x \<in> set (run_queue s)" for x
    using drained_entries [of s x] assms(1,3,4) that by (simp_all add: daemon_inv_def)
  have "daemon_inv w" unfolding w_def by (intro presD [OF inv.pres_posts] assms(3))
  moreover have "alive w" using assms(1) by (simp add: w)
  ultimately have "queue_shape w" by (simp add: daemon_inv_def queue_inv_def)
  moreover have "calling w = u" using assms(1) by (simp add: w u_def calling_def called_in_def log_call_def)
  ultimately show ?thesis
    using single_run [of w "new_entry s d argc args" "run_queue s" E] assms(1,7) idle
    by (simp add: w_def [symmetric] m_def) (simp add: w new_entry_def)
qed

text \<open>
  When its function starts no process, the next callback frees the entry: the daemon is as
  idle as before.
\<close>

lemma fast_completes:
  fixes args :: "string option list"
  assumes "alive s" "malloc_ok E" "daemon_inv s" "core_pipe s = []" "action_lookup s t = Some d"
    and "argc \<le> SYSMAN_MAXARG" "\<And>h. e_ret E h (ECORE Fd_handler_active) \<noteq> 0"
  defines "m \<equiv> act (predefine_action d) argc (take (nat argc) args)"
    and "u \<equiv> called_in s d argc args"
    and "v \<equiv> exec (core_pipe_cb E act) (exec (ss_action_entry_call_internal E (Some t) argc args) s)"
  assumes "result m u \<le> 0" "alive (exec m u)"
  shows "queue_part (exec (core_pipe_cb E act) v) = (predef_act_list s, run_queue s, Suc (next_addr s), [])"
    "effects (exec (core_pipe_cb E act) v) = effects (exec m u)"
    "trace (exec (core_pipe_cb E act) v) = ECORE Fd_handler_active # trace (exec m u)"
proof -
  have v: "v = exec (fast_done (next_addr s)) (exec m u)"
    using posted_run [OF assms(1-7)] assms(11) by (simp add: v_def m_def u_def core_finish_def)
  have parts: "run_queue (exec m u) = (new_entry s d argc args)\<lparr>rq_state := SS_STATE_RUNNING\<rparr> # run_queue s"
    "core_pipe (exec m u) = []" "next_addr (exec m u) = Suc (next_addr s)" "predef_act_list (exec m u) = predef_act_list s"
    unfolding m_def act_parts by (simp_all add: u_def called_in_def)
  have old: "rq_addr x \<noteq> next_addr s" "forked_pid x \<noteq> -1" if "x \<in> set (run_queue s)" for x
    using that drained_entries [of s x] assms(1,3,4) by (auto simp: daemon_inv_def queue_inv_def queue_shape_def)
  have others: "map (\<lambda>y. if rq_addr y = next_addr s then f y else y) (run_queue s) = run_queue s" for f
    using old(1) by (intro map_if_id) auto
  have keep: "filter (\<lambda>e. forked_pid e \<noteq> -1) (run_queue s) = run_queue s" using old(2) by simp
  have run: "exec (core_pipe_cb E act) v = (log_call (ECORE Fd_handler_active) (exec m u))\<lparr>core_pipe := [], run_queue := run_queue s\<rparr>"
    using assms(7,12) parts keep unfolding v
    by (simp add: fast_done_def exec_core_pipe_cb ss_run_queue_del_bypid_def new_entry_def others Let_def log_call_def)
  then show "queue_part (exec (core_pipe_cb E act) v) = (predef_act_list s, run_queue s, Suc (next_addr s), [])"
    "effects (exec (core_pipe_cb E act) v) = effects (exec m u)"
    "trace (exec (core_pipe_cb E act) v) = ECORE Fd_handler_active # trace (exec m u)"
    using parts assms(12) by (simp_all add: queue_part_def effects_def log_call_def)
qed

end

lemma idle_entries:
  "daemon_inv s \<Longrightarrow> alive s \<Longrightarrow> core_pipe s = [] \<Longrightarrow> x \<in> set (run_queue s) \<Longrightarrow> rq_state x = SS_STATE_RUNNING"
  by (drule (1) daemon.drained_entries [rotated]) (auto simp: daemon_inv_def)

text \<open>
  A callback that posts one action in an idle daemon: the next pipe callback does what the
  function of that action does, in the state the first callback left.
\<close>

lemma posted_by_callback:
  assumes "daemon_inv s" "alive s" "core_pipe s = []" "action_lookup s t = Some d"
    and "daemon_inv w" "alive w" "queue_part w = post_action t argc args (queue_part s)" "argc = int (length args)"
    and "\<And>h. e_ret E h (ECORE Fd_handler_active) \<noteq> 0"
  shows "left_by E (run_action E (predefine_action d) argc args) (calling w) (exec (handle E Pipe_readable) w)"
proof -
  let ?e = "\<lparr>rq_addr = next_addr s, rq_state = SS_STATE_INIT, rq_action_entry = d, forked_pid = 0,
    rq_argc = argc, rq_argv = args\<rparr>"
  have "run_queue w = ?e # run_queue s" "core_pipe w = [run_msg]"
    using assms(3,4,7,8) by (simp_all add: queue_part_def action_lookup_def)
  moreover have "queue_shape w" using assms(5,6) by (simp add: daemon_inv_def queue_inv_def)
  ultimately have "exec (core_pipe_cb E (run_action E)) w =
      exec (core_finish E (next_addr s) (result (run_action E (predefine_action d) argc args) (calling w)))
        (exec (run_action E (predefine_action d) argc args) (calling w))"
    using daemon.single_run [of w ?e "run_queue s" E] assms(6,9) idle_entries [OF assms(1-3)] by simp
  then show ?thesis by (simp add: left_by_finish)
qed

end
