(* ===== verification/SS_Scheduler.thy ===== *)
theory SS_Scheduler
  imports SS_Main
begin

text \<open>
  What the table, the queue and the pipe are for, without addresses, states of entries and
  messages: a scheduler of jobs.  A job waits, then runs as a process or is finished; a job
  that runs is removed when the death of its process has been reported.  Every run of the
  daemon is a run of this scheduler.
\<close>

section \<open>The scheduler\<close>

datatype job_status = Waiting | Runs int | Finished

record job =
  job_id :: nat
  job_action :: action_entry
  job_argc :: int
  job_args :: "string option list"
  job_status :: job_status

record sched =
  actions :: "action_entry list"
  next_job :: nat
  jobs :: "job list"
  dead :: "int list"

datatype label =
    Submit action_entry int "string option list" | Start nat int | Finish nat
  | Report int | Reap int | Collect

definition set_status :: "nat \<Rightarrow> job_status \<Rightarrow> job list \<Rightarrow> job list" where
  "set_status i st = map (\<lambda>j. if job_id j = i then j\<lparr>job_status := st\<rparr> else j)"

inductive sched_step :: "sched \<Rightarrow> label \<Rightarrow> sched \<Rightarrow> bool" where
  submit: "d \<in> set (actions a) \<Longrightarrow> n \<le> SYSMAN_MAXARG \<Longrightarrow>
    sched_step a (Submit d n args) (a\<lparr>jobs := \<lparr>job_id = next_job a, job_action = d, job_argc = n,
      job_args = args, job_status = Waiting\<rparr> # jobs a, next_job := Suc (next_job a)\<rparr>)"
| start: "j \<in> set (jobs a) \<Longrightarrow> job_status j = Waiting \<Longrightarrow> 0 < p \<Longrightarrow>
    sched_step a (Start (job_id j) p) (a\<lparr>jobs := set_status (job_id j) (Runs p) (jobs a)\<rparr>)"
| finish: "j \<in> set (jobs a) \<Longrightarrow> job_status j = Waiting \<Longrightarrow>
    sched_step a (Finish (job_id j)) (a\<lparr>jobs := set_status (job_id j) Finished (jobs a)\<rparr>)"
| report: "0 < p \<Longrightarrow> sched_step a (Report p) (a\<lparr>dead := dead a @ [p]\<rparr>)"
| reap: "dead a = p # ps \<Longrightarrow>
    sched_step a (Reap p) (a\<lparr>dead := ps, jobs := filter (\<lambda>j. job_status j \<noteq> Runs p) (jobs a)\<rparr>)"
| collect: "sched_step a Collect (a\<lparr>jobs := filter (\<lambda>j. job_status j \<noteq> Finished) (jobs a)\<rparr>)"

inductive sched_run :: "sched \<Rightarrow> label list \<Rightarrow> sched \<Rightarrow> bool" for a where
  stay: "sched_run a [] a"
| more: "sched_run a ls b \<Longrightarrow> sched_step b l c \<Longrightarrow> sched_run a (ls @ [l]) c"

lemma sched_run_step: "sched_step a l b \<Longrightarrow> sched_run a [l] b"
  using sched_run.more [OF sched_run.stay] by force

lemma sched_run_append: "sched_run b ks c \<Longrightarrow> sched_run a ls b \<Longrightarrow> sched_run a (ls @ ks) c"
  by (induction rule: sched_run.induct) (auto simp flip: append_assoc intro: sched_run.more)

fun report_pid :: "label \<Rightarrow> int set" where
  "report_pid (Report p) = {p}"
| "report_pid _ = {}"

definition reports :: "label list \<Rightarrow> int set" where
  "reports ls = (\<Union>l \<in> set ls. report_pid l)"

lemma reports_simps [simp]:
  "reports [] = {}" "reports (l # ls) = report_pid l \<union> reports ls" "reports (ls @ ks) = reports ls \<union> reports ks"
  by (auto simp: reports_def)

lemma reports_run: "\<forall>p \<in> set ps. 0 < p \<Longrightarrow> sched_run a (map Report ps) (a\<lparr>dead := dead a @ ps\<rparr>)"
proof (induction ps rule: rev_induct)
  case Nil
  then show ?case by (simp add: sched_run.stay)
next
  case (snoc p ps)
  then have "sched_run a (map Report ps) (a\<lparr>dead := dead a @ ps\<rparr>)" "0 < p" by auto
  from sched_run.more [OF this(1) sched_step.report [OF this(2)]] show ?case by simp
qed

lemma reports_map [simp]: "reports (map Report ps) = set ps"
  by (induction ps) auto

section \<open>The life of a job\<close>

text \<open>The jobs a run starts or finishes, each label one call of the function of the job.\<close>

fun called_id :: "label \<Rightarrow> nat option" where
  "called_id (Start i p) = Some i"
| "called_id (Finish i) = Some i"
| "called_id _ = None"

definition calls_of :: "label list \<Rightarrow> nat list" where
  "calls_of ls = List.map_filter called_id ls"

definition sched_wf :: "sched \<Rightarrow> bool" where
  "sched_wf a \<longleftrightarrow> distinct (map job_id (jobs a)) \<and> (\<forall>j \<in> set (jobs a). job_id j < next_job a)"

text \<open>A job of \<open>b\<close> that is not new since \<open>a\<close> is one of \<open>a\<close>, unchanged but for the end of its waiting.\<close>

definition job_later :: "job \<Rightarrow> job \<Rightarrow> bool" where
  "job_later j k \<longleftrightarrow> job_id k = job_id j \<and> job_action k = job_action j \<and> job_argc k = job_argc j \<and>
     job_args k = job_args j \<and> (job_status j = Waiting \<or> job_status k = job_status j)"

definition aged :: "sched \<Rightarrow> sched \<Rightarrow> bool" where
  "aged a b \<longleftrightarrow> next_job a \<le> next_job b \<and>
     (\<forall>k \<in> set (jobs b). job_id k < next_job a \<longrightarrow> (\<exists>j \<in> set (jobs a). job_later j k))"

lemma job_later_trans: "job_later i j \<Longrightarrow> job_later j k \<Longrightarrow> job_later i k"
  by (auto simp: job_later_def)

lemma job_later_refl: "job_later j j"
  by (simp add: job_later_def)

lemma aged_trans:
  assumes "aged a b" "aged b c"
  shows "aged a c"
proof -
  have "\<exists>i \<in> set (jobs a). job_later i k" if k: "k \<in> set (jobs c)" "job_id k < next_job a" for k
  proof -
    obtain j where j: "j \<in> set (jobs b)" "job_later j k"
      using assms k by (fastforce simp: aged_def)
    then obtain i where "i \<in> set (jobs a)" "job_later i j"
      using assms(1) k(2) by (auto simp: aged_def job_later_def)
    then show ?thesis using job_later_trans j(2) by blast
  qed
  then show ?thesis using assms by (auto simp: aged_def)
qed

lemma set_status_mem:
  "k \<in> set (set_status i st js) \<Longrightarrow> \<exists>j \<in> set js. k = j \<or> job_id j = i \<and> k = j\<lparr>job_status := st\<rparr>"
  by (auto simp: set_status_def split: if_splits)

lemma set_status_ids [simp]: "map job_id (set_status i st js) = map job_id js"
  by (induction js) (simp_all add: set_status_def)

lemma wf_unique:
  "sched_wf a \<Longrightarrow> j \<in> set (jobs a) \<Longrightarrow> k \<in> set (jobs a) \<Longrightarrow> job_id j = job_id k \<Longrightarrow> j = k"
  by (auto simp: sched_wf_def distinct_map dest: inj_onD)

lemma set_status_later:
  assumes "sched_wf a" "j \<in> set (jobs a)" "job_status j = Waiting"
    and "k \<in> set (set_status (job_id j) st (jobs a))"
  shows "\<exists>i \<in> set (jobs a). job_later i k"
  using set_status_mem [OF assms(4)] wf_unique [OF assms(1,2)] assms(3)
  by (fastforce simp: job_later_def)

lemma sched_step_wf:
  assumes "sched_step a l b" "sched_wf a"
  shows "sched_wf b"
  using assms
proof cases
  case (start j p)
  then show ?thesis using assms(2) by (auto simp: sched_wf_def dest!: set_status_mem)
next
  case (finish j)
  then show ?thesis using assms(2) by (auto simp: sched_wf_def dest!: set_status_mem)
qed (auto simp: sched_wf_def distinct_map_filter less_Suc_eq)

lemma sched_step_aged:
  assumes "sched_step a l b" "sched_wf a"
  shows "aged a b"
  using assms
proof cases
  case (start j p)
  then show ?thesis using set_status_later [OF assms(2)] by (simp add: aged_def)
next
  case (finish j)
  then show ?thesis using set_status_later [OF assms(2)] by (simp add: aged_def)
qed (auto simp: aged_def intro: job_later_refl)

lemma sched_run_aged:
  assumes "sched_run a ls b" "sched_wf a"
  shows "sched_wf b \<and> aged a b"
  using assms
proof (induction rule: sched_run.induct)
  case stay
  then show ?case by (auto simp: aged_def intro: job_later_refl)
next
  case (more ls b l c)
  then show ?case using sched_step_wf [of b l c] sched_step_aged [of b l c] aged_trans by blast
qed

text \<open>No job is called twice: once called, it never waits again.\<close>

lemma called_once:
  assumes "sched_run a ls b" "sched_wf a"
  shows "distinct (calls_of ls) \<and>
    (\<forall>i \<in> set (calls_of ls). i < next_job b \<and> (\<forall>j \<in> set (jobs b). job_id j = i \<longrightarrow> job_status j \<noteq> Waiting))"
  using assms
proof (induction rule: sched_run.induct)
  case stay
  then show ?case by (simp add: calls_of_def)
next
  case (more ls b l c)
  have wf: "sched_wf b" "sched_wf c" "aged b c"
    using sched_run_aged [OF more.hyps(1) more.prems] sched_step_wf [OF more.hyps(2)]
      sched_step_aged [OF more.hyps(2)] by auto
  have old: "i < next_job c \<and> (\<forall>j \<in> set (jobs c). job_id j = i \<longrightarrow> job_status j \<noteq> Waiting)"
    if "i \<in> set (calls_of ls)" for i
    using more.IH [OF more.prems] that wf(3) unfolding aged_def job_later_def
    by (metis order_less_le_trans)
  have new: "i < next_job c \<and> i \<notin> set (calls_of ls) \<and> (\<forall>j \<in> set (jobs c). job_id j = i \<longrightarrow> job_status j \<noteq> Waiting)"
    if "called_id l = Some i" for i
    using more.hyps(2) that
  proof cases
    case (start j p)
    then show ?thesis using that more.IH [OF more.prems] wf(1) by (auto simp: set_status_def sched_wf_def)
  next
    case (finish j)
    then show ?thesis using that more.IH [OF more.prems] wf(1) by (auto simp: set_status_def sched_wf_def)
  qed auto
  have "calls_of (ls @ [l]) = calls_of ls @ (case called_id l of None \<Rightarrow> [] | Some i \<Rightarrow> [i])"
    by (simp add: calls_of_def map_filter_def split: option.split)
  then show ?case using more.IH [OF more.prems] old new by (auto split: option.splits)
qed

section \<open>The daemon as a scheduler\<close>

definition job_of :: "ss_run_queue_entry \<Rightarrow> job" where
  "job_of e = \<lparr>job_id = rq_addr e, job_action = rq_action_entry e, job_argc = rq_argc e,
     job_args = rq_argv e,
     job_status = (case rq_state e of SS_STATE_INIT \<Rightarrow> Waiting
       | SS_STATE_RUNNING \<Rightarrow> Runs (forked_pid e) | SS_STATE_DONE \<Rightarrow> Finished)\<rparr>"

definition reported_dead :: "internal_msg list \<Rightarrow> int list" where
  "reported_dead ms = map im_pid (filter (\<lambda>m. im_type m = SS_CORE_ACT_CLEAR \<and> im_pid m \<noteq> -1) ms)"

definition sched_of :: "ss \<Rightarrow> sched" where
  "sched_of s = \<lparr>actions = predef_act_list s, next_job = next_addr s, jobs = map job_of (run_queue s),
     dead = reported_dead (core_pipe s)\<rparr>"

lemma sched_of_log [simp]: "sched_of (log_call c s) = sched_of s"
  by (simp add: sched_of_def)

lemma reported_dead_simps [simp]:
  "reported_dead [] = []" "reported_dead (ms @ ns) = reported_dead ms @ reported_dead ns"
  "reported_dead [\<lparr>im_type = SS_CORE_ACT_RUN, im_pid = p\<rparr>] = []" "reported_dead [clear_msg (-1)] = []"
  by (simp_all add: reported_dead_def)

lemma reported_dead_clears: "\<forall>p \<in> set ps. 0 < p \<Longrightarrow> reported_dead (map clear_msg ps) = ps"
  by (induction ps) (auto simp: reported_dead_def)

lemma sched_of_wf: "queue_shape s \<Longrightarrow> sched_wf (sched_of s)"
  by (auto simp: sched_wf_def sched_of_def queue_shape_def job_of_def comp_def)

text \<open>A state that is a run of the scheduler away from \<open>a\<close>, with the deaths of \<open>D\<close> reported.\<close>

definition scheduled :: "sched \<Rightarrow> int set \<Rightarrow> ss \<Rightarrow> bool" where
  "scheduled a D s \<longleftrightarrow> (alive s \<longrightarrow> (\<exists>ls. sched_run a ls (sched_of s) \<and> reports ls \<subseteq> D))"

lemma scheduled_same: "scheduled a D s \<Longrightarrow> (alive t \<Longrightarrow> alive s) \<Longrightarrow> sched_of t = sched_of s \<Longrightarrow> scheduled a D t"
  by (simp add: scheduled_def)

lemma scheduled_more:
  assumes "scheduled a D s" "alive t \<Longrightarrow> alive s" "sched_run (sched_of s) ls (sched_of t)" "reports ls \<subseteq> D"
  shows "scheduled a D t"
proof (cases "alive t")
  case True
  then obtain ks where "sched_run a ks (sched_of s)" "reports ks \<subseteq> D"
    using assms(1,2) by (auto simp: scheduled_def)
  then have "sched_run a (ks @ ls) (sched_of t)" "reports (ks @ ls) \<subseteq> D"
    using sched_run_append [OF assms(3)] assms(4) by auto
  then show ?thesis unfolding scheduled_def by blast
qed (simp add: scheduled_def)

interpretation scheduled: callback_safe "scheduled a D" for a D
proof (unfold_locales, goal_cases)
  case (1 s t)
  then show ?case by (auto simp: scheduled_def sched_of_def queue_part_def)
next
  case (2 s d E argc argv)
  define t where "t = exec ss_core_action_run (exec (ss_run_queue_add E d argc argv) s)"
  show ?case
  proof (cases "alive t \<and> e_ret E (trace s) (OS (Malloc 80)) \<noteq> 0")
    case True
    then have "alive s" "argc \<le> SYSMAN_MAXARG"
      by (auto simp: t_def exec_run_queue_add split: if_splits)
    moreover from this True have "sched_of t = (sched_of s)\<lparr>jobs := \<lparr>job_id = next_job (sched_of s), job_action = d,
        job_argc = argc, job_args = take (nat argc) argv, job_status = Waiting\<rparr> # jobs (sched_of s),
        next_job := Suc (next_job (sched_of s))\<rparr>"
      by (simp add: t_def exec_run_queue_add sched_of_def new_entry_def job_of_def)
    ultimately have "sched_step (sched_of s) (Submit d argc (take (nat argc) argv)) (sched_of t)"
      using sched_step.submit [of d "sched_of s" argc "take (nat argc) argv"] 2(2) by (simp add: sched_of_def)
    from scheduled_more [OF 2(1) _ sched_run_step [OF this]] \<open>alive s\<close> show ?thesis
      by (simp add: t_def)
  next
    case False
    have dead: "\<not> alive s \<Longrightarrow> \<not> alive t" by (simp add: t_def exec_run_queue_add)
    have "alive s \<Longrightarrow> e_ret E (trace s) (OS (Malloc 80)) = 0 \<Longrightarrow> sched_of t = sched_of s"
      by (simp add: t_def exec_run_queue_add sched_of_def)
    with False dead have "alive t \<longrightarrow> alive s \<and> sched_of t = sched_of s" by blast
    then have "scheduled a D t" using 2(1) by (auto simp: scheduled_def)
    then show ?thesis by (simp add: t_def)
  qed
qed

section \<open>The core loop is a run of the scheduler\<close>

lemma job_of_update:
  "map job_of (map (\<lambda>y. if rq_addr y = a then y\<lparr>rq_state := st, forked_pid := p\<rparr> else y) q) =
     set_status a (case st of SS_STATE_INIT \<Rightarrow> Waiting | SS_STATE_RUNNING \<Rightarrow> Runs p
       | SS_STATE_DONE \<Rightarrow> Finished) (map job_of q)"
  by (cases st) (simp_all add: set_status_def job_of_def)

lemma ran_scheduled:
  assumes "SS_Core.ran x ps s t" "x \<in> set (run_queue s)" "is_init x" "\<forall>p \<in> set ps. 0 < p"
    and "predef_act_list t = predef_act_list s"
  shows "\<exists>ls. sched_run (sched_of s) ls (sched_of t) \<and> reports ls = set ps"
  using assms(1)
proof (cases rule: ranE)
  case (1 p st)
  define b where "b = (sched_of s)\<lparr>dead := dead (sched_of s) @ ps\<rparr>"
  have run: "sched_run (sched_of s) (map Report ps) b"
    unfolding b_def by (rule reports_run [OF assms(4)])
  have x: "job_of x \<in> set (jobs b)" "job_status (job_of x) = Waiting" "job_id (job_of x) = rq_addr x"
  proof -
    show "job_of x \<in> set (jobs b)" using assms(2) by (simp add: b_def sched_of_def)
  qed (use assms(3) in \<open>simp_all add: job_of_def is_init_def\<close>)
  have "\<exists>l. sched_step b l (sched_of t) \<and> report_pid l = {}"
    using 1(1)
  proof
    assume r: "st = SS_STATE_RUNNING \<and> 0 < p \<and> core_pipe t = core_pipe s @ map clear_msg ps"
    then have "sched_of t = b\<lparr>jobs := set_status (rq_addr x) (Runs p) (jobs b)\<rparr>"
      using 1(2,3) assms(4,5) by (simp add: sched_of_def b_def job_of_update reported_dead_clears del: map_map)
    then show ?thesis
      using sched_step.start [OF x(1,2), of p] r x(3) by (intro exI [of _ "Start (rq_addr x) p"]) simp
  next
    assume r: "st = SS_STATE_DONE \<and> p = -1 \<and> core_pipe t = core_pipe s @ map clear_msg ps @ [clear_msg (-1)]"
    then have "sched_of t = b\<lparr>jobs := set_status (rq_addr x) Finished (jobs b)\<rparr>"
      using 1(2,3) assms(4,5) by (simp add: sched_of_def b_def job_of_update reported_dead_clears del: map_map)
    then show ?thesis
      using sched_step.finish [OF x(1,2)] x(3) by (intro exI [of _ "Finish (rq_addr x)"]) simp
  qed
  then obtain l where "sched_step b l (sched_of t)" "report_pid l = {}" by blast
  with sched_run.more [OF run] have "sched_run (sched_of s) (map Report ps @ [l]) (sched_of t)"
    "reports (map Report ps @ [l]) = set ps" by auto
  then show ?thesis by blast
qed

context loop_runner
begin

lemma scheduled_visit:
  assumes "scheduled a D s" "queue_shape s" "deaths \<subseteq> D"
  shows "scheduled a D (exec (run_visit E act e) s)"
  using assms(2)
proof (cases rule: run_visit_cases [of s e E])
  case (ran x)
  let ?t = "exec (run_visit E act e) s"
  show ?thesis
  proof (cases "alive ?t")
    case True
    then obtain ps where ps: "set ps \<subseteq> {p \<in> deaths. 0 < p}" "SS_Core.ran x ps s ?t"
      using core_action_ran [of E x s] ran(4) by auto
    have "predef_act_list ?t = predef_act_list s"
      using frameD [OF frame_run_visit, of E e s] by (simp add: queued_actions_def)
    then obtain ls where "sched_run (sched_of s) ls (sched_of ?t)" "reports ls = set ps"
      using ran_scheduled [OF ps(2) ran(1,3)] ps(1) by blast
    then show ?thesis
      using ps(1) assms(3) obeys_halt_alive [OF run_visit_stops]
      by (intro scheduled_more [OF assms(1)]) auto
  qed (simp add: scheduled_def)
next
  case same
  then show ?thesis using assms(1) by simp
qed

lemma scheduled_visits:
  assumes "scheduled a D s" "alive s \<longrightarrow> queue_shape s" "deaths \<subseteq> D"
  shows "scheduled a D (fold (\<lambda>e. exec (run_visit E act e)) es s)"
  using assms(1,2)
proof (induction es arbitrary: s)
  case Nil
  then show ?case by simp
next
  case (Cons e es)
  let ?t = "exec (run_visit E act e) s"
  show ?case
  proof (cases "alive s")
    case True
    then have "scheduled a D ?t" "alive ?t \<longrightarrow> queue_shape ?t"
      using scheduled_visit [OF Cons.prems(1) _ assms(3)] shape_visit Cons.prems(2) by auto
    then show ?thesis using Cons.IH by simp
  next
    case False
    then have "?t = s" by (rule obeys_haltD [OF run_visit_stops])
    then show ?thesis using Cons by simp
  qed
qed

text \<open>A CLEAR message of a pid reaps, the one of \<open>-1\<close> collects what is finished.\<close>

lemma scheduled_clear:
  assumes "scheduled a D s" "daemon_inv s" "alive s" "core_pipe s = clear_msg p # ms"
  shows "scheduled a D (s\<lparr>core_pipe := ms, run_queue := filter (\<lambda>e. forked_pid e \<noteq> p) (run_queue s)\<rparr>)"
    (is "scheduled a D ?t")
proof -
  have inv: "p = -1 \<or> 0 < p"
    "\<And>e. e \<in> set (run_queue s) \<Longrightarrow> entry_ok (rq_state e) (forked_pid e) (run_pending s) (clear_pending s)"
    using assms(2-4) by (auto simp: daemon_inv_def queue_inv_def queue_shape_def entries_ok_def msg_ok_def)
  have st: "forked_pid e \<noteq> p \<longleftrightarrow> job_status (job_of e) \<noteq> (if p = -1 then Finished else Runs p)"
    if "e \<in> set (run_queue s)" for e
    using inv(2) [OF that] inv(1) by (cases "rq_state e") (auto simp: job_of_def)
  have keep: "map job_of (filter (\<lambda>e. forked_pid e \<noteq> p) (run_queue s)) =
      filter (\<lambda>j. job_status j \<noteq> (if p = -1 then Finished else Runs p)) (map job_of (run_queue s))"
    using st by (simp add: filter_map comp_def cong: filter_cong)
  have "\<exists>l. sched_step (sched_of s) l (sched_of ?t) \<and> report_pid l = {}"
  proof (cases "p = -1")
    case True
    then have "sched_of ?t = (sched_of s)\<lparr>jobs := filter (\<lambda>j. job_status j \<noteq> Finished) (jobs (sched_of s))\<rparr>"
      using keep assms(4) by (simp add: sched_of_def reported_dead_def)
    then show ?thesis using sched_step.collect [of "sched_of s"] by (intro exI [of _ Collect]) simp
  next
    case False
    then have d: "dead (sched_of s) = p # reported_dead ms"
      using assms(4) by (simp add: sched_of_def reported_dead_def)
    have "sched_of ?t = (sched_of s)\<lparr>dead := reported_dead ms,
        jobs := filter (\<lambda>j. job_status j \<noteq> Runs p) (jobs (sched_of s))\<rparr>"
      using keep False by (simp add: sched_of_def)
    then show ?thesis using sched_step.reap [OF d] by (intro exI [of _ "Reap p"]) simp
  qed
  then obtain l where "sched_step (sched_of s) l (sched_of ?t)" "report_pid l = {}" by blast
  then show ?thesis
    using assms(3) by (intro scheduled_more [OF assms(1) _ sched_run_step [of _ l]]) auto
qed

end

context loop_runner
begin

lemma scheduled_pipe:
  assumes "scheduled a D s" "daemon_inv s" "alive s" "core_pipe s \<noteq> []" "deaths \<subseteq> D"
  shows "scheduled a D (exec (core_pipe_cb E act) s)"
proof (cases "e_ret E (trace s) (ECORE Fd_handler_active) = 0")
  case True
  then show ?thesis using assms(1,4) by (simp add: exec_core_pipe_cb)
next
  case False
  obtain m ms where p: "core_pipe s = m # ms" using assms(4) by (cases "core_pipe s") auto
  define u where "u = log_call (ECORE Fd_handler_active) s"
  have u: "scheduled a D u" "daemon_inv u" "alive u" "core_pipe u = m # ms"
    using assms(1-3) p by (simp_all add: u_def)
  show ?thesis
  proof (cases "im_type m")
    case SS_CORE_ACT_RUN
    define v where "v = u\<lparr>core_pipe := ms\<rparr>"
    have "sched_of v = sched_of u" using u(4) SS_CORE_ACT_RUN by (simp add: v_def sched_of_def reported_dead_def)
    then have "scheduled a D v" using u(1,3) by (simp add: scheduled_def)
    moreover have "queue_shape v"
      using u(2-4) by (simp add: v_def daemon_inv_def queue_inv_def queue_shape_def)
    ultimately have "scheduled a D (exec (ss_run_queue_run SS_STATE_INIT (core_action_run E act)) v)"
      unfolding exec_run_init by (intro scheduled_visits assms(5)) auto
    then show ?thesis
      using False p SS_CORE_ACT_RUN assms(3) by (simp add: exec_core_pipe_cb u_def v_def)
  next
    case SS_CORE_ACT_CLEAR
    then have "m = clear_msg (im_pid m)" by (cases m) simp
    with scheduled_clear [OF u(1-3), of "im_pid m" ms] u(4) show ?thesis
      using False p SS_CORE_ACT_CLEAR assms(3) by (simp add: exec_core_pipe_cb u_def)
  qed
qed

end

lemma scheduled_sigchld:
  assumes "scheduled a D s" "alive s" "0 < p" "p \<in> D"
  shows "scheduled a D (exec (sig_child_handler E p) s)"
proof (cases "e_ret E (trace s) (OS (Waitpid p)) = -1")
  case True
  then show ?thesis using assms(1) by (simp add: sig_child_handler_def)
next
  case False
  let ?t = "exec (sig_child_handler E p) s"
  have "sched_of ?t = (sched_of s)\<lparr>dead := dead (sched_of s) @ [p]\<rparr>"
    using False assms(2,3) by (simp add: sig_child_handler_def sched_of_def reported_dead_def)
  then have "sched_step (sched_of s) (Report p) (sched_of ?t)"
    using sched_step.report [OF assms(3)] by metis
  then show ?thesis
    using assms(2,4) by (intro scheduled_more [OF assms(1) _ sched_run_step]) auto
qed

lemma scheduled_step:
  assumes "scheduled a D s" "daemon_inv s" "daemon_step E s ev t" "deaths_in ev \<subseteq> D"
  shows "scheduled a D t"
proof -
  have al: "alive s" and en: "enabled s ev" and t: "t = exec (handle E ev) s"
    using assms(3) by (auto simp: daemon_step_iff)
  consider (pipe) "ev = Pipe_readable" | (interrupted) sig where "ev = Pipe_interrupted sig"
    | (child) p where "ev = Sigchld p" | (other) "\<not> of_core ev"
    by (cases ev) auto
  then show ?thesis
  proof cases
    case pipe
    then show ?thesis using daemon.scheduled_pipe [OF assms(1,2) al] en t by simp
  next
    case interrupted
    then show ?thesis using signalled.scheduled_pipe [OF assms(1,2) al] assms(4) en t by simp
  next
    case child
    then show ?thesis using scheduled_sigchld [OF assms(1) al] assms(4) en t by simp
  next
    case other
    then show ?thesis unfolding t using presD [OF scheduled.pres_handle [OF other] assms(1)] by simp
  qed
qed

text \<open>Every run of the daemon is a run of the scheduler that reports only deaths the kernel reported.\<close>

lemma scheduled_run:
  assumes "daemon_run E s evs t" "daemon_inv s"
  shows "scheduled (sched_of s) (\<Union>ev \<in> set evs. deaths_in ev) t"
proof -
  have "\<Union>(deaths_in ` set evs) \<subseteq> D \<Longrightarrow> scheduled (sched_of s) D t" for D
    using assms
  proof (induction rule: daemon_run.induct)
    case stay
    then show ?case by (auto simp: scheduled_def intro: exI [of _ "[]"] sched_run.stay)
  next
    case (more evs t ev u)
    then show ?case using scheduled_step [of "sched_of s" D t E ev u] daemon_inv_run by auto
  qed
  then show ?thesis by blast
qed

lemma daemon_run_alive: "daemon_run E s evs t \<Longrightarrow> alive t \<Longrightarrow> alive s"
  by (induction rule: daemon_run.induct) (auto simp: daemon_step_iff)

lemma daemon_schedules:
  assumes "daemon_run E s evs t" "daemon_inv s" "alive t"
  shows "\<exists>ls. sched_run (sched_of s) ls (sched_of t) \<and>
    reports ls \<subseteq> (\<Union>ev \<in> set evs. deaths_in ev) \<and> distinct (calls_of ls) \<and> aged (sched_of s) (sched_of t)"
proof -
  obtain ls where ls: "sched_run (sched_of s) ls (sched_of t)" "reports ls \<subseteq> (\<Union>ev \<in> set evs. deaths_in ev)"
    using scheduled_run [OF assms(1,2)] assms(3) by (auto simp: scheduled_def)
  have "sched_wf (sched_of s)"
    using daemon_run_alive [OF assms(1,3)] assms(2)
    by (intro sched_of_wf) (simp add: daemon_inv_def queue_inv_def)
  then show ?thesis using ls called_once [OF ls(1)] sched_run_aged [OF ls(1)] by blast
qed

section \<open>A reported death frees its entry\<close>

text \<open>The entry at \<open>a\<close>, as long as it is there, runs \<open>p\<close>, and the message that frees it is under way.\<close>

definition doomed :: "nat \<Rightarrow> int \<Rightarrow> ss \<Rightarrow> bool" where
  "doomed a p s \<longleftrightarrow> (\<forall>e \<in> set (run_queue s). rq_addr e = a \<longrightarrow>
     rq_state e = SS_STATE_RUNNING \<and> forked_pid e = p \<and> clear_msg p \<in> set (core_pipe s))"

lemma ran_doomed:
  assumes "SS_Core.ran x ps s t" "doomed a p s" "x \<in> set (run_queue s)" "is_init x"
  shows "doomed a p t"
  using assms(1)
proof (cases rule: ranE)
  case (1 q st)
  have "rq_addr x \<noteq> a" using assms(2-4) by (auto simp: doomed_def is_init_def)
  moreover have "set (core_pipe s) \<subseteq> set (core_pipe t)" using 1(1) by auto
  ultimately show ?thesis using assms(2) unfolding doomed_def 1(2) by auto
qed

context loop_runner
begin

lemma doomed_visit:
  assumes "doomed a p s" "queue_shape s" "alive (exec (run_visit E act e) s)"
  shows "doomed a p (exec (run_visit E act e) s)"
  using assms(2)
proof (cases rule: run_visit_cases [of s e E])
  case (ran x)
  then obtain ps where "SS_Core.ran x ps s (exec (run_visit E act e) s)"
    using core_action_ran [of E x s] assms(3) by auto
  then show ?thesis using ran_doomed assms(1) ran(1,3) by blast
next
  case same
  then show ?thesis using assms(1) by simp
qed

lemma doomed_visits:
  assumes "doomed a p s" "queue_shape s" "alive (fold (\<lambda>e. exec (run_visit E act e)) es s)"
  shows "doomed a p (fold (\<lambda>e. exec (run_visit E act e)) es s)"
  using assms
proof (induction es arbitrary: s)
  case Nil
  then show ?case by simp
next
  case (Cons e es)
  let ?t = "exec (run_visit E act e) s"
  have "obeys_halt (for_each (run_visit E act) es)" by (intro stops run_visit_stops)
  then have "alive ?t"
    using Cons.prems(3) obeys_halt_alive [of "for_each (run_visit E act) es" ?t] by (simp add: exec_for_each)
  then show ?case
    using Cons.IH [of ?t] Cons.prems doomed_visit [of a p s E e] shape_visit [of s E e] by simp
qed

lemma doomed_pipe:
  assumes "doomed a p s" "daemon_inv s" "alive (exec (core_pipe_cb E act) s)"
  shows "doomed a p (exec (core_pipe_cb E act) s)"
proof (cases "e_ret E (trace s) (ECORE Fd_handler_active) = 0 \<or> core_pipe s = []")
  case True
  then show ?thesis using assms(1) by (auto simp: exec_core_pipe_cb doomed_def Let_def split: list.splits)
next
  case False
  have al: "alive s" using obeys_halt_alive [OF core_pipe_cb_stops assms(3)] .
  obtain m ms where p: "core_pipe s = m # ms" using False by (cases "core_pipe s") auto
  define u where "u = (log_call (ECORE Fd_handler_active) s)\<lparr>core_pipe := ms\<rparr>"
  show ?thesis
  proof (cases "im_type m")
    case SS_CORE_ACT_RUN
    have "queue_shape s" using assms(2) al by (simp add: daemon_inv_def queue_inv_def)
    then have "queue_shape u" "doomed a p u"
      using assms(1) p SS_CORE_ACT_RUN by (auto simp: u_def queue_shape_def doomed_def)
    moreover have "exec (core_pipe_cb E act) s = fold (\<lambda>e. exec (run_visit E act e)) (run_queue u) u"
      using False p SS_CORE_ACT_RUN al by (simp add: exec_core_pipe_cb exec_run_init u_def Let_def)
    ultimately show ?thesis using doomed_visits assms(3) by simp
  next
    case SS_CORE_ACT_CLEAR
    then show ?thesis
      using False p al assms(1) by (cases m) (auto simp: exec_core_pipe_cb doomed_def Let_def)
  qed
qed

end

context runner
begin

lemma doomed_freed:
  assumes "doomed a p s" "daemon_inv s" "\<And>h. e_ret E h (ECORE Fd_handler_active) \<noteq> 0" "work s \<le> n"
    and "alive (pipe_callbacks E act n s)"
  shows "\<forall>e \<in> set (run_queue (pipe_callbacks E act n s)). rq_addr e \<noteq> a"
proof -
  have "alive (pipe_callbacks E act n s) \<Longrightarrow> doomed a p (pipe_callbacks E act n s)" for n
    using assms(1,2)
  proof (induction n arbitrary: s)
    case 0
    then show ?case by simp
  next
    case (Suc n)
    let ?t = "exec (core_pipe_cb E act) s"
    have "core_pipe s \<noteq> [] \<Longrightarrow> alive ?t"
      using Suc.prems(1) pipe_callbacks_dead [of ?t E n] by (cases "alive ?t") simp_all
    then show ?case
      using Suc.IH [of ?t] Suc.prems doomed_pipe [of a p s E] presD [OF pres_daemon_pipe, of s E] by auto
  qed
  from this [of n] have "doomed a p (pipe_callbacks E act n s)" using assms(5) by blast
  moreover have "core_pipe (pipe_callbacks E act n s) = []"
    using pipe_callbacks_drain [OF _ assms(3-5)] assms(2) by (simp add: daemon_inv_def)
  ultimately show ?thesis by (auto simp: doomed_def)
qed

end

end
