(* ===== verification/SS_Programs.thy ===== *)
theory SS_Programs
  imports SS_Device
begin

text \<open>
  The programs built beside the daemon: \<open>sys_device_noti\<close>, which the daemon starts to show
  and play what the battery does, \<open>restart\<close> and \<open>sys_event\<close>.  Each runs as a process of its
  own: the state here is that process.
\<close>

section \<open>sys_device_noti\<close>

text \<open>
  One call on the notification and its error branch, which the code repeats for each:
  the handle is freed and the result is -1 whether freeing works or not.
\<close>

definition noti_step :: "env \<Rightarrow> notif_call \<Rightarrow> (ss, int) state \<Rightarrow> (ss, int) state" where
  "noti_step E c next = do {
     noti_err \<leftarrow> call E (SOUND (Notification c));
     if noti_err \<noteq> konst E K_NOTIFICATION_ERROR_NONE then do {
       call E (SOUND (Notification Notification_free));
       return (-1)
     } else next
   }"

definition BATTERY_FULL_ICON_PATH :: string where
  "BATTERY_FULL_ICON_PATH = ''/usr/share/system-server/sys_device_noti/batt_full_icon.png''"

fun noti_steps :: "env \<Rightarrow> notif_call list \<Rightarrow> (ss, int) state \<Rightarrow> (ss, int) state" where
  "noti_steps E [] next = next"
| "noti_steps E (c # cs) next = noti_step E c (noti_steps E cs next)"

definition full_before_time :: "notif_call list" where
  "full_before_time =
     [Set_text ''TITLE'' ''Battery fully charged'', Set_text ''CONTENT'' ''Unplug charger'',
      Set_text ''CONTENT_FOR_DISPLAY_OPTION_IS_OFF'' ''Unplug charger'']"

definition full_after_time :: "int \<Rightarrow> notif_call list" where
  "full_after_time t =
     [Set_time t, Set_image BATTERY_FULL_ICON_PATH, Set_property, Set_display_applist,
      Notification_insert]"

definition show_full :: "env \<Rightarrow> (ss, int) state" where
  "show_full E = do {
     noti_err \<leftarrow> call E (SOUND (Notification Notification_free));
     if noti_err \<noteq> konst E K_NOTIFICATION_ERROR_NONE then return (-1)
     else do { call E (PM (Change_state LCD_NORMAL)); return 0 }
   }"

definition battery_full_noti :: "env \<Rightarrow> int \<Rightarrow> (ss, int) state" where
  "battery_full_noti E bNoti =
     (if bNoti = 1 then do {
        call E (SOUND (Notification Delete_all_by_type));
        noti \<leftarrow> call E (SOUND (Notification Notification_new));
        if noti = 0 then return (-1)
        else noti_steps E full_before_time (do {
          t \<leftarrow> call E (OS Time);
          noti_steps E (full_after_time t) (show_full E)
        })
      } else do {
        call E (SOUND (Notification Delete_all_by_type));
        return 0
      })"

definition play :: "env \<Rightarrow> int \<Rightarrow> int \<Rightarrow> (ss, unit) state" where
  "play E vib sound = do {
     (r, handle) \<leftarrow> call_out E (SOUND Svi_init) 0;
     if r \<noteq> konst E K_SVI_SUCCESS then return ()
     else do {
       call E (SOUND (Svi_play handle vib sound));
       call E (SOUND (Svi_fini handle));
       return ()
     }
   }"

text \<open>\<open>main\<close>; the arguments include the name of the program.\<close>

definition sys_device_noti :: "env \<Rightarrow> string list \<Rightarrow> (ss, int) state" where
  "sys_device_noti E args = do {
     bNoti \<leftarrow> (if length args = 3 then do { a \<leftarrow> deref (argv_at (map Some args) 2); return (atoi a) }
              else return (-1));
     a \<leftarrow> deref (argv_at (map Some args) 1);
     let cb_type = atoi a;
     if cb_type = CB_NOTI_BATT_CHARGE then do {
       play E (konst E K_SVI_VIB_OPERATION_CHARGERCONN) (konst E K_SVI_SND_OPERATION_CHARGERCONN);
       return 0
     } else if cb_type = CB_NOTI_BATT_FULL then do {
       battery_full_noti E bNoti;
       (if 1 = bNoti
        then play E (konst E K_SVI_VIB_OPERATION_FULLCHARGED) (konst E K_SVI_SND_OPERATION_FULLCHARGED)
        else return ());
       return 0
     } else do {
       play E (-1) (-1);
       return 0
     }
   }"

section \<open>restart and sys_event\<close>

definition restart_main :: "env \<Rightarrow> (ss, int) state" where
  "restart_main E = do {
     call E (OS (System ''/etc/rc.d/rc.shutdown &''));
     call E (OS (Kill (-1) SIGTERM));
     call E (OS (Sleep 1));
     call E (OS Sync);
     r \<leftarrow> call E (OS (Reboot RB_AUTOBOOT));
     (if r = -1 then return () else halt (Rebooted RB_AUTOBOOT));
     return 0
   }"

definition sys_event :: "env \<Rightarrow> string list \<Rightarrow> (ss, int) state" where
  "sys_event E args =
     (if length args \<noteq> 2 then return (-1)
      else do {
        a \<leftarrow> deref (argv_at (map Some args) 1);
        call E (HEYNOTI (Publish a));
        return 0
      })"

section \<open>Properties\<close>

definition free_call :: ecall where
  "free_call = SOUND (Notification Notification_free)"

definition insert_call :: ecall where
  "insert_call = SOUND (Notification Notification_insert)"

text \<open>Among the calls \<open>h\<close>, made after \<open>k\<close>, is an insertion that succeeded.\<close>

definition inserted :: "env \<Rightarrow> hist \<Rightarrow> hist \<Rightarrow> bool" where
  "inserted E h k \<longleftrightarrow> (\<exists>h1 h2. h = h1 @ insert_call # h2 \<and>
     e_ret E (h2 @ k) insert_call = konst E K_NOTIFICATION_ERROR_NONE)"

lemma inserted_now:
  "e_ret E k insert_call = konst E K_NOTIFICATION_ERROR_NONE \<Longrightarrow> inserted E (h @ [insert_call]) k"
  unfolding inserted_def by (intro exI [of _ h] exI [of _ "[]"]) simp

lemma inserted_later: "inserted E h (c # k) \<Longrightarrow> inserted E (h @ [c]) k"
  unfolding inserted_def by force

text \<open>A computation frees the notification once, and succeeds only if it has been inserted.\<close>

definition frees_once :: "env \<Rightarrow> bool \<Rightarrow> (ss, int) state \<Rightarrow> bool" where
  "frees_once E b m \<longleftrightarrow> (\<forall>s. alive s \<longrightarrow>
     (\<exists>h. trace (exec m s) = h @ trace s \<and> count_list h free_call = 1 \<and>
        (result m s = 0 \<longrightarrow> b \<or> inserted E h (trace s))))"

lemma frees_onceD:
  "frees_once E b m \<Longrightarrow> alive s \<Longrightarrow> \<exists>h. trace (exec m s) = h @ trace s \<and> count_list h free_call = 1 \<and>
     (result m s = 0 \<longrightarrow> b \<or> inserted E h (trace s))"
  by (simp add: frees_once_def)

lemma frees_step:
  assumes "frees_once E (b \<or> c = Notification_insert) next" "c \<noteq> Notification_free"
  shows "frees_once E b (noti_step E c next)"
  unfolding frees_once_def
proof (intro allI impI)
  fix s assume al: "alive s"
  let ?c = "SOUND (Notification c)"
  have c: "?c \<noteq> free_call" "?c = insert_call \<longleftrightarrow> c = Notification_insert"
    using assms(2) by (simp_all add: free_call_def insert_call_def)
  show "\<exists>h. trace (exec (noti_step E c next) s) = h @ trace s \<and> count_list h free_call = 1 \<and>
      (result (noti_step E c next) s = 0 \<longrightarrow> b \<or> inserted E h (trace s))"
  proof (cases "e_ret E (trace s) ?c \<noteq> konst E K_NOTIFICATION_ERROR_NONE")
    case True
    then show ?thesis using al c
      by (intro exI [of _ "[free_call, ?c]"]) (simp add: noti_step_def free_call_def)
  next
    case False
    obtain h where "trace (exec next (log_call ?c s)) = h @ trace (log_call ?c s)" "count_list h free_call = 1"
      "result next (log_call ?c s) = 0 \<longrightarrow> (b \<or> c = Notification_insert) \<or> inserted E h (?c # trace s)"
      using frees_onceD [OF assms(1), of "log_call ?c s"] al by auto
    moreover have "c = Notification_insert \<Longrightarrow> inserted E (h @ [?c]) (trace s)"
      using inserted_now [of E "trace s" h] False by (simp add: insert_call_def)
    moreover note inserted_later [of E h ?c "trace s"]
    ultimately show ?thesis using False al c(1)
      by (intro exI [of _ "h @ [?c]"]) (auto simp: noti_step_def)
  qed
qed

lemma frees_steps:
  "frees_once E (b \<or> Notification_insert \<in> set cs) next \<Longrightarrow> Notification_free \<notin> set cs \<Longrightarrow>
    frees_once E b (noti_steps E cs next)"
proof (induction cs arbitrary: b)
  case Nil
  then show ?case by simp
next
  case (Cons c cs)
  have "frees_once E (b \<or> c = Notification_insert) (noti_steps E cs next)"
    using Cons.IH [of "b \<or> c = Notification_insert"] Cons.prems by (auto simp: disj_assoc eq_commute)
  moreover have "c \<noteq> Notification_free" using Cons.prems(2) by auto
  ultimately show ?case using frees_step by simp
qed

lemma frees_show_full: "frees_once E True (show_full E)"
  unfolding frees_once_def
proof (intro allI impI)
  fix s assume al: "alive s"
  show "\<exists>h. trace (exec (show_full E) s) = h @ trace s \<and> count_list h free_call = 1 \<and>
      (result (show_full E) s = 0 \<longrightarrow> True \<or> inserted E h (trace s))"
  proof (cases "e_ret E (trace s) free_call \<noteq> konst E K_NOTIFICATION_ERROR_NONE")
    case True
    then show ?thesis using al
      by (intro exI [of _ "[free_call]"]) (simp add: show_full_def free_call_def)
  next
    case False
    then show ?thesis using al
      by (intro exI [of _ "[PM (Change_state LCD_NORMAL), free_call]"]) (simp add: show_full_def free_call_def)
  qed
qed

lemma frees_time: "(\<And>t. frees_once E b (f t)) \<Longrightarrow> frees_once E b (do { t \<leftarrow> call E (OS Time); f t })"
  unfolding frees_once_def
proof (intro allI impI)
  fix s assume f: "\<And>t. \<forall>s. alive s \<longrightarrow> (\<exists>h. trace (exec (f t) s) = h @ trace s \<and>
      count_list h free_call = 1 \<and> (result (f t) s = 0 \<longrightarrow> b \<or> inserted E h (trace s)))" and al: "alive s"
  let ?t = "e_ret E (trace s) (OS Time)"
  obtain h where "trace (exec (f ?t) (log_call (OS Time) s)) = h @ trace (log_call (OS Time) s)"
      "count_list h free_call = 1" "result (f ?t) (log_call (OS Time) s) = 0 \<longrightarrow> b \<or> inserted E h (OS Time # trace s)"
    using f [THEN spec, THEN mp, of "log_call (OS Time) s" ?t] al by auto
  with al show "\<exists>h. trace (exec (do { t \<leftarrow> call E (OS Time); f t }) s) = h @ trace s \<and>
      count_list h free_call = 1 \<and>
      (result (do { t \<leftarrow> call E (OS Time); f t }) s = 0 \<longrightarrow> b \<or> inserted E h (trace s))"
    by (intro exI [of _ "h @ [OS Time]"]) (auto simp: free_call_def intro: inserted_later)
qed

lemma frees_full:
  "frees_once E False (noti_steps E full_before_time (do {
     t \<leftarrow> call E (OS Time);
     noti_steps E (full_after_time t) (show_full E)
   }))"
  by (intro frees_steps frees_time)
    (simp_all add: full_before_time_def full_after_time_def frees_show_full)

text \<open>
  C36: On every path through the display of the battery-full notification, whichever of
  the calls fails, the notification is freed exactly once if it was created and not at all if
  it was not, and success is reported only if the call that inserts it has succeeded.
\<close>

theorem full_notification_freed_once:
  fixes E s
  assumes "alive s"
  defines "noti \<equiv> e_ret E (SOUND (Notification Delete_all_by_type) # trace s) (SOUND (Notification Notification_new))"
    and "m \<equiv> battery_full_noti E 1"
  shows "\<exists>h. trace (exec m s) = h @ trace s \<and> count_list h free_call = (if noti = 0 then 0 else 1) \<and>
    (result m s = 0 \<longrightarrow> inserted E h (trace s))"
proof (cases "noti = 0")
  case True
  then show ?thesis using assms(1)
    by (intro exI [of _ "[SOUND (Notification Notification_new), SOUND (Notification Delete_all_by_type)]"])
      (simp add: m_def battery_full_noti_def noti_def free_call_def)
next
  case False
  define u where "u = log_call (SOUND (Notification Notification_new)) (log_call (SOUND (Notification Delete_all_by_type)) s)"
  define body where "body = noti_steps E full_before_time (do {
     t \<leftarrow> call E (OS Time);
     noti_steps E (full_after_time t) (show_full E)
   })"
  have run: "exec m s = exec body u" "result m s = result body u"
    using False assms(1) by (simp_all add: m_def battery_full_noti_def noti_def u_def body_def)
  obtain h where "trace (exec body u) = h @ trace u" "count_list h free_call = 1"
    "result body u = 0 \<longrightarrow> inserted E h (trace u)"
    using frees_onceD [OF frees_full [of E], of u] assms(1) by (auto simp: u_def body_def)
  moreover have "inserted E h (trace u) \<Longrightarrow>
      inserted E (h @ [SOUND (Notification Notification_new), SOUND (Notification Delete_all_by_type)]) (trace s)"
    using inserted_later [of E h] inserted_later [of E "h @ [SOUND (Notification Notification_new)]"] assms(1)
    by (simp add: u_def)
  ultimately show ?thesis using False assms(1) run
    by (intro exI [of _ "h @ [SOUND (Notification Notification_new), SOUND (Notification Delete_all_by_type)]"])
      (simp add: u_def free_call_def)
qed

definition noti_env :: env where
  "noti_env = env1\<lparr>e_ret := \<lambda>h c. if c = SOUND (Notification Notification_new) then 1 else 0\<rparr>"

lemma full_notification_freed_once_witness:
  "\<exists>h. trace (exec (battery_full_noti noti_env 1) boot) = h @ trace boot \<and> count_list h free_call = 1"
  using full_notification_freed_once [of boot noti_env] by (auto simp: boot_def alive_def noti_env_def)

text \<open>Numbers have no quotes and no spaces.\<close>

lemma show_int_chars: "c \<in> set (show_int i) \<Longrightarrow> c = CHR ''-'' \<or> isdigit c"
  by (auto simp: show_int_def dest: show_nat_digits split: if_splits)

lemma show_int_plain: "c \<in> set (show_int i) \<Longrightarrow> plain_char c" "CHR '' '' \<notin> set (show_int i)"
proof -
  have d: "isdigit c \<Longrightarrow> plain_char c \<and> c \<noteq> CHR '' ''" for c
    by (auto simp: plain_char_def isdigit_def chr_code_def)
  then show "c \<in> set (show_int i) \<Longrightarrow> plain_char c"
    using show_int_chars [of c i] by (auto simp: plain_char_def)
  show "CHR '' '' \<notin> set (show_int i)" using show_int_chars [of "CHR '' ''" i] d by auto
qed

lemma program_plain: "c \<in> set SYS_DEVICE_NOTI \<Longrightarrow> plain_char c" "CHR '' '' \<notin> set SYS_DEVICE_NOTI"
  "SYS_DEVICE_NOTI \<noteq> []"
  by (auto simp: SYS_DEVICE_NOTI_def plain_char_def)

lemma args_of_command:
  assumes "\<forall>c \<in> set arg. plain_char c" "length (fields [] arg) < 255"
  shows "parse_args (MAX_ARGS + 1) (SYS_DEVICE_NOTI @ '' '' @ arg) = SYS_DEVICE_NOTI # fields [] arg"
proof -
  have "\<forall>c \<in> set (SYS_DEVICE_NOTI @ arg). plain_char c" using assms(1) program_plain(1) by auto
  from all_args_command [OF program_plain(3,2) this] show ?thesis
    using assms(2) by (simp add: parse_args_all MAX_ARGS_def)
qed

lemma fields_ints:
  "fields [] (show_int i) = [show_int i]"
  "fields [] (show_int i @ '' '' @ show_int j) = [show_int i, show_int j]"
  using fields_no_space [OF show_int_plain(2), of "[]" i "[]"]
    fields_no_space [OF show_int_plain(2), of "[]" j "[]"]
    fields_no_space [OF show_int_plain(2), of "[]" i "'' '' @ show_int j"]
  by simp_all

text \<open>
  The event and the switch the daemon writes on the command line come back in the
  notification program as the same numbers: cut into arguments by the launcher, the line for
  a charger makes it play the charger sound, and the line for a full battery shows or
  removes the notification as the daemon said and plays the full-charge sound when it is shown.
\<close>

theorem device_noti_round_trip:
  assumes "is_int32 onoff"
  shows "sys_device_noti E (parse_args (MAX_ARGS + 1) (SYS_DEVICE_NOTI @ '' '' @ show_int CB_NOTI_BATT_CHARGE)) =
      do { play E (konst E K_SVI_VIB_OPERATION_CHARGERCONN) (konst E K_SVI_SND_OPERATION_CHARGERCONN); return 0 } \<and>
    sys_device_noti E (parse_args (MAX_ARGS + 1)
        (SYS_DEVICE_NOTI @ '' '' @ show_int CB_NOTI_BATT_FULL @ '' '' @ show_int onoff)) =
      do { battery_full_noti E onoff;
           (if onoff = 1
            then play E (konst E K_SVI_VIB_OPERATION_FULLCHARGED) (konst E K_SVI_SND_OPERATION_FULLCHARGED)
            else return ());
           return 0 }"
proof
  have n: "is_int32 CB_NOTI_BATT_CHARGE" "is_int32 CB_NOTI_BATT_FULL" "CB_NOTI_BATT_FULL \<noteq> CB_NOTI_BATT_CHARGE"
    by (simp_all add: CB_NOTI_BATT_CHARGE_def CB_NOTI_BATT_FULL_def is_int32_def INT_MAX_def INT_MIN_def)
  have p: "\<forall>c \<in> set (show_int i). plain_char c" "\<forall>c \<in> set (show_int i @ '' '' @ show_int j). plain_char c" for i j
    using show_int_plain(1) by (auto simp: plain_char_def)
  show "sys_device_noti E (parse_args (MAX_ARGS + 1) (SYS_DEVICE_NOTI @ '' '' @ show_int CB_NOTI_BATT_CHARGE)) =
      do { play E (konst E K_SVI_VIB_OPERATION_CHARGERCONN) (konst E K_SVI_SND_OPERATION_CHARGERCONN); return 0 }"
    using args_of_command [OF p(1)] n by (simp add: fields_ints sys_device_noti_def argv_at_def deref_def)
  show "sys_device_noti E (parse_args (MAX_ARGS + 1)
        (SYS_DEVICE_NOTI @ '' '' @ show_int CB_NOTI_BATT_FULL @ '' '' @ show_int onoff)) =
      do { battery_full_noti E onoff;
           (if onoff = 1
            then play E (konst E K_SVI_VIB_OPERATION_FULLCHARGED) (konst E K_SVI_SND_OPERATION_FULLCHARGED)
            else return ());
           return 0 }"
    using args_of_command [OF p(2)] n assms
    by (simp add: fields_ints [simplified] sys_device_noti_def argv_at_def deref_def eq_commute [of 1])
qed

lemma device_noti_round_trip_witness:
  "sys_device_noti env1 (parse_args (MAX_ARGS + 1) (SYS_DEVICE_NOTI @ '' '' @ show_int CB_NOTI_BATT_FULL @ '' '' @ show_int 0)) =
    do { battery_full_noti env1 0; return (); return 0 }"
proof -
  have "is_int32 0" by (simp add: is_int32_def INT_MAX_def INT_MIN_def)
  from device_noti_round_trip [OF this, of env1] show ?thesis by simp
qed

end
