(* ===== verification/SS_Isolation.thy ===== *)
theory SS_Isolation
  imports SS_Main
begin

text \<open>
  Which part of the daemon may touch which variables.  A property of the battery, memory or
  frequency variables, of the frequencies written to the hardware or of the status of the card
  is kept by every handler that is not of the component that owns what it reads.
\<close>

section \<open>Onlookers\<close>

named_theorems quiet "a computation of another component keeps the observed property"

text \<open>The calls that set a bound of the CPU frequency or publish the state of the card.\<close>

definition own_call :: "ecall \<Rightarrow> bool" where
  "own_call c \<longleftrightarrow> (\<exists>v. c = OEM (Put OEM_scaling_max_freq v) \<or> c = OEM (Put OEM_scaling_min_freq v) \<or>
     c = VCONF (Set_int VK_MMC_STATUS v))"

lemma pres_case_list:
  "pres I m \<Longrightarrow> (\<And>x xs. pres I (g x xs)) \<Longrightarrow> pres I (case l of [] \<Rightarrow> m | x # xs \<Rightarrow> g x xs)"
  by (simp split: list.split)

lemmas quiet_control [quiet] = pres_return pres_bind pres_getv pres_reads pres_if pres_case_prod
  pres_case_option pres_case_list pres_let pres_for_each

text \<open>A process that is dead does nothing.\<close>

lemma pres_alive:
  assumes "obeys_halt m" "\<And>s. alive s \<Longrightarrow> I s \<Longrightarrow> I (exec m s)"
  shows "pres I m"
proof -
  have "I (exec m s)" if "I s" for s
    using assms(2) [of s] obeys_haltD [OF assms(1), of s] that by (cases "alive s") auto
  then show ?thesis by (simp add: pres_def)
qed

text \<open>What the computations that do not touch the queue, the table and the pipe keep.\<close>

locale onlooker =
  fixes I :: "ss \<Rightarrow> bool"
  assumes at_call: "\<not> own_call c \<Longrightarrow> I s \<Longrightarrow> I (s\<lparr>trace := c # trace s\<rparr>)"
    and at_others: "I s \<Longrightarrow> I (s\<lparr>halted := h\<rparr>)" "I s \<Longrightarrow> I (s\<lparr>files := fs\<rparr>)" "I s \<Longrightarrow> I (s\<lparr>pre := p\<rparr>)"
      "mmc_status d = mmc_status (dev s) \<Longrightarrow> I s \<Longrightarrow> I (s\<lparr>dev := d\<rparr>)"
begin

lemma quiet_calls [quiet]:
  "\<not> own_call c \<Longrightarrow> pres I (call E c)" "\<not> own_call c \<Longrightarrow> pres I (call_out E c v)"
  "\<not> own_call c \<Longrightarrow> pres I (call_str E c)"
  by (simp_all add: pres_def log_call_def at_call)

lemma quiet_writes [quiet]:
  "pres I (halt e)" "pres I (set_pre g)" "pres I (fopen E p m)"
  "pres I (fprintf E p t)" "pres I (deref x)" "pres I (upd (\<lambda>s. s\<lparr>files := k s\<rparr>))"
  "(\<And>d. mmc_status (u d) = mmc_status d) \<Longrightarrow> pres I (set_dev u)"
  by (simp_all add: pres_def log_call_def at_call at_others fopen_def fopen_effect_def fprintf_def
      deref_def own_call_def split: option.split)

lemma quiet_launch [quiet]:
  "pres I (parse_cmd E a1 a2)" "pres I (ss_set_current_lang E)" "pres I (prepare_exec E)"
  "pres I (launch_app_child E d1 d2 d3)" "pres I (launch_app_with_nice E g1 g2 g3 g4)"
  "pres I (launch_app_cmd_with_nice E h1 h2)" "pres I (launch_app_cmd E i1)"
  "pres I (read_nice_flag E)" "pres I (launch_tail E k1 k2 k3)"
  "pres I (ss_launch_if_noexist E l1 l2)" "pres I (ss_launch_evenif_exist E m1 m2)"
  "pres I (ss_launch_after_kill_if_exist E n1 n2)"
  unfolding parse_cmd_def ss_set_current_lang_def prepare_exec_def launch_app_child_def
    launch_app_with_nice_def launch_app_cmd_with_nice_def launch_app_cmd_def read_nice_flag_def
    launch_tail_def ss_launch_if_noexist_def ss_launch_evenif_exist_def
    ss_launch_after_kill_if_exist_def
  by (intro quiet; simp add: own_call_def)+

lemma quiet_noti [quiet]:
  "pres I (ss_noti_send E a1)" "pres I (ss_noti_init E)" "pres I (ss_noti_add E c1)"
  "pres I (send_named E d1)" "pres I (ss_devman_plugin_init E)"
  unfolding ss_noti_send_def ss_noti_init_def ss_noti_add_def send_named_def
    ss_devman_plugin_init_def
  by (intro quiet; simp add: own_call_def)+

lemma quiet_pm_retry [quiet]: "pres I (pm_retry E c n)"
  by (induction n) (auto intro!: quiet simp: own_call_def)

lemma quiet_find_backgrd [quiet]: "pres I (find_backgrd_unlocked E ds)"
  by (induction ds) (auto intro!: quiet simp: own_call_def split: option.split)

lemma quiet_procmgr [quiet]:
  "pres I (get_app_oomadj E a1 a2)" "pres I (set_app_oomadj E b1 b2)"
  "pres I (set_oomadj_action E c1 c2)" "pres I (age_process E d1)"
  "pres I (check_and_set_old_backgrd E)"
  unfolding get_app_oomadj_def set_app_oomadj_def set_oomadj_action_def age_process_def
    check_and_set_old_backgrd_def
  by (intro quiet; simp add: own_call_def)+

lemma quiet_app_actions [quiet]:
  "pres I (set_active_action E a1 a2)" "pres I (set_inactive_action E b1 b2)"
  "pres I (set_foregrd_action E c1 c2)" "pres I (set_backgrd_action E d1 d2)"
  unfolding set_active_action_def set_inactive_action_def set_foregrd_action_def
    set_backgrd_action_def
    with_app_oomadj_def
  by (intro quiet; simp add: own_call_def)+

lemma quiet_wait_animation [quiet]: "pres I (wait_animation E n dur now)"
  by (induction n arbitrary: now) (auto intro!: quiet simp: own_call_def gettimeofday_sec_def)

lemma quiet_predefine [quiet]:
  "pres I (make_memps_log E a1 a2 a3)" "pres I (lowmem_get_victim_pid E)"
  "pres I (kill_victim E c1 c2)" "pres I (victim_allowed E d1)"
  "pres I (lowmem_def_predefine_action E g1 g2)" "pres I (usbcon_def_predefine_action E h1 h2)"
  "pres I (earjackcon_def_predefine_action E i1 i2)" "pres I (lowbat_popup E)"
  "pres I (lowbat_def_predefine_action E k1 k2)" "pres I (launching_predefine_action E l1 l2)"
  unfolding make_memps_log_def lowmem_get_victim_pid_def kill_victim_def victim_allowed_def
    lowmem_def_predefine_action_def usbcon_def_predefine_action_def
    earjackcon_def_predefine_action_def lowbat_popup_def lowbat_def_predefine_action_def
    launching_predefine_action_def
  by (intro quiet; simp add: own_call_def)+

lemma quiet_power [quiet]:
  "pres I (gettimeofday_sec E a1)" "pres I (wait_poweroff_duration E)"
  "pres I (do_reboot E c1)" "pres I (tel_close E d1)" "pres I (stop_poweroff_timer E)"
  "pres I (powerdown_ap_by_force E)" "pres I (powerdown_ap E)" "pres I (restart_ap_by_force E)"
  "pres I (restart_ap E)" "pres I (restart_ap_ecore E)" "pres I (remember_start E)"
  unfolding gettimeofday_sec_def wait_poweroff_duration_def do_reboot_def tel_close_def
    stop_poweroff_timer_def powerdown_ap_by_force_def powerdown_ap_def restart_ap_by_force_def
    restart_ap_def restart_ap_ecore_def remember_start_def
  by (intro quiet; simp add: own_call_def)+

lemma quiet_power_actions [quiet]:
  "pres I (poweroff_def_predefine_action E argc argv)" "pres I (restart_def_predefine_action E argc argv)"
  unfolding poweroff_def_predefine_action_def restart_def_predefine_action_def power_down_modem_def
  by (intro quiet; simp add: own_call_def)+

lemma quiet_find_mmcblk [quiet]: "pres I (find_mmcblk E ds)"
  by (induction ds) (auto intro!: quiet simp: own_call_def read_type_def)

lemma quiet_mount_partition [quiet]: "pres I (mount_partition E b n)"
  by (induction n) (subst mount_partition.simps; intro quiet; simp add: own_call_def mmc_mount_def quiet)+

lemma quiet_mmc [quiet]:
  "pres I (get_mmcblk_num E)" "pres I (ss_mmc_format E)" "pres I (mmc_mount E a1)" "pres I (mount_card E b1)"
  unfolding get_mmcblk_num_def ss_mmc_format_def mmc_mount_def mount_card_def
  by (intro quiet; simp add: own_call_def)+

lemma quiet_usb_storage [quiet]:
  "pres I (ss_mount_device E a1)" "pres I (ss_unmount_device E b1)" "pres I (mount_tempfs E)"
  "pres I (announce_added E d1)" "pres I (check_mounted E g1 g2)"
  "pres I (ss_usb_storage_added E h1 h2)" "pres I (announce_removed E)"
  "pres I (ss_usb_storage_removed E j1 j2)"
  unfolding ss_mount_device_def ss_unmount_device_def mount_tempfs_def announce_added_def
    check_mounted_def ss_usb_storage_added_def announce_removed_def ss_usb_storage_removed_def
  by (intro quiet; simp add: own_call_def)+

lemma quiet_timemgr [quiet]:
  "pres I (handle_timezone E a1)" "pres I (handle_date E b1)"
  "pres I (set_datetime_action E c1 c2)" "pres I (set_timezone_action E d1 d2)"
  unfolding handle_timezone_def handle_date_def set_datetime_action_def set_timezone_action_def
  by (intro quiet; simp add: own_call_def)+

lemma quiet_files [quiet]:
  "pres I (file_open E a1 a2)" "pres I (file_read E b1 b2 b3)" "pres I (file_write E c1 c2 c3)"
  "pres I (file_unlink E d1)"
  unfolding file_open_def file_read_def file_write_def file_unlink_def
  by (intro quiet; simp add: own_call_def)+

lemma quiet_pmon [quiet]:
  "pres I (pmon_get_permanent_pname E a1)" "pres I (copy_record E b1 b2)"
  "pres I (make_permanent_dir E)" "pres I (adopt_process E d1 d2)" "pres I (pmon_process E g1)"
  "pres I (pmon_cb E)" "pres I (ss_pmon_init E)"
  unfolding pmon_get_permanent_pname_def copy_record_def make_permanent_dir_def
    adopt_process_def pmon_process_def pmon_cb_def ss_pmon_init_def
  by (intro quiet; simp add: own_call_def)+

lemma quiet_crash_lines [quiet]: "pres I (crash_lines E buf ret chunks)"
  by (induction chunks arbitrary: buf ret) (auto intro!: quiet split: line_result.split)

lemma quiet_bs [quiet]:
  "pres I (make_noti_file E a1 a2)" "pres I (launch_crash_worker E b1)"
  unfolding make_noti_file_def launch_crash_worker_def
  by (intro quiet; simp add: own_call_def)+

lemma quiet_bs_cb [quiet]: "pres I (bs_file_cb E ev path)" "pres I (ss_bs_init E)"
  unfolding bs_file_cb.simps ss_bs_init_def by (intro quiet; simp add: own_call_def)+

lemma quiet_reads [quiet]: "pres I (read_int E n fd v)" "pres I (read_bytes E n fd)"
  by (induction n arbitrary: v) (auto intro!: quiet simp: own_call_def)

lemma quiet_recv [quiet]:
  "pres I (recv_int E a1)" "pres I (recv_str E b1)"
  unfolding recv_int_def recv_str_def
  by (intro quiet; simp add: own_call_def)+

lemma quiet_recv_args [quiet]: "pres I (recv_args E fd i n)"
  by (induction n arbitrary: i) (auto intro!: quiet)

lemma quiet_messages [quiet]:
  "pres I (read_message E a1)" "pres I (answer E b1 b2)" "pres I (print_sysnoti_msg E c1)"
  "pres I (ss_sysnoti_server_init E)" "pres I (ss_sysnoti_init E)" "pres I (ss_core_init E)"
  "pres I (ss_signal_init E)"
  unfolding read_message_def answer_def print_sysnoti_msg_def ss_sysnoti_server_init_def
    ss_sysnoti_init_def ss_core_init_def ss_signal_init_def
  by (intro quiet; simp add: own_call_def)+

lemma quiet_charge [quiet]:
  "pres I (ss_lowbat_set_charge_on E a1)" "pres I (ss_lowbat_is_charge_in_now E)"
  "pres I (set_status_low E c1 c2)" "pres I (publish_level E d1 d2)" "pres I (lowbat_read E)"
  unfolding ss_lowbat_set_charge_on_def ss_lowbat_is_charge_in_now_def set_status_low_def
    publish_level_def lowbat_read_def
  by (intro quiet; simp add: own_call_def)+

lemma quiet_remove_shm [quiet]: "pres I (remove_shm E)" "pres I (print_lowmem_state shipped w)"
  unfolding remove_shm_def print_lowmem_state_def emit_shipped convert_to_str_def by (intro quiet; simp add: own_call_def)+

lemma quiet_ticker [quiet]: "pres I (ticker_entries E kvs)" "pres I (camera_name E ds buf)"
  by (induction kvs) (auto intro!: quiet simp: own_call_def, induction ds arbitrary: buf, auto intro!: quiet simp: own_call_def)

lemma quiet_device [quiet]:
  "pres I (noti_charge E)" "pres I (noti_full E b1)" "pres I (lowbat_warning_popup E)"
  "pres I (charger_changed E g1)" "pres I (earkey_chgdet_cb E)" "pres I (tvout_chgdet_cb E)"
  "pres I (hdmi_chgdet_cb E)" "pres I (keyboard_chgdet_cb E)" "pres I (show_tickernoti E k1)"
  "pres I (keyboard_add_cb E)" "pres I (keyboard_remove_cb E)" "pres I (mouse_add_cb E)"
  "pres I (mouse_remove_cb E)"
  unfolding noti_charge_def noti_full_def lowbat_warning_popup_def charger_changed_def
    earkey_chgdet_cb_def tvout_chgdet_cb_def hdmi_chgdet_cb_def keyboard_chgdet_cb_def
    show_tickernoti_def keyboard_add_cb_def keyboard_remove_cb_def mouse_add_cb_def
    mouse_remove_cb_def
  by (intro quiet; simp add: own_call_def)+

lemma quiet_more_device [quiet]:
  "pres I (camera_add_cb E)" "pres I (otg_popup E b1)" "pres I (camera_remove_cb E)"
  "pres I (unknown_usb_add_cb E)" "pres I (unknown_usb_remove_cb E)"
  "pres I (ums_unmount_cb E)" "pres I (full_edge E j1)"
  "pres I (ss_device_change_init E)" "pres I (ss_usb_init E)"
  "pres I (ss_ta_init E)"
  unfolding camera_add_cb_def otg_popup_def camera_remove_cb_def unknown_usb_add_cb_def
    unknown_usb_remove_cb_def ums_unmount_cb_def full_edge_def
    ss_device_change_init_def ss_usb_init_def ss_ta_init_def
  by (intro quiet; simp add: own_call_def)+

text \<open>The components with variables of their own, for what does not read them.\<close>

lemma quiet_bat_vars:
  assumes "\<And>g. pres I (set_bat g)"
  shows "pres I (publish_capacity E a1)" "pres I (ss_lowbat_init E)"
  unfolding publish_capacity_def ss_lowbat_init_def by (intro quiet assms; simp add: own_call_def)+

lemma quiet_mem_vars:
  assumes "\<And>g. pres I (set_mem g)"
  shows "pres I (oom_cleanup E)" "pres I (stop_oom_timer E)" "pres I (memory_normal_act E)"
    "pres I (lowmem_read E d1)" "pres I (set_threshold E)" "pres I (ss_lowmem_init E)"
  unfolding oom_cleanup_def stop_oom_timer_def memory_normal_act_def lowmem_read_def set_threshold_def
    ss_lowmem_init_def
  by (intro quiet assms; simp add: own_call_def)+

lemma quiet_frequency:
  assumes "\<And>g. pres I (set_cpu g)" "\<And>c. \<nexists>v. c = VCONF (Set_int VK_MMC_STATUS v) \<Longrightarrow> pres I (call E c)"
  shows
  "pres I (set_max_frequency_action E a1 a2)" "pres I (set_min_frequency_action E b1 b2)"
  "pres I (release_max_frequency_action E c1 c2)" "pres I (release_min_frequency_action E d1 d2)"
  "pres I (power_saving_cb E g1)" "pres I (power_saving_cpu_cb E h1)" "pres I (set_freq_limit E)"
  unfolding cpu_action_defs power_saving_cb_def power_saving_cpu_cb_def set_freq_limit_def
  by (intro quiet assms; simp add: own_call_def)+

lemma quiet_card:
  assumes "\<And>g. pres I (set_dev g)" "\<And>v. pres I (call E (VCONF (Set_int VK_MMC_STATUS v)))"
  shows
  "pres I (ss_mmc_inserted E)" "pres I (ss_mmc_removed E)" "pres I (ss_mmc_unmounted E argc argv)"
  unfolding ss_mmc_inserted_def ss_mmc_removed_def ss_mmc_unmounted_def publish_mmc_def
  by (intro quiet assms; simp add: own_call_def)+

end

section \<open>Bystanders\<close>

text \<open>Properties that do not read the queue, the table and the pipe either.\<close>

locale bystander = onlooker I for I :: "ss \<Rightarrow> bool" +
  assumes at_queue: "I s \<Longrightarrow> I (s\<lparr>predef_act_list := l\<rparr>)" "I s \<Longrightarrow> I (s\<lparr>run_queue := q\<rparr>)"
      "I s \<Longrightarrow> I (s\<lparr>next_addr := a\<rparr>)" "I s \<Longrightarrow> I (s\<lparr>core_pipe := ms\<rparr>)"
begin

text \<open>A property that is kept is also kept under a condition on the environment.\<close>

lemma conditional: "bystander (\<lambda>s. b \<longrightarrow> I s)"
proof (cases b)
  case True
  then show ?thesis by (simp add: bystander_axioms)
next
  case False
  then show ?thesis by unfold_locales simp_all
qed

text \<open>The table and the queue.\<close>

lemma quiet_queue [quiet]:
  "pres I ss_core_action_run" "pres I (ss_core_action_clear p)" "pres I (ss_action_entry_find t)"
  "pres I (rq_update i g)" "pres I (fast_done i)" "pres I (ss_run_queue_del_bypid p)"
  by (simp_all add: pres_def at_queue at_others ss_action_entry_find_def fast_done_def split: option.split)

lemma quiet_posts [quiet]:
  "pres I (ss_run_queue_add E d n args)" "pres I (ss_action_entry_call_internal E t n args)"
  "pres I (ss_action_entry_call E msg n args)" "pres I (ss_action_entry_add_internal E ty g ui acc)"
  "pres I (ss_action_entry_add E p ty path)"
proof -
  have upds: "pres I (upd (\<lambda>s. s\<lparr>predef_act_list := g s\<rparr>))" "pres I (upd (\<lambda>s. s\<lparr>run_queue := q s, next_addr := n s\<rparr>))" for g q n
    by (simp_all add: pres_def at_queue)
  show "pres I (ss_run_queue_add E d n args)" "pres I (ss_action_entry_call_internal E t n args)"
    "pres I (ss_action_entry_call E msg n args)" "pres I (ss_action_entry_add_internal E ty g ui acc)"
    "pres I (ss_action_entry_add E p ty path)"
    unfolding ss_run_queue_add_def ss_action_entry_call_internal_def ss_action_entry_call_def
      ss_action_entry_add_internal_def ss_action_entry_add_def
    by (intro quiet upds; simp add: own_call_def)+
qed

lemma quiet_posting [quiet]:
  "pres I (serve_message E a1 a2)" "pres I (sysnoti_cb E)" "pres I (sig_child_handler E b1)"
  "pres I (earjack_chgdet_cb E)" "pres I (usb_storage_cb E c1)"
  unfolding serve_message_def sysnoti_cb_def sig_child_handler_def earjack_chgdet_cb_def usb_storage_cb_def
  by (intro quiet; simp add: own_call_def)+

lemma quiet_bat_action [quiet]: "pres I (bat_action E a)"
  by (cases a) (auto intro!: quiet)

lemma quiet_lowbat:
  assumes "\<And>g. pres I (set_bat g)"
  shows
  "pres I (bat_transition E b1)" "pres I (lowbat_process E c1)" "pres I (ss_lowbat_monitor E)"
  "pres I (wakeup_cb E g1)" "pres I (usb_chgdet_cb E)" "pres I (ta_chgdet_cb E)" "pres I (charge_cb E)"
  unfolding bat_transition_def lowbat_process_def ss_lowbat_monitor_def wakeup_cb_def usb_chgdet_cb_def
    ta_chgdet_cb_def charge_cb_def
  by (intro quiet quiet_bat_vars assms; simp add: own_call_def)+

lemma quiet_mem_action:
  assumes "\<And>g. pres I (set_mem g)"
  shows "pres I (mem_action E a)"
  unfolding memory_low_act_def memory_oom_act_def oom_cleanup_def memory_normal_act_def
  by (cases a; simp only: mem_action.simps memory_low_act_def memory_oom_act_def oom_cleanup_def memory_normal_act_def;
    intro quiet quiet_mem_vars assms; simp add: own_call_def)

lemma quiet_lowmem:
  assumes "\<And>g. pres I (set_mem g)"
  shows
  "pres I (lowmem_timer_cb E a1)" "pres I (lowmem_process E c1)" "pres I (lowmem_cb E)"
  unfolding lowmem_timer_cb_def lowmem_process_def lowmem_cb_def lowmem_cb_in_def
  by (intro quiet quiet_mem_action quiet_mem_vars assms; simp add: own_call_def)+

end

section \<open>Start-up and the core loop\<close>

context bystander
begin

lemma quiet_writepid [quiet]: "pres I (writepid E p)"
  unfolding writepid_def by (intro quiet; simp add: own_call_def)

lemma quiet_load_sodir [quiet]: "pres I (ss_action_entry_load_from_sodir E)"
  unfolding ss_action_entry_load_from_sodir_def by (intro quiet; simp add: own_call_def)

lemma quiet_registers [quiet]:
  "pres I (register_all E l)" "pres I (ss_time_manager_init E)" "pres I (ss_usb_storage_init E)"
  "pres I (ss_process_manager_init E)" "pres I (ss_predefine_internal_init E)"
  unfolding register_all_def ss_time_manager_init_def ss_usb_storage_init_def 
    ss_process_manager_init_def ss_predefine_internal_init_def
  by (intro quiet; simp add: own_call_def)+

text \<open>The core loop keeps what the functions it calls keep.\<close>

lemma pres_core_loop:
  assumes "\<And>fn argc argv. pres I (act fn argc argv)"
  shows "pres I (core_pipe_cb E act)"
proof -
  have run: "pres I (core_action_run E act e)" for e
    unfolding core_action_run_def by (intro quiet assms; simp add: own_call_def)
  have "pres I (ss_run_queue_run st (core_action_run E act))" for st
    unfolding ss_run_queue_run_def by (intro quiet run)
  then have msg: "pres I (case im_type m of
      SS_CORE_ACT_RUN \<Rightarrow> ss_run_queue_run SS_STATE_INIT (core_action_run E act)
    | SS_CORE_ACT_CLEAR \<Rightarrow> ss_run_queue_del_bypid (im_pid m))" for m
    by (cases "im_type m") (simp_all add: quiet)
  have take: "pres I (upd (\<lambda>s. s\<lparr>core_pipe := ms\<rparr>))" for ms by (simp add: pres_def at_queue)
  show ?thesis
    unfolding core_pipe_cb_def by (intro quiet msg take; simp add: own_call_def)
qed

lemma pres_interrupted:
  assumes "pres I (act fn argc argv)"
  shows "pres I (interrupted E sig act fn argc argv)"
  unfolding interrupted_def by (intro quiet assms)

end

section \<open>Reachable states\<close>

text \<open>
  A property of the observed part holds in every reachable state when the components that
  own a part of the variables keep it.  The start-up needs less than the whole life, and so
  does the time after it.
\<close>

locale starting = bystander I for I :: "ss \<Rightarrow> bool" +
  fixes E :: env
  assumes inits: "pres I (set_freq_limit E)" "pres I (ss_lowbat_init E)" "pres I (ss_lowmem_init E)"
      "pres I (ss_mmc_inserted E)"
begin

lemma pres_seen_start: "pres I (main_start E)"
proof -
  have "pres I (ss_cpu_handler_init E)" "pres I (ss_mmc_init E)"
    unfolding ss_cpu_handler_init_def ss_mmc_init_def by (intro quiet inits; simp add: own_call_def)+
  then show ?thesis
    unfolding main_start_def system_main_def system_server_init_def
    by (intro quiet inits; simp add: own_call_def)
qed

end

locale serving = bystander I for I :: "ss \<Rightarrow> bool" +
  fixes E :: env
  assumes frequency: "pres I (set_max_frequency_action E argc argv)" "pres I (set_min_frequency_action E argc argv)"
      "pres I (release_max_frequency_action E argc argv)" "pres I (release_min_frequency_action E argc argv)"
      "pres I (power_saving_cb E key)" "pres I (power_saving_cpu_cb E key)"
    and battery: "pres I (ss_lowbat_monitor E)" "pres I (usb_chgdet_cb E)" "pres I (ta_chgdet_cb E)"
      "pres I (charge_cb E)"
    and memory: "pres I (lowmem_cb E)" "pres I (mem_action E a)"
    and card: "pres I (ss_mmc_inserted E)" "pres I (ss_mmc_removed E)" "pres I (ss_mmc_unmounted E argc argv)"
begin

lemma pres_seen_run: "pres I (run_action E fn argc argv)"
  by (cases fn; simp only: run_action.simps; intro quiet frequency card; simp add: own_call_def)

lemma pres_seen_handle: "pres I (handle E ev)"
proof -
  have "pres I (wakeup_cb E k)" for k
    unfolding wakeup_cb_def by (intro quiet battery; simp add: own_call_def)
  moreover have "pres I (timer_callback E t)" for t
    by (cases t; simp only: timer_callback.simps lowmem_timer_cb_def; intro quiet battery memory)
  moreover have "pres I (mmc_chgdet_cb E add)" for add
    unfolding mmc_chgdet_cb_def by (intro quiet card)
  moreover from this have "pres I (device_callback E d)" for d
    by (cases d; simp only: device_callback.simps; intro quiet battery)
  moreover have "pres I (core_pipe_cb E (run_action E))"
    "pres I (core_pipe_cb E (interrupted E sig (run_action E)))" for sig
    by (intro pres_core_loop pres_interrupted pres_seen_run)+
  ultimately have special: "pres I (core_pipe_cb E (run_action E))"
    "pres I (core_pipe_cb E (interrupted E sig (run_action E)))" "pres I (wakeup_cb E k)"
    "pres I (timer_callback E t)" "pres I (device_callback E d)" for sig t d k
    by blast+
  show ?thesis
    by (cases ev; simp only: handle.simps; intro quiet special frequency memory)
qed

lemma run_keeps: "daemon_run E s evs t \<Longrightarrow> I s \<Longrightarrow> I t"
  by (induction rule: daemon_run.induct) (auto simp: daemon_step_iff intro: presD [OF pres_seen_handle])

end

locale watched = starting I E + serving I E for I :: "ss \<Rightarrow> bool" and E +
  assumes boot: "I (boot\<lparr>files := F\<rparr>)"
begin

lemma reachable_seen: "reachable E s \<Longrightarrow> I s"
  by (rule reachable_keeps [OF _ pres_seen_start pres_seen_handle boot])

end

end
