(* ===== verification/SS_Start.thy ===== *)
theory SS_Start
  imports SS_Main
begin

text \<open>
  A device on which the daemon starts: memory is available, the OEM plugin is found, a child has the pid 9, every client
  is connected as descriptor 7 and asks to change the time, every other call returns 0; power saving extends to the CPU, the battery is nearly empty and the
  memory notifier reports the critical state, and no other call stores anything.  The start-up ends alive and idle, and the
  removal of a mass storage whose key has no value is queued, run and freed.
\<close>

definition client_chunks :: "hist \<Rightarrow> chunk list" where
  "client_chunks h = drop (reads (takeWhile (\<lambda>c. c \<noteq> IPC Accept) h)) (encode_msg time_request)"

definition start_env :: env where
  "start_env = env1\<lparr>e_ret := \<lambda>h c. case c of DL Dlerror \<Rightarrow> 0 | DL _ \<Rightarrow> 1
     | OS (Malloc n) \<Rightarrow> 1 | OS Fork \<Rightarrow> 9 | ECORE Fd_handler_active \<Rightarrow> 1 | IPC b \<Rightarrow> if b = Accept then 7 else 0 | _ \<Rightarrow> 0,
     e_out := \<lambda>h c. case c of
       FS (Read fd) \<Rightarrow> if fd = 7 then (case client_chunks h of Int_chunk v # cs \<Rightarrow> Some v | _ \<Rightarrow> None) else Some 0xdead
     | OEM (Get k) \<Rightarrow> if k = OEM_battery_capacity then Some 4 else None
     | VCONF (Get_bool k) \<Rightarrow> if k = VK_PWRSV_CUSTMODE_CPU then Some 1 else None
     | _ \<Rightarrow> None,
     e_str := \<lambda>h c. case c of
       FS (Read fd) \<Rightarrow> if fd = 7 then (case client_chunks h of Str_chunk t # cs \<Rightarrow> Some t | _ \<Rightarrow> None) else None
     | _ \<Rightarrow> None\<rparr>"

lemma start_env_out [simp]:
  "e_out start_env h (FS (Read fd)) =
     (if fd = 7 then (case client_chunks h of Int_chunk v # cs \<Rightarrow> Some v | _ \<Rightarrow> None) else Some 0xdead)"
  "e_out start_env h (OEM (Get k)) = (if k = OEM_battery_capacity then Some 4 else None)"
  "e_out start_env h (VCONF (Get_bool b)) = (if b = VK_PWRSV_CUSTMODE_CPU then Some 1 else None)"
  "e_out start_env h (VCONF (Get_int k1)) = None" "e_out start_env h (PM p) = None" "e_out start_env h (IPC i) = None"
  "e_str start_env h (FS (Read fd)) =
     (if fd = 7 then (case client_chunks h of Str_chunk t # cs \<Rightarrow> Some t | _ \<Rightarrow> None) else None)"
  "e_str start_env h (OEM o1) = None" "e_str start_env h (VCONF o2) = None" "e_str start_env h (DL o3) = None"
  "e_dir start_env h p2 = []" "e_junk start_env h = 0" "e_stack start_env h = []" "konst start_env k2 = 0"
  "malloc_ok start_env"
  by (simp_all add: start_env_def malloc_ok_def)

lemma start_env_ret [simp]:
  "e_ret start_env h (DL Dlerror) = 0" "e_ret start_env h (DL (Dlopen p)) = 1"
  "e_ret start_env h (DL (Dlsym p q)) = 1" "e_ret start_env h (DL Plugin_interface) = 1"
  "e_ret start_env h (OS (Malloc n)) = 1" "e_ret start_env h (OS Fork) = 9" "e_ret start_env h (ECORE Fd_handler_active) = 1"
  "e_ret start_env h (FS a) = 0" "e_ret start_env h (IPC b) = (if b = Accept then 7 else 0)" "e_ret start_env h (OEM c) = 0"
  "e_ret start_env h (PM d) = 0" "e_ret start_env h (VCONF f) = 0" "e_ret start_env h (HEYNOTI n1) = 0"
  "e_ret start_env h (SYSMAN n2) = 0" "e_ret start_env h (TEL n3) = 0"
  "e_ret start_env h (ECORE File_init) = 0" "e_ret start_env h (ECORE (File_monitor_add q)) = 0"
  by (simp_all add: start_env_def)

text \<open>Alive, with nothing queued and nothing in the pipe.\<close>

definition idle :: "ss \<Rightarrow> bool" where
  "idle s \<longleftrightarrow> alive s \<and> run_queue s = [] \<and> core_pipe s = []"

lemma idle_add: "idle (exec (ss_action_entry_add_internal E t f ui acc) s) = idle s"
  by (cases f) (simp_all add: ss_action_entry_add_internal_def idle_def)

lemma idle_simps [simp]:
  "idle (log_call c s) = idle s" "idle (s\<lparr>bat := b\<rparr>) = idle s" "idle (s\<lparr>mem := m\<rparr>) = idle s"
  "idle (s\<lparr>cpu := c1\<rparr>) = idle s" "idle (s\<lparr>pre := p\<rparr>) = idle s" "idle (s\<lparr>dev := d\<rparr>) = idle s"
  by (simp_all add: idle_def)

lemma idle_registering:
  "idle s \<Longrightarrow> idle (exec (ss_process_manager_init start_env) s)"
  "idle s \<Longrightarrow> idle (exec (ss_time_manager_init start_env) s)"
  "idle s \<Longrightarrow> idle (exec (ss_usb_storage_init start_env) s)"
  "idle s \<Longrightarrow> idle (exec (ss_cpu_handler_init start_env) s)"
  by (simp_all add: ss_process_manager_init_def ss_time_manager_init_def ss_usb_storage_init_def
      ss_cpu_handler_init_def set_freq_limit_def idle_add)

lemma idle_mmc: "idle s \<Longrightarrow> idle (exec (ss_mmc_init start_env) s)"
proof -
  have "idle s \<Longrightarrow> idle (exec (ss_mmc_inserted start_env) s)"
    by (simp add: ss_mmc_inserted_def get_mmcblk_num_def publish_mmc_def)
  then show "idle s \<Longrightarrow> ?thesis" by (simp add: ss_mmc_init_def idle_add)
qed

lemma idle_predefine: "idle s \<Longrightarrow> idle (exec (ss_predefine_internal_init start_env) s)"
  by (simp add: ss_predefine_internal_init_def register_all_def builtin_actions_def
      ss_action_entry_load_from_sodir_def earjackcon_def_predefine_action_def idle_add)

lemma idle_core:
  "result (ss_devman_plugin_init start_env) s = 0"
  "idle s \<Longrightarrow> idle (exec (ss_devman_plugin_init start_env) s)"
  "idle s \<Longrightarrow> idle (exec (ss_sysnoti_init start_env) s)" "idle s \<Longrightarrow> idle (exec (ss_noti_init start_env) s)"
  "idle s \<Longrightarrow> idle (exec (ss_core_init start_env) s)" "idle s \<Longrightarrow> idle (exec (ss_signal_init start_env) s)"
  by (simp_all add: ss_devman_plugin_init_def ss_sysnoti_init_def ss_sysnoti_server_init_def
      ss_noti_init_def ss_core_init_def ss_signal_init_def)

lemma idle_handlers:
  "idle s \<Longrightarrow> idle (exec (ss_lowmem_init start_env) s)" "idle s \<Longrightarrow> idle (exec (ss_lowbat_init start_env) s)"
  "idle s \<Longrightarrow> idle (exec (ss_usb_init start_env) s)" "idle s \<Longrightarrow> idle (exec (ss_ta_init start_env) s)"
  "idle s \<Longrightarrow> idle (exec (ss_pmon_init start_env) s)"
  by (simp_all add: ss_lowmem_init_def set_threshold_def ss_lowbat_init_def ss_lowbat_is_charge_in_now_def
      ss_lowbat_set_charge_on_def ss_usb_init_def ss_ta_init_def ss_pmon_init_def)

lemma idle_for_each: "(\<And>x s. idle s \<Longrightarrow> idle (exec (f x) s)) \<Longrightarrow> idle s \<Longrightarrow> idle (exec (for_each f xs) s)"
  by (induction xs arbitrary: s) simp_all

lemma idle_connectors:
  "idle (exec (ss_noti_add E n) s) = idle s"
  "idle s \<Longrightarrow> idle (exec (keyboard_chgdet_cb start_env) s)" "idle s \<Longrightarrow> idle (exec (hdmi_chgdet_cb start_env) s)"
  by (simp_all add: ss_noti_add_def keyboard_chgdet_cb_def hdmi_chgdet_cb_def)

lemma idle_device: "idle s \<Longrightarrow> idle (exec (ss_device_change_init start_env) s)"
  unfolding ss_device_change_init_def exec_bind
  by (simp add: idle_connectors idle_for_each del: for_each.simps)

lemma idle_bs: "idle s \<Longrightarrow> idle (exec (ss_bs_init start_env) s)"
  by (simp add: ss_bs_init_def make_noti_file_def launch_crash_worker_def fopen_def Let_def)

lemma idle_started: "idle (started start_env F)"
proof -
  have "idle (boot\<lparr>files := F\<rparr>)" by (simp add: idle_def)
  then show ?thesis
    by (simp add: started_def main_start_def writepid_def system_main_def system_server_init_def fopen_def
        idle_core idle_predefine idle_registering idle_handlers idle_device idle_mmc idle_bs)
qed

lemma started_alive: "alive (started start_env F)"
  using idle_started by (simp add: idle_def)

lemma reachable_first:
  "enabled (started start_env F) ev \<Longrightarrow> reachable start_env (exec (handle start_env ev) (started start_env F))"
  unfolding reachable_def using daemon_run_one [OF started_alive] by blast

text \<open>A request of the daemon to itself, on that device.\<close>

definition idle_state :: ss where
  "idle_state = log_call (VCONF (Get_str VK_INTERNAL_REMOVED_USB_STORAGE)) (started start_env Map.empty)"

definition waiting_state :: ss where
  "waiting_state = exec (handle start_env (Device (Storage_key False))) (started start_env Map.empty)"

lemma waiting_is_post:
  "waiting_state = exec (ss_action_entry_call_internal start_env (Some PREDEF_USB_STORAGE_REMOVE) 1 [None]) idle_state"
  by (simp add: waiting_state_def idle_state_def usb_storage_cb_def)

lemma reachable_waiting: "reachable start_env waiting_state"
  unfolding waiting_state_def by (rule reachable_first) simp

lemma idle_lookup: "\<exists>d. action_lookup idle_state PREDEF_USB_STORAGE_REMOVE = Some d"
  using started_names [of start_env Fn_ss_usb_storage_removed PREDEF_USB_STORAGE_REMOVE Map.empty] idle_started
  by (auto simp: idle_state_def named_def idle_def)

lemma waiting_queue:
  "alive waiting_state \<and> core_pipe waiting_state = [run_msg] \<and>
   (\<exists>e. run_queue waiting_state = [e] \<and> rq_state e = SS_STATE_INIT)"
proof -
  obtain d where d: "action_lookup idle_state PREDEF_USB_STORAGE_REMOVE = Some d" using idle_lookup by blast
  have "idle idle_state" using idle_started by (simp add: idle_state_def)
  then show ?thesis
    using d by (simp add: waiting_is_post exec_call_internal exec_run_queue_add idle_def SYSMAN_MAXARG_def new_entry_def)
qed

lemma daemon_inv_idle: "daemon_inv idle_state"
  using daemon_inv_started by (simp add: idle_state_def)

lemma work_waiting: "work waiting_state = 2"
  using waiting_queue by (auto simp: work_def is_init_def)

text \<open>Two callbacks: the function has nothing to remove, and the entry is freed.\<close>

lemma waiting_drained: "alive (pipe_callbacks start_env (run_action start_env) 2 waiting_state)"
proof -
  obtain d where d: "action_lookup (started start_env Map.empty) PREDEF_USB_STORAGE_REMOVE = Some d"
    and f: "predefine_action d = Fn_ss_usb_storage_removed \<or> predefine_action d = Fn_ext (ae_path d)"
    using reachable_lookup [of start_env "started start_env Map.empty" Fn_ss_usb_storage_removed
        PREDEF_USB_STORAGE_REMOVE] idle_started
    by (auto simp: idle_def reachable_def intro: daemon_run.stay)
  have idle: "idle idle_state" using idle_started by (simp add: idle_state_def)
  let ?u = "called_in idle_state d 1 [None]" and ?a = "next_addr idle_state"
  define m where "m = run_action start_env (predefine_action d) 1 (take (nat 1) [None])"
  define v where "v = exec (core_finish start_env ?a (result m ?u)) (exec m ?u)"
  have run: "exec (core_pipe_cb start_env (run_action start_env)) waiting_state = v"
    unfolding waiting_is_post m_def v_def
    by (rule daemon.posted_run [OF _ _ daemon_inv_idle]) (use idle d in \<open>simp_all add: idle_def idle_state_def SYSMAN_MAXARG_def\<close>)
  have "alive v \<and> core_pipe v \<in> {[], [clear_msg (-1)]}"
    using f idle by (auto simp: v_def m_def ss_usb_storage_removed_def argv_at_def core_finish_def fast_done_def
        start_env_def called_in_def idle_def)
  moreover have "alive (exec (core_pipe_cb start_env (run_action start_env)) v)"
    if "alive v" "core_pipe v = [clear_msg (-1)]"
    using that by (simp add: exec_core_pipe_cb)
  ultimately show ?thesis
    using run waiting_queue by (auto simp: numeral_2_eq_2)
qed

end
