(* ===== verification/SS_Frequency.thy ===== *)
theory SS_Frequency
  imports SS_Isolation SS_Start
begin

text \<open>
  The CPU frequency over the life of the daemon: in every reachable state the value last
  handed to the kernel is the tightest one of the requests on file.
\<close>

section \<open>The frequency the kernel was told last\<close>

fun last_put :: "oem_set \<Rightarrow> hist \<Rightarrow> int option" where
  "last_put k [] = None"
| "last_put k (c # h) =
     (case c of OEM (Put k' v) \<Rightarrow> if k' = k then Some v else last_put k h | _ \<Rightarrow> last_put k h)"

definition max_told :: "ss \<Rightarrow> bool" where
  "max_told s \<longleftrightarrow> (let es = max_cpu_freq_list (cpu s); m = Min (cf_freq ` set es) in
     es \<noteq> [] \<longrightarrow> INT_MIN < m \<longrightarrow> m < INT_MAX \<longrightarrow>
       cur_max_cpu_freq (cpu s) = m \<and> last_put OEM_scaling_max_freq (trace s) = Some m)"

definition min_told :: "ss \<Rightarrow> bool" where
  "min_told s \<longleftrightarrow> (let es = min_cpu_freq_list (cpu s); m = Max (cf_freq ` set es) in
     es \<noteq> [] \<longrightarrow> INT_MIN < m \<longrightarrow> m < INT_MAX \<longrightarrow>
       cur_min_cpu_freq (cpu s) = m \<and> last_put OEM_scaling_min_freq (trace s) = Some m)"

definition freq_ok :: "ss \<Rightarrow> bool" where
  "freq_ok s \<longleftrightarrow> cpu_ok s \<and> max_told s \<and> min_told s"

text \<open>It reads the frequency variables and the bounds written last.\<close>

lemma freq_ok_cong:
  assumes "cpu s = cpu t" "last_put OEM_scaling_max_freq (trace s) = last_put OEM_scaling_max_freq (trace t)"
    "last_put OEM_scaling_min_freq (trace s) = last_put OEM_scaling_min_freq (trace t)"
  shows "freq_ok s = freq_ok t"
  by (simp add: freq_ok_def max_told_def min_told_def cpu_ok_def assms)

lemma last_put_other: "\<not> own_call c \<Longrightarrow> k = OEM_scaling_max_freq \<or> k = OEM_scaling_min_freq \<Longrightarrow>
    last_put k (c # h) = last_put k h"
  by (auto simp: own_call_def split: ecall.split oem_call.split)

interpretation freq: bystander freq_ok
  by unfold_locales (erule freq_ok_cong [THEN iffD1, rotated -1], simp_all add: last_put_other del: last_put.simps)+

section \<open>The other direction\<close>

definition other_max :: "ss \<Rightarrow> cpu_freq_entry list \<times> int \<times> int option" where
  "other_max s = (min_cpu_freq_list (cpu s), cur_min_cpu_freq (cpu s), last_put OEM_scaling_min_freq (trace s))"

definition other_min :: "ss \<Rightarrow> cpu_freq_entry list \<times> int \<times> int option" where
  "other_min s = (max_cpu_freq_list (cpu s), cur_max_cpu_freq (cpu s), last_put OEM_scaling_max_freq (trace s))"

lemma other_calls:
  "(\<And>v. c \<noteq> OEM (Put OEM_scaling_min_freq v)) \<Longrightarrow> frame other_max (call E c)"
  "(\<And>v. c \<noteq> OEM (Put OEM_scaling_max_freq v)) \<Longrightarrow> frame other_min (call E c)"
  "(\<And>x. min_cpu_freq_list (g x) = min_cpu_freq_list x) \<Longrightarrow>
     (\<And>x. cur_min_cpu_freq (g x) = cur_min_cpu_freq x) \<Longrightarrow> frame other_max (set_cpu g)"
  "(\<And>x. max_cpu_freq_list (h x) = max_cpu_freq_list x) \<Longrightarrow>
     (\<And>x. cur_max_cpu_freq (h x) = cur_max_cpu_freq x) \<Longrightarrow> frame other_min (set_cpu h)"
  by (auto simp: frame_def log_call_def other_max_def other_min_def
      split: ecall.splits oem_call.splits oem_set.splits)

lemma frame_other:
  "frame other_max (remove_entry_from_max_cpu_freq_list E p)"
  "frame other_max (add_entry_to_max_cpu_freq_list E p v)"
  "frame other_min (remove_entry_from_min_cpu_freq_list E p)"
  "frame other_min (add_entry_to_min_cpu_freq_list E p v)"
  unfolding add_entry_to_max_cpu_freq_list_def add_entry_to_min_cpu_freq_list_def
    remove_entry_from_max_cpu_freq_list_def remove_entry_from_min_cpu_freq_list_def is_entry_enable_def
  by (intro frame_return frame_bind frame_getv frame_if frame_for_each other_calls; simp)+

lemma other_told: "other_max s = other_max t \<Longrightarrow> min_told s = min_told t"
  "other_min s = other_min t \<Longrightarrow> max_told s = max_told t"
  by (simp_all add: other_max_def other_min_def max_told_def min_told_def)

section \<open>Writing the bound\<close>

lemma max_written:
  assumes "cpu_ok t" "max_book.bound_ok t" "min_told t" "alive t"
    and "INT_MIN < cur_max_cpu_freq (cpu t) \<Longrightarrow> cur_max_cpu_freq (cpu t) < INT_MAX \<Longrightarrow> v = cur_max_cpu_freq (cpu t)"
  shows "freq_ok (log_call (OEM (Put OEM_scaling_max_freq v)) (t\<lparr>cpu := (cpu t)\<lparr>cur_max_cpu_freq := v\<rparr>\<rparr>))"
proof -
  have "max_cpu_freq_list (cpu t) \<noteq> [] \<Longrightarrow>
      cur_max_cpu_freq (cpu t) = Min (cf_freq ` set (max_cpu_freq_list (cpu t)))"
    using max_bound_Min [OF assms(2)] assms(1) by (simp add: cpu_ok_def book_wf_def)
  then show ?thesis
    using assms(1,3-5) by (auto simp: freq_ok_def cpu_ok_def max_told_def min_told_def log_call_def Let_def)
qed

lemma min_written:
  assumes "cpu_ok t" "min_book.bound_ok t" "max_told t" "alive t"
    and "INT_MIN < cur_min_cpu_freq (cpu t) \<Longrightarrow> cur_min_cpu_freq (cpu t) < INT_MAX \<Longrightarrow> v = cur_min_cpu_freq (cpu t)"
  shows "freq_ok (log_call (OEM (Put OEM_scaling_min_freq v)) (t\<lparr>cpu := (cpu t)\<lparr>cur_min_cpu_freq := v\<rparr>\<rparr>))"
proof -
  have "min_cpu_freq_list (cpu t) \<noteq> [] \<Longrightarrow>
      cur_min_cpu_freq (cpu t) = Max (cf_freq ` set (min_cpu_freq_list (cpu t)))"
    using min_bound_Max [OF assms(2)] assms(1) by (simp add: cpu_ok_def book_wf_def)
  then show ?thesis
    using assms(1,3-5) by (auto simp: freq_ok_def cpu_ok_def max_told_def min_told_def log_call_def Let_def)
qed

text \<open>After an entry was added or removed the bound only has to be written.\<close>

definition max_ready :: "ss \<Rightarrow> bool" where
  "max_ready t \<longleftrightarrow> cpu_ok t \<and> max_book.bound_ok t \<and> min_told t \<and> alive t"

definition min_ready :: "ss \<Rightarrow> bool" where
  "min_ready t \<longleftrightarrow> cpu_ok t \<and> min_book.bound_ok t \<and> max_told t \<and> alive t"

lemma removed_ready:
  assumes "freq_ok s" "alive s"
  shows "max_ready (exec (remove_entry_from_max_cpu_freq_list E p) s)"
    "min_ready (exec (remove_entry_from_min_cpu_freq_list E p) s)"
proof -
  have ok: "cpu_ok s" "max_told s" "min_told s" using assms(1) by (simp_all add: freq_ok_def)
  show "max_ready (exec (remove_entry_from_max_cpu_freq_list E p) s)"
    using ok cpu_ok_remove(1) [OF ok(1) assms(2), of E p] max_book.remove_ok [OF assms(2) cpu_ok_distinct(1) [OF ok(1)], of E p]
      max_book.removes [OF assms(2) cpu_ok_distinct(1) [OF ok(1)], of E p]
      other_told(1) [OF frameD [OF frame_other(1), of E p s]]
    by (simp add: max_ready_def)
  show "min_ready (exec (remove_entry_from_min_cpu_freq_list E p) s)"
    using ok cpu_ok_remove(2) [OF ok(1) assms(2), of E p] min_book.remove_ok [OF assms(2) cpu_ok_distinct(2) [OF ok(1)], of E p]
      min_book.removes [OF assms(2) cpu_ok_distinct(2) [OF ok(1)], of E p]
      other_told(2) [OF frameD [OF frame_other(3), of E p s]]
    by (simp add: min_ready_def)
qed

lemma alive_removed:
  "alive (exec (remove_entry_from_max_cpu_freq_list E p) s) \<longleftrightarrow> alive s"
  "alive (exec (remove_entry_from_min_cpu_freq_list E p) s) \<longleftrightarrow> alive s"
proof -
  have "frame alive (remove_entry_from_max_cpu_freq_list E p)" "frame alive (remove_entry_from_min_cpu_freq_list E p)"
    unfolding cpu_action_defs by (intro frames)+
  then show "alive (exec (remove_entry_from_max_cpu_freq_list E p) s) \<longleftrightarrow> alive s"
    "alive (exec (remove_entry_from_min_cpu_freq_list E p) s) \<longleftrightarrow> alive s"
    by (simp_all add: frameD)
qed

lemma added:
  assumes "malloc_ok E" "alive s"
  shows "result (add_entry_to_max_cpu_freq_list E p v) s = 0"
    "result (add_entry_to_min_cpu_freq_list E p v) s = 0"
  using assms
  by (simp_all add: add_entry_to_max_cpu_freq_list_def add_entry_to_min_cpu_freq_list_def malloc_okD alive_removed)

lemma added_ready:
  assumes "freq_ok s" "alive s" "malloc_ok E" "is_int32 v"
  shows "max_ready (exec (add_entry_to_max_cpu_freq_list E p v) s)"
    "min_ready (exec (add_entry_to_min_cpu_freq_list E p v) s)"
proof -
  have ok: "cpu_ok s" "max_told s" "min_told s" using assms(1) by (simp_all add: freq_ok_def)
  show "max_ready (exec (add_entry_to_max_cpu_freq_list E p v) s)"
    using ok cpu_ok_add_max [OF ok(1) assms(2,4), of E p] max_book.add_ok [OF assms(2) cpu_ok_distinct(1) [OF ok(1)], of E p v]
      max_book.adds [OF assms(2) cpu_ok_distinct(1) [OF ok(1)], of E p v]
      other_told(1) [OF frameD [OF frame_other(2), of E p v s]]
    by (simp add: max_ready_def added [OF assms(3,2)])
  show "min_ready (exec (add_entry_to_min_cpu_freq_list E p v) s)"
    using ok cpu_ok_add_min [OF ok(1) assms(2,4), of E p] min_book.add_ok [OF assms(2) cpu_ok_distinct(2) [OF ok(1)], of E p v]
      min_book.adds [OF assms(2) cpu_ok_distinct(2) [OF ok(1)], of E p v]
      other_told(2) [OF frameD [OF frame_other(4), of E p v s]]
    by (simp add: min_ready_def added [OF assms(3,2)])
qed

lemma ready_written:
  "max_ready t \<Longrightarrow> freq_ok (exec (write_cur_max E) t)"
  "min_ready t \<Longrightarrow> freq_ok (exec (write_cur_min E) t)"
  using max_written [of t "cur_max_cpu_freq (cpu t)"] min_written [of t "cur_min_cpu_freq (cpu t)"]
  by (simp_all add: max_ready_def min_ready_def)

lemma ready_limit:
  "max_ready t \<Longrightarrow> b = INT_MAX \<or> b = INT_MIN \<Longrightarrow> freq_ok (exec (write_cur_max E)
     (exec (set_cpu (\<lambda>c. if cur_max_cpu_freq c = b then c\<lparr>cur_max_cpu_freq := max_cpu_freq_limit c\<rparr> else c)) t))"
  "min_ready t \<Longrightarrow> freq_ok (exec (write_cur_min E)
     (exec (set_cpu (\<lambda>c. if cur_min_cpu_freq c = INT_MIN then c\<lparr>cur_min_cpu_freq := min_cpu_freq_limit c\<rparr> else c)) t))"
  using max_written [of t "max_cpu_freq_limit (cpu t)"] min_written [of t "min_cpu_freq_limit (cpu t)"] ready_written [of t E]
  by (auto simp: max_ready_def min_ready_def)

section \<open>The frequency component keeps it\<close>

lemma freq_ok_deref: "pres freq_ok (deref x)"
  by (rule freq.quiet_writes)

lemma stops_parts:
  "obeys_halt (add_entry_to_max_cpu_freq_list E p v)" "obeys_halt (add_entry_to_min_cpu_freq_list E p v)"
  "obeys_halt (remove_entry_from_max_cpu_freq_list E p)" "obeys_halt (remove_entry_from_min_cpu_freq_list E p)"
  "obeys_halt (write_cur_max E)" "obeys_halt (write_cur_min E)"
  unfolding cpu_action_defs by (intro stops)+

text \<open>A request that is entered and written, and one that is taken out.\<close>

lemma pres_granted:
  assumes "malloc_ok E" "is_int32 v"
  shows "pres freq_ok (do { r \<leftarrow> add_entry_to_max_cpu_freq_list E p v; if r < 0 then return (-1) else write_cur_max E })"
    "pres freq_ok (do { r \<leftarrow> add_entry_to_min_cpu_freq_list E p v; if r < 0 then return (-1) else write_cur_min E })"
  by (rule pres_alive, intro stops stops_parts,
    simp only: exec_bind added [OF assms(1)] less_irrefl if_False ready_written added_ready [OF _ _ assms])+

lemma pres_released:
  "b = INT_MAX \<or> b = INT_MIN \<Longrightarrow> pres freq_ok (do {
      r \<leftarrow> remove_entry_from_max_cpu_freq_list E p;
      set_cpu (\<lambda>c. if cur_max_cpu_freq c = b then c\<lparr>cur_max_cpu_freq := max_cpu_freq_limit c\<rparr> else c);
      write_cur_max E })"
  "pres freq_ok (do {
      r \<leftarrow> remove_entry_from_min_cpu_freq_list E p;
      set_cpu (\<lambda>c. if cur_min_cpu_freq c = INT_MIN then c\<lparr>cur_min_cpu_freq := min_cpu_freq_limit c\<rparr> else c);
      write_cur_min E })"
  by (rule pres_alive, intro stops stops_parts, simp only: exec_bind ready_limit removed_ready)+

lemma pres_freq_actions:
  assumes "malloc_ok E"
  shows "pres freq_ok (set_max_frequency_action E argc argv)" "pres freq_ok (set_min_frequency_action E argc argv)"
    "pres freq_ok (release_max_frequency_action E argc argv)" "pres freq_ok (release_min_frequency_action E argc argv)"
proof -
  have rel: "pres freq_ok (remove_entry_from_max_cpu_freq_list E p \<bind> (\<lambda>r. if r < 0 then return (-1) else do {
      set_cpu (\<lambda>c. if cur_max_cpu_freq c = INT_MAX then c\<lparr>cur_max_cpu_freq := max_cpu_freq_limit c\<rparr> else c);
      write_cur_max E }))"
    "pres freq_ok (remove_entry_from_min_cpu_freq_list E p \<bind> (\<lambda>r. if r < 0 then return (-1) else do {
      set_cpu (\<lambda>c. if cur_min_cpu_freq c = INT_MIN then c\<lparr>cur_min_cpu_freq := min_cpu_freq_limit c\<rparr> else c);
      write_cur_min E }))" for p
    using pres_released by (simp_all add: pres_def)
  show "pres freq_ok (set_max_frequency_action E argc argv)" "pres freq_ok (set_min_frequency_action E argc argv)"
    "pres freq_ok (release_max_frequency_action E argc argv)" "pres freq_ok (release_min_frequency_action E argc argv)"
    unfolding set_max_frequency_action_def set_min_frequency_action_def
      release_max_frequency_action_def release_min_frequency_action_def
    by (intro pres_if pres_return pres_bind [OF freq_ok_deref] rel pres_granted assms is_int32_atoi)+
qed

lemma freq_ok_limits:
  "pres freq_ok (set_cpu (\<lambda>c. c\<lparr>max_cpu_freq_limit := v\<rparr>))" "pres freq_ok (set_cpu (\<lambda>c. c\<lparr>min_cpu_freq_limit := v\<rparr>))"
  by (simp_all add: pres_def freq_ok_def cpu_ok_def max_told_def min_told_def)

text \<open>Writing the bound again when nothing has changed.\<close>

lemma pres_rewrite: "pres freq_ok (write_cur_max E)"
  by (auto simp: pres_def freq_ok_def cpu_ok_def max_told_def min_told_def log_call_def Let_def)

lemma pres_power_saving:
  assumes "malloc_ok E"
  shows "pres freq_ok (power_saving_cb E key)" "pres freq_ok (power_saving_cpu_cb E key)" "pres freq_ok (set_freq_limit E)"
proof -
  have rel: "pres freq_ok (do { r \<leftarrow> remove_entry_from_max_cpu_freq_list E p;
      set_cpu (\<lambda>c. if cur_max_cpu_freq c = b then c\<lparr>cur_max_cpu_freq := max_cpu_freq_limit c\<rparr> else c);
      if r < 0 then return (-1) else write_cur_max E })" if "b = INT_MAX \<or> b = INT_MIN" for b p
    using pres_released(1) [OF that] by (simp add: pres_def)
  have add: "pres freq_ok (do { r \<leftarrow> add_entry_to_max_cpu_freq_list E p POWER_SAVING_CPUFREQ;
      if r < 0 then return (-1) else write_cur_max E })" for p
    by (rule pres_granted [OF assms]) (simp add: POWER_SAVING_CPUFREQ_def is_int32_def INT_MAX_def INT_MIN_def)
  have unit: "pres freq_ok (do { r \<leftarrow> add_entry_to_max_cpu_freq_list E p POWER_SAVING_CPUFREQ;
      if r < 0 then return () else do { write_cur_max E; return () } })" for p
    using add [of p] by (simp add: pres_def cong: if_cong)
  have quiet: "\<not> own_call (OS Getpid)" "\<not> own_call (VCONF (Get_int v))" "\<not> own_call (VCONF (Get_bool v))"
    "\<not> own_call (VCONF (Notify_key_changed v))" "\<not> own_call (OEM (Get k))" for v k
    by (simp_all add: own_call_def)
  have go_on: "(case p of (a, b) \<Rightarrow> g a b) \<bind> k = (case p of (a, b) \<Rightarrow> g a b \<bind> k)"
    "(if c then m else n) \<bind> k = (if c then m \<bind> k else n \<bind> k)"
    for p and g :: "int \<Rightarrow> int \<Rightarrow> (ss, int) state" and k :: "int \<Rightarrow> (ss, int) state" and c m n
    by (simp_all split: prod.split)
  have zero: "\<not> (0::int) < 0" by simp
  show "pres freq_ok (power_saving_cb E key)"
    unfolding power_saving_cb_def go_on State_Monad.bind_assoc bind_left_identity if_not_P [OF zero]
    by (intro pres_if pres_case_prod pres_bind [OF freq.quiet_calls(1)] pres_bind [OF freq.quiet_calls(2)]
        freq.quiet_calls pres_rewrite pres_return add rel quiet; simp)
  show "pres freq_ok (power_saving_cpu_cb E key)"
    unfolding power_saving_cpu_cb_def go_on State_Monad.bind_assoc bind_left_identity if_not_P [OF zero]
    by (intro pres_if pres_case_prod pres_bind [OF freq.quiet_calls(1)] pres_bind [OF freq.quiet_calls(2)]
        freq.quiet_calls pres_rewrite pres_return add rel quiet; simp)
  show "pres freq_ok (set_freq_limit E)"
    unfolding set_freq_limit_def
    by (intro presI freq.quiet_calls freq_ok_limits unit quiet)
qed

section \<open>Every callback keeps it\<close>

text \<open>The handlers of the other components do not touch it.\<close>

lemma freq_sets: "pres freq_ok (set_bat g)" "pres freq_ok (set_mem h)" "pres freq_ok (set_dev k)"
    "pres freq_ok (call E (VCONF (Set_int VK_MMC_STATUS v)))"
  by (simp_all add: pres_def freq_ok_def max_told_def min_told_def cpu_ok_def)

lemmas freq_quiet = freq.quiet_lowbat [OF freq_sets(1)] freq.quiet_lowmem [OF freq_sets(2)] freq.quiet_mem_vars [OF freq_sets(2)]
  freq.quiet_bat_vars [OF freq_sets(1)] freq.quiet_mem_action [OF freq_sets(2)]
  freq.quiet_card [OF freq_sets(3,4)]

lemma freq_memory: "(malloc_ok E \<Longrightarrow> pres freq_ok m) \<Longrightarrow> pres (\<lambda>s. malloc_ok E \<longrightarrow> freq_ok s) m"
  by (cases "malloc_ok E") (simp_all add: pres_def)

interpretation freq_given: bystander "\<lambda>s. malloc_ok E \<longrightarrow> freq_ok s" for E
  by (rule freq.conditional)

lemma freq_start: "malloc_ok E \<longrightarrow> freq_ok (boot\<lparr>files := F\<rparr>)"
  by (simp add: freq_ok_def cpu_ok_def max_told_def min_told_def boot_def book_wf_def)

interpretation freq_given: watched "\<lambda>s. malloc_ok E \<longrightarrow> freq_ok s" E for E
  by unfold_locales (rule freq_memory pres_freq_actions pres_power_saving freq_quiet freq_start; assumption?)+

lemma reachable_freq_ok: "reachable E s \<Longrightarrow> malloc_ok E \<Longrightarrow> freq_ok s"
  using freq_given.reachable_seen by blast

section \<open>Properties\<close>

text \<open>
  C6: In every state the daemon can reach, whatever requests, releases, power-saving changes
  and other callbacks have come in whatever order, there is at most one entry per process,
  and as long as a process asks for a bound the value the kernel was told last is the
  tightest one asked for, as long as that is not one of the two neutral values.
\<close>

theorem kernel_told_tightest_frequency:
  assumes "reachable E s" "malloc_ok E"
  shows "(let es = max_cpu_freq_list (cpu s); m = Min (cf_freq ` set es) in
      distinct (map cf_pid es) \<and>
      (es \<noteq> [] \<longrightarrow> INT_MIN < m \<longrightarrow> m < INT_MAX \<longrightarrow> last_put OEM_scaling_max_freq (trace s) = Some m)) \<and>
    (let es = min_cpu_freq_list (cpu s); m = Max (cf_freq ` set es) in
      distinct (map cf_pid es) \<and>
      (es \<noteq> [] \<longrightarrow> INT_MIN < m \<longrightarrow> m < INT_MAX \<longrightarrow> last_put OEM_scaling_min_freq (trace s) = Some m))"
  using reachable_freq_ok [OF assms] unfolding freq_ok_def cpu_ok_def book_wf_def max_told_def min_told_def Let_def by simp

text \<open>The start-up leaves no request; switching power saving on enters one of 800 MHz.\<close>

definition saving_state :: ss where
  "saving_state = exec (handle start_env (Power_saving 1)) (started start_env Map.empty)"

lemma reachable_saving: "reachable start_env saving_state"
  unfolding saving_state_def by (rule reachable_first) simp

definition unasked :: "ss \<Rightarrow> bool" where
  "unasked s \<longleftrightarrow> max_cpu_freq_list (cpu s) = []"

interpretation unasked: bystander unasked
  by unfold_locales (simp_all add: unasked_def)

lemma unasked_sets: "pres unasked (set_bat g)" "pres unasked (set_mem h)" "pres unasked (set_dev k)"
    "pres unasked (call E c)" "pres unasked (set_freq_limit start_env)"
  by (simp_all add: pres_def unasked_def set_freq_limit_def)

interpretation unasked: starting unasked start_env
  by unfold_locales (rule unasked_sets unasked.quiet_bat_vars [OF unasked_sets(1)]
    unasked.quiet_lowmem [OF unasked_sets(2)] unasked.quiet_mem_vars [OF unasked_sets(2)] unasked.quiet_card [OF unasked_sets(3,4)])+

lemma started_no_request: "max_cpu_freq_list (cpu (started start_env F)) = []"
  using presD [OF unasked.pres_seen_start, of "boot\<lparr>files := F\<rparr>"]
  by (simp add: started_def unasked_def boot_def)

lemma saving_entry: "max_cpu_freq_list (cpu saving_state) = [\<lparr>cf_pid = 0, cf_freq = 800000\<rparr>]"
proof -
  show ?thesis
    using started_no_request [of Map.empty] started_alive [of Map.empty]
    by (simp add: saving_state_def power_saving_cb_def cpu_action_defs POWER_SAVING_CPUFREQ_def start_env_def)
qed

lemma kernel_told_tightest_frequency_witness:
  "last_put OEM_scaling_max_freq (trace saving_state) = Some 800000"
  using kernel_told_tightest_frequency [OF reachable_saving] saving_entry
  by (simp add: Let_def INT_MIN_def INT_MAX_def)

end
