(* ===== verification/SS_Alerts.thy ===== *)
theory SS_Alerts
  imports SS_Isolation SS_Start
begin

text \<open>
  From a request to the action: the variables of the battery and of the memory handler are
  legal in every reachable state, so that a poll of the battery or a notice of the kernel
  that calls for an alert makes the next pipe callback run the function of that alert, as
  the message of a client makes it run the function the client asks for.
\<close>

section \<open>The battery variables\<close>

definition bat_legal :: "bat_vars \<Rightarrow> bool" where
  "bat_legal b \<longleftrightarrow> cur_bat_state b \<in> bat_states \<and> -1 \<le> cur_bat_capacity b \<and> cur_bat_capacity b \<le> 100"

interpretation battery: bystander "\<lambda>s. bat_legal (bat s)"
  by unfold_locales simp_all

lemma pres_bind_result:
  "pres I m \<Longrightarrow> (\<And>s. pres I (g (result m s))) \<Longrightarrow> pres I (m \<bind> g)"
  by (simp add: pres_def)

lemma bat_legal_sets:
  "pres (\<lambda>s. bat_legal (bat s)) (set_bat (\<lambda>b. b\<lparr>lowbat_timer := t\<rparr>))"
  "pres (\<lambda>s. bat_legal (bat s)) (set_bat (\<lambda>b. b\<lparr>bat_err_count := bat_err_count b + 1\<rparr>))"
  "-1 \<le> p \<Longrightarrow> p \<le> 100 \<Longrightarrow> pres (\<lambda>s. bat_legal (bat s)) (set_bat (\<lambda>b. b\<lparr>cur_bat_capacity := p\<rparr>))"
  "pres (\<lambda>s. bat_legal (bat s)) (set_bat (\<lambda>b. b\<lparr>cur_bat_state := bat_level p\<rparr>))"
  using bat_level_cases [of p] by (auto simp: pres_def bat_legal_def bat_states_def)

lemma bat_legal_calls:
  "pres (\<lambda>s. bat_legal (bat s)) (call E c)" "pres (\<lambda>s. bat_legal (bat s)) (call_out E c v)"
  by (simp_all add: pres_def)

lemma pres_bat_process:
  assumes "p \<le> 100"
  shows "pres (\<lambda>s. bat_legal (bat s)) (lowbat_process E p)"
proof (cases "p < 0")
  case True
  then show ?thesis by (simp add: lowbat_process_def pres_def)
next
  case False
  then have cap: "pres (\<lambda>s. bat_legal (bat s)) (publish_capacity E p)"
    unfolding publish_capacity_def by (intro presI bat_legal_calls bat_legal_sets) (use assms in simp_all)
  have trans: "pres (\<lambda>s. bat_legal (bat s)) (bat_transition E (bat_level p))" for p
    unfolding bat_transition_def by (intro presI quiet bat_legal_sets)
  have level: "pres (\<lambda>s. bat_legal (bat s)) (case result (publish_level E p v) s of (n, ret) \<Rightarrow>
      if ret < 0 then return (-1) else do { ss_lowbat_is_charge_in_now E; bat_transition E n })" for v s
  proof -
    have "fst (result (publish_level E p v) s) = bat_level p" by (rule publish_level_effect(1))
    then show ?thesis
      by (cases "result (publish_level E p v) s") 
        (auto intro!: pres_bind battery.quiet_charge(2) trans pres_return)
  qed
  show ?thesis
    unfolding lowbat_process_def
    by (intro pres_if pres_return pres_bind [OF cap] pres_bind [OF bat_legal_calls(2)] pres_case_prod
        pres_bind_result quiet level)
qed

lemma pres_bat_monitor: "pres (\<lambda>s. bat_legal (bat s)) (ss_lowbat_monitor E)"
  unfolding ss_lowbat_monitor_def
  by (intro presI bat_legal_calls bat_legal_sets pres_bat_process quiet) simp

lemma battery_kept_sets: "pres (\<lambda>s. bat_legal (bat s)) (set_cpu g)" "pres (\<lambda>s. bat_legal (bat s)) (set_mem h)"
    "pres (\<lambda>s. bat_legal (bat s)) (set_dev k)"
  by (simp_all add: pres_def)

interpretation battery: watched "\<lambda>s. bat_legal (bat s)" E for E
proof (unfold_locales, goal_cases)
  case 2
  show ?case unfolding ss_lowbat_init_def by (intro presI bat_legal_calls bat_legal_sets quiet)
next
  case 12
  then show ?case unfolding usb_chgdet_cb_def by (intro presI bat_legal_calls pres_bat_monitor quiet)
next
  case 13
  then show ?case unfolding ta_chgdet_cb_def charger_changed_def
    by (intro presI bat_legal_calls pres_bat_monitor quiet)
next
  case 14
  then show ?case unfolding charge_cb_def by (intro presI bat_legal_calls pres_bat_monitor quiet)
next
  case (19 F)
  show ?case by (simp add: bat_legal_def bat_states_def boot_def)
qed (rule pres_bat_monitor battery.quiet_frequency [OF battery_kept_sets(1) bat_legal_calls(1)]
    battery.quiet_lowmem [OF battery_kept_sets(2)] battery.quiet_mem_vars [OF battery_kept_sets(2)] battery.quiet_mem_action [OF battery_kept_sets(2)]
    battery.quiet_card [OF battery_kept_sets(3) bat_legal_calls(1)])+

section \<open>The memory variables\<close>

definition mem_legal :: "mem_vars \<Rightarrow> bool" where
  "mem_legal m \<longleftrightarrow> known_mem_state (cur_mem_state m)"

interpretation memory: bystander "\<lambda>s. mem_legal (mem s)"
  by unfold_locales simp_all

lemma mem_legal_sets:
  "pres (\<lambda>s. mem_legal (mem s)) (set_mem (\<lambda>m. m\<lparr>lowmem_fd := a\<rparr>))"
  "pres (\<lambda>s. mem_legal (mem s)) (set_mem (\<lambda>m. m\<lparr>oom_timer := t\<rparr>))"
  "pres (\<lambda>s. mem_legal (mem s)) (set_mem (\<lambda>m. m\<lparr>oom_delete_sm_time := w\<rparr>))"
  "known_mem_state st \<Longrightarrow> pres (\<lambda>s. mem_legal (mem s)) (set_mem (\<lambda>m. m\<lparr>cur_mem_state := st\<rparr>))"
  by (simp_all add: pres_def mem_legal_def)

lemma mem_legal_calls:
  "pres (\<lambda>s. mem_legal (mem s)) (call E c)" "pres (\<lambda>s. mem_legal (mem s)) (call_out E c v)"
  by (simp_all add: pres_def)

lemma pres_mem_action: "pres (\<lambda>s. mem_legal (mem s)) (mem_action E a)"
  by (cases a; simp only: mem_action.simps memory_low_act_def memory_oom_act_def oom_cleanup_def memory_normal_act_def;
    intro presI mem_legal_calls mem_legal_sets quiet; simp)

lemma pres_mem_process: "pres (\<lambda>s. mem_legal (mem s)) (lowmem_process E st)"
  unfolding lowmem_process_def stop_oom_timer_def
  by (intro presI mem_legal_calls mem_legal_sets pres_mem_action)

text \<open>A state the table does not know stops the daemon before it is stored.\<close>

lemma pres_mem_store: "pres (\<lambda>s. mem_legal (mem s)) (do { print_lowmem_state shipped st; lowmem_process E st;
    set_mem (\<lambda>m. m\<lparr>cur_mem_state := st\<rparr>); return (1 :: int) })"
proof (cases "known_mem_state st")
  case True
  then show ?thesis by (intro presI pres_mem_process mem_legal_sets quiet)
next
  case False
  have "exec (do { print_lowmem_state shipped st; lowmem_process E st; set_mem (\<lambda>m. m\<lparr>cur_mem_state := st\<rparr>); return (1 :: int) }) s
      = exec (print_lowmem_state shipped st) s" for s
  proof -
    have "\<not> alive (exec (print_lowmem_state shipped st) s)"
      using False by (simp add: print_lowmem_state_def convert_to_str_def)
    then show ?thesis by (simp add: obeys_haltD [OF stops_lowmem(4)])
  qed
  moreover have "pres (\<lambda>s. mem_legal (mem s)) (print_lowmem_state shipped st)" by (intro quiet)
  ultimately show ?thesis by (simp add: pres_def)
qed

lemma pres_mem_cb: "pres (\<lambda>s. mem_legal (mem s)) (lowmem_cb E)"
  unfolding lowmem_cb_def lowmem_cb_in_def lowmem_read_def State_Monad.bind_assoc
  by (intro presI mem_legal_calls pres_mem_store)

lemma memory_kept_sets: "pres (\<lambda>s. mem_legal (mem s)) (set_cpu g)" "pres (\<lambda>s. mem_legal (mem s)) (set_bat h)"
    "pres (\<lambda>s. mem_legal (mem s)) (set_dev k)"
  by (simp_all add: pres_def)

interpretation memory: watched "\<lambda>s. mem_legal (mem s)" E for E
proof (unfold_locales, goal_cases)
  case 3
  show ?case unfolding ss_lowmem_init_def set_threshold_def
    by (intro presI mem_legal_calls mem_legal_sets)
next
  case (19 F)
  show ?case by (simp add: mem_legal_def known_mem_state_def boot_def MEMNOTIFY_NORMAL_def)
qed (rule pres_mem_cb pres_mem_action memory.quiet_frequency [OF memory_kept_sets(1) mem_legal_calls(1)]
    memory.quiet_lowbat [OF memory_kept_sets(2)] memory.quiet_bat_vars [OF memory_kept_sets(2)]
    memory.quiet_card [OF memory_kept_sets(3) mem_legal_calls(1)])+

section \<open>Properties\<close>

text \<open>In an idle daemon the action a callback posts is the next thing the core loop runs.\<close>

lemma post_runs:
  assumes "reachable E s" "alive s" "core_pipe s = []" "action_lookup s t = Some d" "enabled s ev"
    and "alive (exec (handle E ev) s)" "argc = int (length args)"
    and "queue_part (exec (handle E ev) s) = post_action t argc args (queue_part s)"
    and "\<And>h. e_ret E h (ECORE Fd_handler_active) \<noteq> 0"
  shows "left_by E (run_action E (predefine_action d) argc args) (calling (exec (handle E ev) s))
    (exec (handle E Pipe_readable) (exec (handle E ev) s))"
proof -
  have inv: "daemon_inv s" using assms(1) by (rule reachable_inv)
  show ?thesis
    by (rule posted_by_callback [OF inv assms(2-4) daemon_inv_handle [OF inv assms(5)] assms(6,8,7,9)])
qed

lemma alert_runs:
  assumes "reachable E s" "alive s" "core_pipe s = []" "malloc_ok E" "home_name f = Some t" "enabled s ev"
    and "alive (exec (handle E ev) s)"
    and "queue_part (exec (handle E ev) s) = post_action t 1 [Some a] (queue_part s)"
    and "\<And>h. e_ret E h (ECORE Fd_handler_active) \<noteq> 0"
  shows "\<exists>d. action_lookup s t = Some d \<and> (predefine_action d = f \<or> predefine_action d = Fn_ext (ae_path d)) \<and>
    left_by E (run_action E (predefine_action d) 1 [Some a]) (calling (exec (handle E ev) s))
      (exec (handle E Pipe_readable) (exec (handle E ev) s))"
proof -
  obtain d where d: "action_lookup s t = Some d" "predefine_action d = f \<or> predefine_action d = Fn_ext (ae_path d)"
    using reachable_lookup [OF assms(1,4,2,5)] by blast
  have "left_by E (run_action E (predefine_action d) 1 [Some a]) (calling (exec (handle E ev) s))
      (exec (handle E Pipe_readable) (exec (handle E ev) s))"
    by (rule post_runs [OF assms(1-3) d(1) assms(6,7) _ assms(8,9)]) simp
  then show ?thesis using d by blast
qed

text \<open>
  C10: From the battery to the popup: in whatever state an idle daemon is, a poll that
  reads a capacity whose level calls for an alert makes the next pipe callback call the function of the
  table entry of the low-battery action with the alert of that level, in the state the poll
  left: the callback leaves behind exactly what that function leaves, and makes exactly its
  external calls.  The function is the daemon's own, or that of the shared object the entry
  was registered from.
\<close>

theorem battery_drop_runs_action:
  assumes "reachable E s" "alive s" "core_pipe s = []" "malloc_ok E" "status_works E"
    and "\<And>h. e_ret E h (ECORE Fd_handler_active) \<noteq> 0"
    and "e_out E (trace s) (OEM (Get OEM_battery_capacity)) = Some p" "0 \<le> p"
    and "bat_alert (cur_bat_state (bat s)) (bat_level (min p 100)) = Some a"
  defines "w \<equiv> exec (handle E (Timer TCB_ss_lowbat_monitor)) s"
  shows "cur_bat_state (bat w) = bat_level (min p 100) \<and> (\<exists>d. action_lookup s PREDEF_LOWBAT = Some d \<and>
    (predefine_action d = Fn_lowbat_def_predefine_action \<or> predefine_action d = Fn_ext (ae_path d)) \<and>
    left_by E (run_action E (predefine_action d) 1 [Some a]) (calling w) (exec (handle E Pipe_readable) w))"
proof -
  have legal: "cur_bat_state (bat s) \<in> bat_states"
    using battery.reachable_seen [OF assms(1)] by (simp add: bat_legal_def)
  have w: "w = exec (ss_lowbat_monitor E) s" by (simp add: w_def)
  note poll = monitor_effect [OF assms(2,4,5) legal assms(7,8)]
  have "home_name Fn_lowbat_def_predefine_action = Some PREDEF_LOWBAT" by simp
  moreover have "alive w" "queue_part w = post_action PREDEF_LOWBAT 1 [Some a] (queue_part s)"
    using poll assms(9) by (simp_all add: w alert_posts_def)
  ultimately show ?thesis
    using poll alert_runs [OF assms(1-4) _ _ _ _ assms(6), where ev = "Timer TCB_ss_lowbat_monitor"]
    by (simp add: w)
qed

text \<open>
  C11: From the memory notifier to the victim: a notice that calls for an alert makes the
  next pipe callback of an idle daemon call the function of the table entry of the low-memory
  action with that alert, in the state the notice left: the callback leaves behind exactly
  what that function leaves, and makes exactly its external calls, the signal to the victim
  among them.  The function is the daemon's own, or that of the shared object the entry was
  registered from.
\<close>

theorem memory_notice_runs_action:
  assumes "reachable E s" "alive s" "core_pipe s = []" "malloc_ok E"
    and "\<And>h. e_ret E h (ECORE Fd_handler_active) \<noteq> 0"
    and "e_out E (ECORE Fd_handler_active # trace s) (FS (Read (lowmem_fd (mem s)))) = Some v"
    and "known_mem_state (word_of_int v)"
    and "mem_alert_policy (cur_mem_state (mem s)) (word_of_int v) = Some a"
  defines "w \<equiv> exec (handle E Memory_notice) s"
  shows "cur_mem_state (mem w) = word_of_int v \<and> (\<exists>d. action_lookup s PREDEF_LOWMEM = Some d \<and>
    (predefine_action d = Fn_lowmem_def_predefine_action \<or> predefine_action d = Fn_ext (ae_path d)) \<and>
    left_by E (run_action E (predefine_action d) 1 [Some a]) (calling w) (exec (handle E Pipe_readable) w))"
proof -
  have legal: "known_mem_state (cur_mem_state (mem s))"
    using memory.reachable_seen [OF assms(1)] by (simp add: mem_legal_def)
  have w: "w = exec (lowmem_cb E) s" by (simp add: w_def)
  note notice = memory_notice_queues_alert [OF assms(2,4,5,6) legal assms(7)]
  have "home_name Fn_lowmem_def_predefine_action = Some PREDEF_LOWMEM" by simp
  moreover have "alive w" "queue_part w = post_action PREDEF_LOWMEM 1 [Some a] (queue_part s)"
    using notice assms(8) by (simp_all add: w)
  ultimately show ?thesis
    using notice alert_runs [OF assms(1-4) _ _ _ _ assms(5), where ev = Memory_notice]
    by (simp add: w)
qed

text \<open>The device of \<open>start_env\<close>, whose battery is at four per cent, after the start.\<close>

definition fresh_bat :: "ss \<Rightarrow> bool" where
  "fresh_bat s \<longleftrightarrow> cur_bat_state (bat s) = -1"

definition fresh_mem :: "ss \<Rightarrow> bool" where
  "fresh_mem s \<longleftrightarrow> cur_mem_state (mem s) = 0 \<and> lowmem_fd (mem s) \<noteq> 7"

interpretation fresh_battery: bystander fresh_bat
  by unfold_locales (simp_all add: fresh_bat_def)

interpretation fresh_memory: bystander fresh_mem
  by unfold_locales (simp_all add: fresh_mem_def)

lemma fresh_sets:
  "pres fresh_bat (set_cpu g)" "pres fresh_bat (set_mem h)" "pres fresh_bat (set_dev k)" "pres fresh_bat (call E c)"
  "pres fresh_mem (set_cpu g)" "pres fresh_mem (set_bat b)" "pres fresh_mem (set_dev k)" "pres fresh_mem (call E c)"
  by (simp_all add: pres_def fresh_bat_def fresh_mem_def)

lemma fresh_inits: "pres fresh_bat (ss_lowbat_init start_env)" "pres fresh_mem (ss_lowmem_init start_env)"
  by (simp_all add: pres_def fresh_bat_def fresh_mem_def ss_lowbat_init_def ss_lowbat_is_charge_in_now_def
      ss_lowbat_set_charge_on_def ss_lowmem_init_def set_threshold_def)

interpretation fresh_battery: starting fresh_bat start_env
  by unfold_locales (rule fresh_inits fresh_battery.quiet_frequency [OF fresh_sets(1,4)]
    fresh_battery.quiet_lowmem [OF fresh_sets(2)] fresh_battery.quiet_mem_vars [OF fresh_sets(2)] fresh_battery.quiet_card [OF fresh_sets(3,4)])+

interpretation fresh_memory: starting fresh_mem start_env
  by unfold_locales (rule fresh_inits fresh_memory.quiet_frequency [OF fresh_sets(5,8)]
    fresh_memory.quiet_bat_vars [OF fresh_sets(6)] fresh_memory.quiet_card [OF fresh_sets(7,8)])+

lemma started_fresh:
  "cur_bat_state (bat (started start_env F)) = -1" "cur_mem_state (mem (started start_env F)) = 0"
  "lowmem_fd (mem (started start_env F)) \<noteq> 7"
  using presD [OF fresh_battery.pres_seen_start, of "boot\<lparr>files := F\<rparr>"]
    presD [OF fresh_memory.pres_seen_start, of "boot\<lparr>files := F\<rparr>"]
  by (simp_all add: started_def boot_def fresh_bat_def fresh_mem_def)

lemma battery_drop_runs_action_witness:
  "cur_bat_state (bat (exec (handle start_env (Timer TCB_ss_lowbat_monitor)) (started start_env Map.empty))) = 5"
  using battery_drop_runs_action [of start_env "started start_env Map.empty" 4 CRITICAL_LOW_BAT_ACT]
    reachable_started started_alive idle_started [of Map.empty] started_fresh(1)
  by (simp add: idle_def status_works_def bat_alert_def bat_level_def)

lemma memory_notice_runs_action_witness:
  "cur_mem_state (mem (exec (handle start_env Memory_notice) (started start_env Map.empty))) = MEMNOTIFY_CRITICAL"
  using memory_notice_runs_action [of start_env "started start_env Map.empty" "0xdead" OOM_MEM_ACT]
    reachable_started started_alive idle_started [of Map.empty] started_fresh(2,3) [of Map.empty]
  by (simp add: idle_def mem_alert_policy_def known_mem_state_def memnotify_defs)

text \<open>
  C9: From the socket to the action: a client whose message, of at most sixteen arguments,
  asks for a registered action and whose pid the access check lets in is answered 0 before
  its connection is closed, and the next pipe callback of an idle daemon calls the function
  registered under that name with the arguments the client encoded, in the state the answer
  left: it leaves behind what that function leaves and makes exactly its external calls.
\<close>

theorem client_request_runs_action:
  assumes "reachable E s" "alive s" "core_pipe s = []" "malloc_ok E"
    and "\<And>h. e_ret E h (ECORE Fd_handler_active) \<noteq> 0" "\<And>h. e_ret E h (IPC Accept) = c" "c \<noteq> -1"
    and "sn_type m = Some t" "sendable_msg m" "sn_argc m \<le> SYSMAN_MAXARG"
    and "delivers E c (encode_msg m) (IPC Accept # OS (Malloc 88) # ECORE Fd_handler_active # trace s)"
    and "\<And>h lib p. (e_ret E h (DL (Is_accessable lib p)) \<noteq> 0) = policy lib p"
    and "granted policy m (predef_act_list s)"
  defines "w \<equiv> exec (handle E Client) s"
  shows "(\<exists>h. trace w = FS (Close c) # IPC (Write_client 0) # h) \<and> (\<exists>d. action_lookup s t = Some d \<and>
    left_by E (run_action E (predefine_action d) (sn_argc m) (sn_argv m)) (calling w) (exec (handle E Pipe_readable) w))"
proof -
  have w: "w = exec (sysnoti_cb E) s" by (simp add: w_def)
  note served = client_served [OF assms(2,4,8,9,10,5,6,7,11,12)]
  obtain d where d: "action_lookup s t = Some d"
    using assms(8,13) by (auto simp: granted_def action_lookup_def split: option.splits)
  have "alive w" "queue_part w = post_action t (sn_argc m) (sn_argv m) (queue_part s)"
    "\<exists>h. trace w = FS (Close c) # IPC (Write_client 0) # h"
    using served assms(13) by (auto simp: w)
  moreover have "sn_argc m = int (length (sn_argv m))" using assms(9) by (simp add: sendable_msg_def)
  ultimately show ?thesis
    using post_runs [OF assms(1-3) d _ _ _ _ assms(5), where ev = Client] d by (simp add: w)
qed

lemma client_request_runs_action_witness:
  "\<exists>d. action_lookup (started start_env Map.empty) PREDEF_SET_DATETIME = Some d \<and>
    (let w = exec (handle start_env Client) (started start_env Map.empty) in
      left_by start_env (run_action start_env (predefine_action d) 1 [Some ''12'']) (calling w)
        (exec (handle start_env Pipe_readable) w))"
proof -
  let ?s = "started start_env Map.empty"
  obtain d where d: "action_lookup ?s PREDEF_SET_DATETIME = Some d"
    using reachable_lookup [OF reachable_started, of start_env Map.empty Fn_set_datetime_action] started_alive by auto
  then have "granted (\<lambda>_ _. True) time_request (predef_act_list ?s)"
    by (simp add: granted_def time_request_def CALL_SYSMAN_ACTION_def action_lookup_def PREDEF_SET_DATETIME_def
        split: option.split)
  moreover have "delivers start_env 7 (encode_msg time_request) (IPC Accept # OS (Malloc 88) # ECORE Fd_handler_active # h)" for h
    by (simp add: encode_msg_def time_request_def client_chunks_def reads_def Let_def)
  moreover have "e_ret start_env h (DL (Is_accessable lib p)) = 1" for h lib p by (simp add: start_env_def)
  moreover have "sn_type time_request = Some PREDEF_SET_DATETIME" "sn_argc time_request = 1" "sn_argv time_request = [Some ''12'']"
    by (simp_all add: time_request_def PREDEF_SET_DATETIME_def)
  moreover have "core_pipe ?s = []" using idle_started by (simp add: idle_def)
  ultimately show ?thesis
    using client_request_runs_action [OF reachable_started started_alive, of Map.empty 7 time_request PREDEF_SET_DATETIME "\<lambda>_ _. True"]
      time_request_ok d
    by (simp add: Let_def)
qed

end
