(* ===== verification/SS_Robust.thy ===== *)
theory SS_Robust
  imports SS_Alerts
begin

text \<open>
  What may end the daemon.  A notification, a timer of the battery, the memory or the
  popup handler, a change of the power-manager or power-saving keys and the death of a
  child never do, as long as the memory notifier sends states it is known to send.  What
  remains are the requests of clients and the functions they ask for, the power-off, and
  the command lines of other processes.
\<close>

section \<open>Computations a process survives\<close>

named_theorems lives_rules "a computation a process survives"

abbreviation lives :: "(ss, 'a) state \<Rightarrow> bool" where
  "lives m \<equiv> pres alive m"

lemmas lives_control [lives_rules] = pres_return pres_bind pres_getv pres_reads pres_if pres_case_prod
  pres_case_option pres_let pres_for_each

lemma lives_calls [lives_rules]:
  "lives (call E c)" "lives (call_out E c v)" "lives (call_str E c)" "lives (fopen E p m)" "lives (fprintf E p t)"
  by (simp_all add: pres_def fopen_def fopen_effect_def fprintf_def Let_def split: option.split)

lemma lives_sets [lives_rules]:
  "lives (set_bat f1)" "lives (set_mem f2)" "lives (set_cpu f3)" "lives (set_pre f4)" "lives (set_dev f5)"
  by (simp_all add: pres_def)

lemma lives_posts [lives_rules]:
  "argc \<le> SYSMAN_MAXARG \<Longrightarrow> lives (ss_action_entry_call_internal E (Some t) argc args)"
  by (simp add: pres_def exec_call_internal exec_run_queue_add split: option.split)

lemma few_args [lives_rules]: "0 \<le> SYSMAN_MAXARG" "1 \<le> SYSMAN_MAXARG"
  by (simp_all add: SYSMAN_MAXARG_def)

section \<open>The handlers\<close>

lemma lives_noti [lives_rules]:
  "lives (ss_noti_send E a1)" "lives (ss_noti_add E b1)" "lives (send_named E c1)"
  unfolding ss_noti_send_def ss_noti_add_def send_named_def
  by (intro lives_rules)+

lemma lives_bat_action [lives_rules]: "lives (bat_action E a)"
  by (cases a) (simp_all add: lives_rules)

lemma lives_lowbat [lives_rules]:
  "lives (ss_lowbat_set_charge_on E a1)" "lives (ss_lowbat_is_charge_in_now E)"
  "lives (set_status_low E c1 c2)" "lives (publish_level E d1 d2)" "lives (lowbat_read E)"
  "lives (publish_capacity E h1)" "lives (bat_transition E i1)" "lives (lowbat_process E j1)"
  "lives (ss_lowbat_monitor E)" "lives (wakeup_cb E l1)"
  unfolding ss_lowbat_set_charge_on_def ss_lowbat_is_charge_in_now_def set_status_low_def
    publish_level_def lowbat_read_def publish_capacity_def bat_transition_def lowbat_process_def
    ss_lowbat_monitor_def wakeup_cb_def
  by (intro lives_rules)+

lemma lives_lowmem [lives_rules]:
  "lives (remove_shm E)" "lives (memory_low_act E)" "lives (oom_cleanup E)"
  "lives (memory_oom_act E)" "lives (memory_normal_act E)"
  unfolding remove_shm_def memory_low_act_def oom_cleanup_def memory_oom_act_def
    memory_normal_act_def
  by (intro lives_rules)+

lemma lives_mem_action [lives_rules]: "lives (mem_action E a)"
  by (cases a) (simp_all add: lives_rules)

lemma lives_lowmem_process [lives_rules]:
  "lives (stop_oom_timer E)" "lives (lowmem_process E b1)" "lives (lowmem_read E c1)"
  "lives (lowmem_timer_cb E d1)"
  unfolding stop_oom_timer_def lowmem_process_def lowmem_read_def lowmem_timer_cb_def
  by (intro lives_rules)+

lemma lives_freq [lives_rules]:
  "lives (is_entry_enable E a1)" "lives (remove_entry_from_max_cpu_freq_list E b1)"
  "lives (add_entry_to_max_cpu_freq_list E c1 c2)" "lives (write_max_cpu_freq E d1)"
  "lives (write_cur_max E)" "lives (power_saving_cb E h1)" "lives (power_saving_cpu_cb E i1)"
  unfolding is_entry_enable_def remove_entry_from_max_cpu_freq_list_def
    add_entry_to_max_cpu_freq_list_def write_max_cpu_freq_def write_cur_max_def
    power_saving_cb_def power_saving_cpu_cb_def
  by (intro lives_rules)+

lemma lives_popups [lives_rules]:
  "lives (lowbat_popup E)" "lives (lowbat_warning_popup E)"
  unfolding lowbat_popup_def lowbat_warning_popup_def
  by (intro lives_rules)+

lemma lives_find_mmcblk [lives_rules]: "lives (find_mmcblk E ds)"
  by (induction ds) (auto intro!: lives_rules simp: read_type_def)

lemma lives_mount_partition [lives_rules]: "lives (mount_partition E b n)"
  by (induction n) (subst mount_partition.simps; intro lives_rules; simp add: mmc_mount_def lives_rules)+

lemma lives_mmc [lives_rules]:
  "lives (get_mmcblk_num E)" "lives (publish_mmc E b1 b2 b3)" "lives (mmc_mount E c1)"
  "lives (mount_card E d1)" "lives (ss_mmc_inserted E)" "lives (ss_mmc_removed E)"
  "lives (mmc_chgdet_cb E i1)"
  unfolding get_mmcblk_num_def publish_mmc_def mmc_mount_def mount_card_def ss_mmc_inserted_def
    ss_mmc_removed_def mmc_chgdet_cb_def
  by (intro lives_rules)+

lemma lives_ticker [lives_rules]: "lives (ticker_entries E kvs)" "lives (camera_name E ds buf)"
  by (induction kvs) (auto intro!: lives_rules, induction ds arbitrary: buf, auto intro!: lives_rules)

lemma lives_device [lives_rules]:
  "lives (earjack_chgdet_cb E)" "lives (earkey_chgdet_cb E)" "lives (tvout_chgdet_cb E)"
  "lives (hdmi_chgdet_cb E)" "lives (keyboard_chgdet_cb E)" "lives (show_tickernoti E h1)"
  "lives (keyboard_add_cb E)" "lives (keyboard_remove_cb E)" "lives (mouse_add_cb E)"
  "lives (mouse_remove_cb E)" "lives (camera_add_cb E)" "lives (otg_popup E n1)"
  "lives (camera_remove_cb E)" "lives (unknown_usb_add_cb E)" "lives (unknown_usb_remove_cb E)"
  "lives (ums_unmount_cb E)" "lives (usb_storage_cb E s1)"
  unfolding earjack_chgdet_cb_def earkey_chgdet_cb_def tvout_chgdet_cb_def hdmi_chgdet_cb_def
    keyboard_chgdet_cb_def show_tickernoti_def keyboard_add_cb_def keyboard_remove_cb_def
    mouse_add_cb_def mouse_remove_cb_def camera_add_cb_def otg_popup_def camera_remove_cb_def
    unknown_usb_add_cb_def unknown_usb_remove_cb_def ums_unmount_cb_def usb_storage_cb_def
  by (intro lives_rules)+

lemma lives_sigchld [lives_rules]: "lives (sig_child_handler E p)"
  by (simp add: pres_def sig_child_handler_def)

section \<open>Starting the notification program\<close>

text \<open>The model follows the parent when \<open>fork\<close> fails or returns the pid of a child.\<close>

definition in_parent :: "env \<Rightarrow> bool" where
  "in_parent E \<longleftrightarrow> (\<forall>h. e_ret E h (OS Fork) = -1 \<or> 0 < e_ret E h (OS Fork))"

text \<open>A command line has at most one argument more than characters, so a short one fits.\<close>

lemma lives_parse: "length str < MAX_ARGS \<Longrightarrow> lives (parse_cmd E (Some str) (MAX_ARGS + 1))"
  using length_all_args [of str] by (simp add: parse_cmd_def pres_def parse_args_all Let_def)

lemma parent_answer:
  assumes "in_parent E"
  shows "fst (result (launch_app_with_nice E f args None nc) s) \<noteq> -2" "lives (launch_app_with_nice E f args None nc)"
proof -
  have forked: "e_ret E h (OS Fork) = -1 \<or> 0 < e_ret E h (OS Fork)" for h using assms by (simp add: in_parent_def)
  show "fst (result (launch_app_with_nice E f args None nc) s) \<noteq> -2"
    using forked [of "trace (log_call (FS (Access (the f))) s)"] by (cases f) (auto simp: launch_app_with_nice_def)
  have "alive (exec (launch_app_with_nice E f args None nc) s)" if "alive s" for s
    using that forked [of "trace (log_call (FS (Access (the f))) s)"] by (cases f) (auto simp: launch_app_with_nice_def)
  then show "lives (launch_app_with_nice E f args None nc)" by (simp add: pres_def)
qed

lemma launch_cmd_lives:
  assumes "in_parent E" "length str < MAX_ARGS"
  shows "result (launch_app_cmd_with_nice E (Some str) nc) s \<noteq> -2" "lives (launch_app_cmd_with_nice E (Some str) nc)"
proof -
  show "result (launch_app_cmd_with_nice E (Some str) nc) s \<noteq> -2"
    using parent_answer(1) [OF assms(1)] by (simp add: launch_app_cmd_with_nice_def case_prod_beta)
  show "lives (launch_app_cmd_with_nice E (Some str) nc)"
    unfolding launch_app_cmd_with_nice_def by (intro lives_rules lives_parse assms(2) parent_answer(2) assms(1))
qed

lemma lives_launch:
  assumes "in_parent E" "length path + length (str_or_empty arg) < MAX_ARGS - 1"
  shows "lives (ss_launch_if_noexist E (Some path) arg)"
proof -
  let ?str = "path @ '' '' @ str_or_empty arg"
  have str: "length ?str < MAX_ARGS" using assms(2) by simp
  have lang: "lives (ss_set_current_lang E)" unfolding ss_set_current_lang_def by (intro lives_rules)
  have "lives (launch_tail E path arg nc)" for nc
  proof -
    have "lives (do { pid \<leftarrow> launch_app_cmd_with_nice E (Some ?str) nc;
        (if pid = -2 then halt (Exited 0) else return ()); return pid })"
      using launch_cmd_lives [OF assms(1) str, of nc] by (simp add: pres_def)
    then show ?thesis
      unfolding launch_tail_def by (rule pres_bind [OF lang pres_bind [OF lives_calls(1) pres_if [OF pres_return]]])
  qed
  then show ?thesis unfolding ss_launch_if_noexist_def read_nice_flag_def by (simp add: lives_rules)
qed

lemma lives_notifying:
  assumes "in_parent E"
  shows "lives (noti_charge E)" "lives (noti_full E CB_NOTI_ON)" "lives (noti_full E CB_NOTI_OFF)"
proof -
  have len: "length (show_int CB_NOTI_BATT_CHARGE) = 1" "length (show_int CB_NOTI_BATT_FULL) = 1"
    "length (show_int CB_NOTI_ON) = 1" "length (show_int CB_NOTI_OFF) = 1"
    by code_simp+
  show "lives (noti_charge E)" "lives (noti_full E CB_NOTI_ON)" "lives (noti_full E CB_NOTI_OFF)"
    unfolding noti_charge_def noti_full_def
    by (intro lives_rules lives_launch [OF assms]; simp add: len SYS_DEVICE_NOTI_def MAX_ARGS_def str_or_empty_def)+
qed

lemma lives_charging:
  assumes "in_parent E"
  shows "lives (usb_chgdet_cb E)" "lives (charger_changed E v)" "lives (ta_chgdet_cb E)"
    "lives (full_edge E v)" "lives (charge_cb E)"
  unfolding usb_chgdet_cb_def charger_changed_def ta_chgdet_cb_def full_edge_def charge_cb_def
  by (intro lives_rules lives_notifying [OF assms])+

section \<open>The memory notifier\<close>

text \<open>The kernel sends the states of \<open>ss_lowmem_handler.c\<close> and no others.\<close>

definition known_notices :: "env \<Rightarrow> int \<Rightarrow> bool" where
  "known_notices E fd \<longleftrightarrow> (\<forall>h. \<exists>v. e_out E h (FS (Read fd)) = Some v \<and> known_mem_state (word_of_int v))"

lemma memory_notice_survived:
  assumes "alive s" "known_mem_state (cur_mem_state (mem s))" "known_notices E (lowmem_fd (mem s))"
  shows "alive (exec (lowmem_cb E) s)"
proof -
  let ?s1 = "log_call (ECORE Fd_handler_active) s"
  obtain v where v: "e_out E (trace ?s1) (FS (Read (lowmem_fd (mem s)))) = Some v" "known_mem_state (word_of_int v)"
    using assms(3) unfolding known_notices_def by blast
  have "alive (exec (lowmem_process E (word_of_int v)) (log_call (FS (Read (lowmem_fd (mem s)))) ?s1))"
    using presD [OF lives_lowmem_process(2)] assms(1) by simp
  then show ?thesis
    using assms(1,2) v by (simp add: lowmem_cb_def lowmem_cb_in_def lowmem_read_def print_lowmem_state_def convert_to_str_def)
qed

section \<open>Properties\<close>

text \<open>The callbacks that react to the device and not to a request or to a file somebody wrote.\<close>

fun of_device :: "event \<Rightarrow> bool" where
  "of_device (Sigchld p) = True"
| "of_device (Timer TCB_ss_lowbat_monitor) = True"
| "of_device (Timer (TCB_lowmem a)) = True"
| "of_device (Timer TCB_lowbat_popup) = True"
| "of_device (Device d) = True"
| "of_device Memory_notice = True"
| "of_device (Pm_state k) = True"
| "of_device (Power_saving k) = True"
| "of_device (Power_saving_cpu k) = True"
| "of_device _ = False"

lemma device_event_survived:
  assumes "alive s" "known_mem_state (cur_mem_state (mem s))" "of_device ev" "in_parent E"
    and "known_notices E (lowmem_fd (mem s))"
  shows "alive (exec (handle E ev) s)"
proof -
  have dev: "lives (device_callback E d)" for d
    by (cases d) (auto intro: lives_rules lives_charging [OF assms(4)])
  have other: "lives (handle E ev)" if "ev \<noteq> Memory_notice"
    using that assms(3)
    by (cases ev rule: of_device.cases) (auto intro!: pres_bind pres_return intro: lives_rules dev)
  show ?thesis
  proof (cases "ev = Memory_notice")
    case True
    then show ?thesis using memory_notice_survived [OF assms(1,2,5)] by simp
  next
    case False
    then show ?thesis using presD [OF other] assms(1) by blast
  qed
qed

text \<open>The notifier is opened once, in the start-up.\<close>

interpretation notifier: bystander "\<lambda>s. lowmem_fd (mem s) = fd" for fd
  by unfold_locales simp_all

lemma notifier_sets:
  "pres (\<lambda>s. lowmem_fd (mem s) = fd) (set_cpu f)" "pres (\<lambda>s. lowmem_fd (mem s) = fd) (set_bat g)"
  "pres (\<lambda>s. lowmem_fd (mem s) = fd) (set_dev h)" "pres (\<lambda>s. lowmem_fd (mem s) = fd) (call E c)"
  "(\<And>m. lowmem_fd (k m) = lowmem_fd m) \<Longrightarrow> pres (\<lambda>s. lowmem_fd (mem s) = fd) (set_mem k)"
  by (simp_all add: pres_def)

lemma notifier_kept:
  "pres (\<lambda>s. lowmem_fd (mem s) = fd) (mem_action E a)" "pres (\<lambda>s. lowmem_fd (mem s) = fd) (lowmem_cb E)"
proof -
  show act: "pres (\<lambda>s. lowmem_fd (mem s) = fd) (mem_action E a)" for a
    by (cases a; simp only: mem_action.simps memory_low_act_def memory_oom_act_def oom_cleanup_def memory_normal_act_def;
      intro quiet notifier_sets; simp add: own_call_def)
  show "pres (\<lambda>s. lowmem_fd (mem s) = fd) (lowmem_cb E)"
    unfolding lowmem_cb_def lowmem_cb_in_def lowmem_read_def lowmem_process_def stop_oom_timer_def
    by (intro quiet notifier_sets act; simp add: own_call_def)
qed

interpretation notifier: serving "\<lambda>s. lowmem_fd (mem s) = fd" E for fd E
  by unfold_locales (rule notifier_kept notifier.quiet_frequency [OF notifier_sets(1,4)]
    notifier.quiet_lowbat [OF notifier_sets(2)] notifier.quiet_bat_vars [OF notifier_sets(2)]
    notifier.quiet_card [OF notifier_sets(3,4)])+

lemma device_event_kept:
  assumes "reachable E s" "daemon_step E s ev t" "of_device ev" "in_parent E" "known_notices E (lowmem_fd (mem s))"
  shows "alive t"
proof -
  have "known_mem_state (cur_mem_state (mem s))"
    using memory.reachable_seen [OF assms(1)] by (simp add: mem_legal_def)
  then show ?thesis using device_event_survived assms by (auto simp: daemon_step_iff)
qed

text \<open>
  C18: However many notifications of devices, polls of the battery, memory notices of known
  states, changes of the power-manager and power-saving keys and deaths of children come, in
  whatever order and from whatever state, the daemon lives: only what clients, crash reports
  or dead processes write, the functions of queued actions and the power-off itself can end it.
\<close>

theorem device_events_never_kill:
  assumes "daemon_run E s evs t" "reachable E s" "alive s" "\<forall>ev \<in> set evs. of_device ev"
    and "in_parent E" "known_notices E (lowmem_fd (mem s))"
  shows "alive t"
  using assms
proof (induction rule: daemon_run.induct)
  case stay
  then show ?case by simp
next
  case (more evs t ev u)
  have "reachable E t" using more.prems(1) more.hyps(1) by (rule reachable_run)
  moreover have "lowmem_fd (mem t) = lowmem_fd (mem s)"
    using notifier.run_keeps [OF more.hyps(1)] by simp
  ultimately show ?case
    using device_event_kept [OF _ more.hyps(2)] more.prems by simp
qed

lemma device_events_never_kill_witness:
  "alive (exec (handle start_env (Sigchld 9)) (exec (handle start_env (Device Charge_chgdet)) (started start_env Map.empty)))"
proof -
  let ?s = "started start_env Map.empty"
  have notices: "known_notices start_env (lowmem_fd (mem ?s))"
    using started_fresh(3) [of Map.empty] by (simp add: known_notices_def known_mem_state_def memnotify_defs)
  have one: "daemon_run start_env ?s [Device Charge_chgdet] (exec (handle start_env (Device Charge_chgdet)) ?s)"
    by (rule daemon_run_one [OF started_alive]) simp
  have parent: "in_parent start_env" by (simp add: in_parent_def)
  have "alive (exec (handle start_env (Device Charge_chgdet)) ?s)"
    using device_events_never_kill [OF one reachable_started started_alive _ parent notices] by simp
  then have "daemon_step start_env (exec (handle start_env (Device Charge_chgdet)) ?s) (Sigchld 9)
      (exec (handle start_env (Sigchld 9)) (exec (handle start_env (Device Charge_chgdet)) ?s))"
    by (rule daemon_step.callback) simp
  from device_events_never_kill [OF daemon_run.more [OF one this] reachable_started started_alive _ parent notices]
  show ?thesis by simp
qed

end
