(* ===== verification/SS_Card.thy ===== *)
theory SS_Card
  imports SS_Robust
begin

text \<open>
  The memory card over the life of the daemon: from the end of the start-up on, the status
  in the vconf key is the daemon's own copy, whatever happens in between.
\<close>

section \<open>Published\<close>

definition card_told :: "ss \<Rightarrow> bool" where
  "card_told s \<longleftrightarrow> mmc_published (trace s) = Some (mmc_status (dev s))"

interpretation card: bystander card_told
  by unfold_locales (simp_all add: card_told_def own_call_def mmc_quiet_def del: mmc_published.simps)

lemma card_sets: "pres card_told (set_cpu f)" "pres card_told (set_bat g)" "pres card_told (set_mem h)"
  by (simp_all add: pres_def card_told_def)

lemma card_calls: "\<nexists>v. c = VCONF (Set_int VK_MMC_STATUS v) \<Longrightarrow> pres card_told (call E c)"
  by (simp add: pres_def card_told_def mmc_quiet_def del: mmc_published.simps)

section \<open>Computations that publish it\<close>

text \<open>Whatever the state before, the key and the copy agree afterwards if the daemon lives.\<close>

definition publishes :: "(ss, 'a) state \<Rightarrow> bool" where
  "publishes m \<longleftrightarrow> (\<forall>s. alive (exec m s) \<longrightarrow> card_told (exec m s))"

lemma publishes_first:
  assumes "publishes m" "\<And>x. pres card_told (g x)" "\<And>x. obeys_halt (g x)"
  shows "publishes (m \<bind> g)"
  unfolding publishes_def
proof (intro allI impI)
  fix s
  assume "alive (exec (m \<bind> g) s)"
  then have "alive (exec m s)" using obeys_halt_alive [OF assms(3)] by simp
  then show "card_told (exec (m \<bind> g) s)"
    using assms(1) presD [OF assms(2)] by (simp add: publishes_def)
qed

lemma publishes_later: "(\<And>x. publishes (g x)) \<Longrightarrow> publishes (m \<bind> g)"
  by (simp add: publishes_def)

lemma publishes_if: "publishes m \<Longrightarrow> publishes n \<Longrightarrow> publishes (if b then m else n)"
  by simp

lemma publishes_halt: "publishes (halt e)"
  by (simp add: publishes_def)

lemma publishes_publish: "key \<noteq> VK_MMC_STATUS \<Longrightarrow> publishes (publish_mmc E st key how)"
  by (auto simp: publishes_def card_told_def publish_mmc_def)

lemma publishes_pres:
  assumes "publishes m" "lives m" "obeys_halt m"
  shows "pres card_told m"
  by (rule pres_alive [OF assms(3)]) (use assms(1) presD [OF assms(2)] in \<open>simp add: publishes_def\<close>)

section \<open>The card handler\<close>

lemma publishes_inserted: "publishes (ss_mmc_inserted E)"
proof -
  have already: "card_told (exec (do { call E (VCONF (Set_int VK_MMC_STATUS (konst E K_MMC_MOUNTED)));
      call E (VCONF (Set_int VK_MMC_MOUNT (konst E K_MMC_MOUNT_ALREADY))); return (-1 :: int) }) s)"
    if "alive s" "mmc_status (dev s) = konst E K_MMC_MOUNTED" for s
    using that by (simp add: card_told_def)
  define rest where "rest = do {
       acc \<leftarrow> call E (FS (Access MMC_MOUNT_POINT));
       (if acc \<noteq> 0 then do { call E (FS (Mkdir MMC_MOUNT_POINT 493)); return () } else return ());
       blk_num \<leftarrow> get_mmcblk_num E;
       if blk_num = -1 then do {
         publish_mmc E K_MMC_REMOVED VK_MMC_MOUNT K_MMC_MOUNT_FAILED;
         return (0 :: int)
       } else do {
         ok \<leftarrow> mount_card E blk_num;
         if ok then do {
           publish_mmc E K_MMC_MOUNTED VK_MMC_MOUNT K_MMC_MOUNT_COMPLETED;
           return 0
         } else do {
           publish_mmc E K_MMC_INSERTED_NOT_MOUNTED VK_MMC_MOUNT K_MMC_MOUNT_FAILED;
           return (-1)
         }
       }
     }"
  have ends: "publishes (do { publish_mmc E st VK_MMC_MOUNT how; return x })" for st how and x :: int
    by (rule publishes_first [OF publishes_publish]) (simp_all add: quiet stops)
  have "publishes rest"
    unfolding rest_def by (intro publishes_later publishes_if ends)
  then show ?thesis
    using already by (simp add: publishes_def ss_mmc_inserted_def rest_def [symmetric])
qed

lemma stops_publish [stops]: "obeys_halt (publish_mmc E st key how)"
  unfolding publish_mmc_def by (intro stops)

lemma card_publish: "key \<noteq> VK_MMC_STATUS \<Longrightarrow> pres card_told (publish_mmc E st key how)"
  by (intro publishes_pres publishes_publish lives_mmc stops)

lemma card_handler:
  "pres card_told (ss_mmc_inserted E)" "pres card_told (ss_mmc_removed E)" "pres card_told (ss_mmc_unmounted E argc argv)"
proof -
  show "pres card_told (ss_mmc_inserted E)"
    by (intro publishes_pres publishes_inserted lives_mmc stops)
  show "pres card_told (ss_mmc_removed E)"
    by (simp add: pres_def card_told_def ss_mmc_removed_def)
  show "pres card_told (ss_mmc_unmounted E argc argv)"
    unfolding ss_mmc_unmounted_def by (intro quiet card_publish; simp add: own_call_def)
qed

interpretation card: serving card_told E for E
  by unfold_locales (rule card_handler card.quiet_frequency [OF card_sets(1) card_calls]
    card.quiet_lowbat [OF card_sets(2)] card.quiet_bat_vars [OF card_sets(2)]
    card.quiet_lowmem [OF card_sets(3)] card.quiet_mem_vars [OF card_sets(3)] card.quiet_mem_action [OF card_sets(3)]; assumption?)+

section \<open>The start-up publishes it\<close>

lemma stops_registering [stops]:
  "obeys_halt (ss_action_entry_add_internal E ty g ui acc)" "obeys_halt (ss_usb_storage_init E)"
  "obeys_halt (ss_bs_init E)"
proof -
  show add: "obeys_halt (ss_action_entry_add_internal E ty g ui acc)" for ty g ui acc
    unfolding ss_action_entry_add_internal_def by (intro stops)
  show "obeys_halt (ss_usb_storage_init E)" unfolding ss_usb_storage_init_def by (intro stops add)
  have "obeys_halt (crash_lines E buf ret chunks)" for buf ret chunks
    by (induction chunks arbitrary: buf ret) (auto intro!: stops split: line_result.split)
  then show "obeys_halt (ss_bs_init E)"
    unfolding ss_bs_init_def make_noti_file_def launch_crash_worker_def by (intro stops)
qed

lemma publishes_start: "publishes (main_start E)"
proof -
  have init: "publishes (ss_mmc_init E)"
    unfolding ss_mmc_init_def by (rule publishes_first [OF publishes_inserted]) (intro quiet stops)+
  have "publishes (system_server_init E)"
    unfolding system_server_init_def
    by ((rule publishes_first [OF init] | rule publishes_if publishes_halt | rule publishes_later)+;
      intro quiet stops; simp add: own_call_def)
  then show ?thesis
    unfolding main_start_def system_main_def by (intro publishes_later)
qed

section \<open>What the key holds\<close>

text \<open>The value the successful writes of the daemon have left in an integer key.\<close>

fun key_content :: "env \<Rightarrow> vkey \<Rightarrow> hist \<Rightarrow> int option" where
  "key_content E k [] = None"
| "key_content E k (VCONF (Set_int j v) # h) =
     (if j = k \<and> 0 \<le> e_ret E h (VCONF (Set_int j v)) then Some v else key_content E k h)"
| "key_content E k (c # h) = key_content E k h"

lemma key_content_other: "\<forall>v. c \<noteq> VCONF (Set_int k v) \<Longrightarrow> key_content E k (c # h) = key_content E k h"
  by (cases "(E, k, c # h)" rule: key_content.cases) auto

lemma key_content_later:
  "\<forall>v. VCONF (Set_int k v) \<notin> set later \<Longrightarrow> key_content E k (later @ h) = key_content E k h"
proof (induction later)
  case (Cons c later)
  then show ?case using key_content_other [of c k E "later @ h"] by auto
qed simp

lemma published_split:
  "mmc_published tr = Some v \<Longrightarrow>
    \<exists>later h. tr = later @ VCONF (Set_int VK_MMC_STATUS v) # h \<and> (\<forall>w. VCONF (Set_int VK_MMC_STATUS w) \<notin> set later)"
proof (induction tr)
  case (Cons c tr)
  show ?case
  proof (cases "\<exists>w. c = VCONF (Set_int VK_MMC_STATUS w)")
    case True
    with Cons.prems have "c # tr = [] @ VCONF (Set_int VK_MMC_STATUS v) # tr" by auto
    then show ?thesis by (intro exI [of _ "[]"] exI [of _ tr]) simp
  next
    case False
    then have "mmc_published tr = Some v"
      using Cons.prems published_quiet [of c tr] by (simp add: mmc_quiet_def del: mmc_published.simps)
    then obtain later h where "tr = later @ VCONF (Set_int VK_MMC_STATUS v) # h"
      "\<forall>w. VCONF (Set_int VK_MMC_STATUS w) \<notin> set later" using Cons.IH by blast
    with False show ?thesis by (intro exI [of _ "c # later"] exI [of _ h]) auto
  qed
qed simp

lemma published_write:
  assumes "mmc_published tr = Some v"
  defines "write \<equiv> VCONF (Set_int VK_MMC_STATUS v)"
  shows "\<exists>later h. tr = later @ write # h \<and> (\<forall>v. VCONF (Set_int VK_MMC_STATUS v) \<notin> set later) \<and>
    key_content E VK_MMC_STATUS tr = (if 0 \<le> e_ret E h write then Some v else key_content E VK_MMC_STATUS h)"
proof -
  obtain later h where "tr = later @ write # h" "\<forall>w. VCONF (Set_int VK_MMC_STATUS w) \<notin> set later"
    using published_split [OF assms(1)] unfolding write_def by blast
  then show ?thesis by (intro exI [of _ later] exI [of _ h]) (simp add: key_content_later write_def)
qed

section \<open>Properties\<close>

text \<open>
  C7: In every state a living daemon reaches, whatever cards, requests and other events have
  come, the last status of the memory card it has written to the vconf key is the one it
  works with, and the key, which the other programs read, holds that status if the write
  succeeded.  The code does not look whether it did: after a failure the key keeps what the
  last successful write left there.
\<close>

theorem card_status_published:
  assumes "reachable E s" "alive s"
  defines "write \<equiv> VCONF (Set_int VK_MMC_STATUS (mmc_status (dev s)))"
  shows "\<exists>later h. trace s = later @ write # h \<and> (\<forall>v. VCONF (Set_int VK_MMC_STATUS v) \<notin> set later) \<and>
    key_content E VK_MMC_STATUS (trace s) =
      (if 0 \<le> e_ret E h write then Some (mmc_status (dev s)) else key_content E VK_MMC_STATUS h)"
proof -
  obtain F evs where run: "daemon_run E (started E F) evs s"
    using assms(1) by (auto simp: reachable_def)
  have "alive (started E F)"
    using run assms(2) by (induction rule: daemon_run.induct) (auto simp: daemon_step_iff)
  then have "card_told (started E F)"
    using publishes_start by (simp add: publishes_def started_def)
  then have "mmc_published (trace s) = Some (mmc_status (dev s))"
    using card.run_keeps [OF run] by (simp add: card_told_def)
  then show ?thesis unfolding write_def by (rule published_write)
qed

lemma card_status_published_witness:
  "key_content start_env VK_MMC_STATUS (trace (started start_env Map.empty)) =
    Some (mmc_status (dev (started start_env Map.empty)))"
proof -
  have "0 \<le> e_ret start_env h (VCONF c)" for h c by (simp add: start_env_def)
  then show ?thesis using card_status_published [OF reachable_started started_alive] by auto
qed

end
