(* ===== verification/SS_Pipe.thy ===== *)
theory SS_Pipe
  imports SS_Robust
begin

text \<open>
  The traffic on the daemon's pipe.  The daemon writes to a pipe it alone reads; were the pipe
  ever full, the write would block for ever.  The work left (messages in the pipe and entries
  that wait) grows by two for each request posted and by one for each death reported, and
  every message read makes it smaller.
\<close>

section \<open>Work added\<close>

named_theorems adding "how much work a computation adds"

definition adds :: "nat \<Rightarrow> (ss, 'a) state \<Rightarrow> bool" where
  "adds n m \<longleftrightarrow> (\<forall>s. work (exec m s) \<le> work s + n)"

text \<open>What leaves the queue and the pipe alone adds nothing.\<close>

interpretation still: onlooker "\<lambda>s. queue_part s = q" for q
  by unfold_locales simp_all

lemma still_sets:
  "pres (\<lambda>s. queue_part s = q) (set_bat f)" "pres (\<lambda>s. queue_part s = q) (set_mem g)"
  "pres (\<lambda>s. queue_part s = q) (set_cpu h)" "pres (\<lambda>s. queue_part s = q) (set_dev k)"
  "pres (\<lambda>s. queue_part s = q) (call E c)"
  by (simp_all add: pres_def)

lemmas still_own = still_sets still.quiet_bat_vars [OF still_sets(1)] still.quiet_mem_vars [OF still_sets(2)]
  still.quiet_frequency [OF still_sets(3,5)] still.quiet_card [OF still_sets(4,5)]

lemma adds_none:
  assumes "\<And>q. pres (\<lambda>s. queue_part s = q) m"
  shows "adds n m"
proof -
  have "queue_part (exec m s) = queue_part s" for s using presD [OF assms] by blast
  then show ?thesis unfolding adds_def work_def queue_part_def by simp
qed

lemma adds_then:
  assumes "\<And>q. pres (\<lambda>s. queue_part s = q) m" "\<And>x. adds n (g x)"
  shows "adds n (m \<bind> g)"
  using adds_none [OF assms(1), of 0] assms(2) by (fastforce simp: adds_def intro: order_trans)

lemma adds_seq: "adds a m \<Longrightarrow> (\<And>x. adds b (g x)) \<Longrightarrow> adds (a + b) (m \<bind> g)"
  by (fastforce simp: adds_def intro: order_trans)

lemmas adds_first = adds_seq [where b = 0, simplified]

lemma adds_branch:
  "adds n m \<Longrightarrow> adds n m' \<Longrightarrow> adds n (if c then m else m')"
  "(\<And>x y. adds n (g x y)) \<Longrightarrow> adds n (case p of (x, y) \<Rightarrow> g x y)"
  "adds n m \<Longrightarrow> (\<And>x. adds n (h x)) \<Longrightarrow> adds n (case q of None \<Rightarrow> m | Some x \<Rightarrow> h x)"
  by (simp_all split: prod.split option.split)

text \<open>A request is an entry and a message.\<close>

lemma adds_entry:
  "adds 1 (ss_run_queue_add E d argc argv)" "adds 1 ss_core_action_run" "adds 0 (ss_action_entry_find t)"
  by (auto simp: adds_def exec_run_queue_add work_def new_entry_def is_init_def ss_core_action_run_def
      ss_action_entry_find_def split: option.split)

lemma adds_request [adding]:
  "adds 2 (ss_action_entry_call_internal E t argc args)" "adds 2 (ss_action_entry_call E msg argc argv)"
proof -
  have entry: "adds 2 (do { ss_run_queue_add E d argc args; ss_core_action_run; return x })"
    for d argc args and x :: int
  proof -
    have "adds 1 (ss_core_action_run \<bind> (\<lambda>_. return x))"
      by (rule adds_first [OF adds_entry(2)]) (rule adds_none, rule pres_return)
    from adds_seq [OF adds_entry(1) this] show ?thesis by (simp add: numeral_2_eq_2)
  qed
  have return: "adds n (return x)" for n and x :: int by (rule adds_none) (rule pres_return)
  have find: "(\<And>x. adds n (g x)) \<Longrightarrow> adds n (ss_action_entry_find t \<bind> g)" for n t and g :: "_ \<Rightarrow> (ss, int) state"
    using adds_seq [OF adds_entry(3)] by (metis add_0)
  show "adds 2 (ss_action_entry_call_internal E t argc args)"
    unfolding ss_action_entry_call_internal_def
    by (intro adds_branch find entry return)
  show "adds 2 (ss_action_entry_call E msg argc argv)"
    unfolding ss_action_entry_call_def
    by (intro adds_branch find entry return adds_then [where m = "case _ of None \<Rightarrow> _ | Some x \<Rightarrow> _ x"] quiet still_sets)
qed

section \<open>The handlers\<close>

lemma adds_alert [adding]: "adds 2 (bat_action E a)" "adds 2 (mem_action E b)"
  by (cases a; cases b; simp only: bat_action.simps mem_action.simps memory_low_act_def memory_oom_act_def;
    (rule adding adds_branch | (rule adds_first, rule adding) | rule adds_then | rule adds_none |
      (intro quiet still_own; simp add: own_call_def))+)+

lemma adds_perhaps [adding]: "adds 2 (if c then ss_action_entry_call E msg argc argv else return x)"
  using adds_request(2) by (simp add: adds_none pres_return)

lemma adds_process [adding]: "adds 2 (lowbat_process E p)" "adds 2 (lowmem_process E st)" "adds 2 (serve_message E c msg)"
  unfolding lowbat_process_def bat_transition_def lowmem_process_def serve_message_def
  by ((rule adding adds_branch | (rule adds_first, rule adding) | rule adds_then | rule adds_none |
      (intro quiet still_own; simp add: own_call_def))+)+








section \<open>Deaths reported\<close>

text \<open>Each report of the signal handler asks for the process first.\<close>

fun is_wait :: "ecall \<Rightarrow> bool" where
  "is_wait (OS (Waitpid p)) = True"
| "is_wait _ = False"

definition waits :: "hist \<Rightarrow> nat" where
  "waits h = length (filter is_wait h)"

lemma waits_simps [simp]:
  "waits [] = 0" "waits (c # h) = (if is_wait c then Suc (waits h) else waits h)"
  by (simp_all add: waits_def)









section \<open>The functions of the daemon\<close>





section \<open>Properties\<close>






end
