(* ===== verification/SS_Plugin.thy ===== *)
theory SS_Plugin
  imports SS_Main
begin

text \<open>
  \<open>predefine_act_plugin/xxx-predefine.c\<close>: the example of a shared object with an action.  Its
  functions run in the process of the daemon.  Here they take the place of the call into the
  shared object, so that what the core loop promises of its functions holds for them too.
\<close>

section \<open>The functions\<close>

definition newline :: string where "newline = [CHR 0x0A]"

text \<open>Giving \<open>printf\<close> a NULL pointer for \<open>%s\<close> is undefined; here it ends the process.\<close>

definition sample_predefine_action :: "env \<Rightarrow> int \<Rightarrow> string option list \<Rightarrow> (ss, int) state" where
  "sample_predefine_action E argc argv = do {
     call E (OS (Printf (''kqwekrqkwerqwer'' @ newline)));
     for_each (\<lambda>i. do {
       a \<leftarrow> deref (argv_at argv i);
       call E (OS (Printf (a @ newline)));
       return ()
     }) [0..<nat argc];
     return 0
   }"

definition sample_is_accessable :: "env \<Rightarrow> int \<Rightarrow> (ss, int) state" where
  "sample_is_accessable E pid = do {
     call E (OS (Printf (''qwerqerqewr '' @ show_int pid @ newline)));
     return 1
   }"

definition sample_ui_viewable :: "env \<Rightarrow> (ss, int) state" where
  "sample_ui_viewable E = do { call E (OS (Printf (''kakak viewable'' @ newline))); return 1 }"

section \<open>The daemon with the plugin\<close>

definition run_with_sample :: "env \<Rightarrow> string \<Rightarrow> action_runner" where
  "run_with_sample E lib f argc argv =
     (if f = Fn_ext lib then sample_predefine_action E argc argv else run_action E f argc argv)"

lemma sample_rules:
  "frame queue_part (sample_predefine_action E argc argv)" "obeys_halt (sample_predefine_action E argc argv)"
  unfolding sample_predefine_action_def by (intro frames light_deref stops)+

interpretation with_sample: runner "run_with_sample E lib" for E lib
  by unfold_locales (simp_all add: run_with_sample_def sample_rules run_action_frame run_action_stops)

section \<open>What it prints\<close>

definition sample_output :: "string list \<Rightarrow> string list" where
  "sample_output ws = map (\<lambda>w. w @ newline) (''kqwekrqkwerqwer'' # ws)"

lemma sample_prints:
  assumes "alive s"
  shows "exec (sample_predefine_action E (int (length ws)) (map Some ws)) s =
      s\<lparr>trace := rev (map (OS \<circ> Printf) (sample_output ws)) @ trace s\<rparr>"
    "result (sample_predefine_action E argc argv) s = 0"
proof -
  let ?body = "\<lambda>i. do { a \<leftarrow> deref (argv_at (map Some ws) i); call E (OS (Printf (a @ newline))); return () }"
  have "exec (for_each ?body [0..<n]) t = t\<lparr>trace := rev (map (\<lambda>w. OS (Printf (w @ newline))) (take n ws)) @ trace t\<rparr>"
    if "alive t" "n \<le> length ws" for t n
    using that by (induction n) (simp_all add: exec_for_each argv_at_def log_call_def take_Suc_conv_app_nth)
  then show "exec (sample_predefine_action E (int (length ws)) (map Some ws)) s =
      s\<lparr>trace := rev (map (OS \<circ> Printf) (sample_output ws)) @ trace s\<rparr>"
    using assms by (simp add: sample_predefine_action_def sample_output_def log_call_def comp_def)
  show "result (sample_predefine_action E argc argv) s = 0" by (simp add: sample_predefine_action_def)
qed

section \<open>Properties\<close>

text \<open>
  C35: A request for the sample plugin, posted to an idle daemon, is done two callbacks later:
  the plugin has printed its banner and the arguments in their order, nothing else has
  changed, and the entry is gone from the queue.
\<close>

theorem sample_request_completes:
  assumes "alive s" "malloc_ok E" "daemon_inv s" "core_pipe s = []" "action_lookup s t = Some d"
    and "predefine_action d = Fn_ext lib" "length ws \<le> 16" "\<And>h. e_ret E h (ECORE Fd_handler_active) \<noteq> 0"
  defines "v \<equiv> exec (core_pipe_cb E (run_with_sample E lib)) (exec (core_pipe_cb E (run_with_sample E lib))
      (exec (ss_action_entry_call_internal E (Some t) (int (length ws)) (map Some ws)) s))"
  shows "queue_part v = (predef_act_list s, run_queue s, Suc (next_addr s), []) \<and> effects v = effects s \<and>
    trace v = ECORE Fd_handler_active # rev (map (OS \<circ> Printf) (sample_output ws)) @
      ECORE Fd_handler_active # OS (Malloc 80) # trace s"
proof -
  let ?args = "map Some ws" and ?u = "called_in s d (int (length ws)) (map Some ws)"
  have u: "alive ?u" "effects ?u = effects s" "trace ?u = ECORE Fd_handler_active # OS (Malloc 80) # trace s"
    using assms(1) by (simp_all add: called_in_def effects_def)
  note prints = sample_prints(1) [OF u(1), of E ws] sample_prints(2) [OF u(1), of E "int (length ws)" ?args]
  define r where "r = run_with_sample E lib (predefine_action d) (int (length ws)) (take (nat (int (length ws))) ?args)"
  have r: "r = sample_predefine_action E (int (length ws)) ?args"
    by (simp add: r_def run_with_sample_def assms(6))
  have run: "exec r ?u = ?u\<lparr>trace := rev (map (OS \<circ> Printf) (sample_output ws)) @ trace ?u\<rparr>" "result r ?u \<le> 0"
    using prints by (simp_all add: r)
  have "alive (exec r ?u)" "effects (exec r ?u) = effects s"
    using u by (simp_all add: run effects_def)
  moreover have "int (length ws) \<le> SYSMAN_MAXARG" using assms(7) by (simp add: SYSMAN_MAXARG_def)
  note runner.fast_completes [OF with_sample.runner_axioms [of E lib] assms(1-5) this assms(8),
      where args = ?args, folded r_def, OF run(2) calculation(1), folded v_def]
  ultimately show ?thesis using run(1) u(3) by simp
qed

text \<open>A daemon in which only the plugin is registered.\<close>

definition sample_entry :: action_entry where
  "sample_entry = \<lparr>owner_pid = 100, ae_type = ''xxx'', ae_path = ''/usr/lib/libxxx-predefine.so'',
     predefine_action = Fn_ext ''/usr/lib/libxxx-predefine.so'',
     ui_viewable = Some ''/usr/lib/libxxx-predefine.so'', is_accessable = Some ''/usr/lib/libxxx-predefine.so''\<rparr>"

lemma sample_request_completes_witness:
  "run_queue (exec (core_pipe_cb env1 (run_with_sample env1 ''/usr/lib/libxxx-predefine.so''))
     (exec (core_pipe_cb env1 (run_with_sample env1 ''/usr/lib/libxxx-predefine.so''))
       (exec (ss_action_entry_call_internal env1 (Some ''xxx'') (int (length [''a'', ''b''])) (map Some [''a'', ''b'']))
         (boot\<lparr>predef_act_list := [sample_entry]\<rparr>)))) = []"
proof -
  let ?s = "boot\<lparr>predef_act_list := [sample_entry]\<rparr>"
  have inv: "daemon_inv ?s"
    by (simp add: daemon_inv_def queue_inv_def queue_shape_def entries_ok_def table_ok_def queue_typed_def
        sample_entry_def well_bound_def)
  have look: "action_lookup ?s ''xxx'' = Some sample_entry" by (simp add: action_lookup_def sample_entry_def)
  have fn: "predefine_action sample_entry = Fn_ext ''/usr/lib/libxxx-predefine.so''" by (simp add: sample_entry_def)
  show ?thesis
    using sample_request_completes [OF _ _ inv _ look fn, of env1 "[''a'', ''b'']"]
    by (simp add: malloc_ok_def env1_def queue_part_def del: list.map length_Cons length_Suc_conv)
qed

end
