(* ===== verification/Spec2Isabelle.thy ===== *)
theory Spec2Isabelle
  imports SS_Scheduler SS_Programs SS_Frequency SS_Card SS_Pipe SS_Plugin
begin

text \<open>
  A model of the system server of a mobile device (the C files of the repository) and the
  theorems that make it correct.

  \<^bold>\<open>The program.\<close>  The daemon is one process with an ecore main loop.  Its centre is a table
  of named actions and a queue of runs of them: whoever wants something done (a handler of
  the daemon, or a client over a socket) asks for an action by name; an entry is put in the
  queue and a RUN message is written to the daemon's own pipe; the callback of the pipe
  calls the function of every entry that waits.  A function that starts a process answers
  its pid, and the entry stays until SIGCHLD reports the end of that process, which posts a
  CLEAR message; an entry whose function ends at once is marked done and cleared the same
  way.  Around this centre stand handlers that react to the battery, the memory notifier,
  plug-and-unplug notifications, the death of processes and crash reports, and the
  functions of the actions themselves.

  \<^bold>\<open>Theories and files.\<close>  Each theory opens with what it models.
  \<^item> SS_Prelude: C strings, \<open>atoi\<close>, \<open>%d\<close>, the bounds of \<open>int\<close>, list lemmas.
  \<^item> SS_Env: every call that leaves \<open>src/\<close>, as a value of \<open>ecall\<close>, and the
    environment \<open>env\<close> that decides the outcome of a call from the calls made before it.
  \<^item> SS_State: the record \<open>ss\<close> with the static variables of all files, the structures of
    \<open>ss_queue.h\<close>, the trace of external calls, and the primitives C functions are made of.
  \<^item> SS_Rules: rules for computations (below).  SS_Files: descriptors and C strings in
    buffers.  SS_Data: \<open>include/ss_data.h\<close> and the state of a process at its start.
    SS_Log: \<open>ss_log.h\<close>, \<open>ss_log.c\<close>: what becomes of a logging macro in a build.
  \<^item> SS_Queue: \<open>ss_queue.c\<close>.  SS_Core: \<open>ss_core.c\<close>, \<open>ss_sig_handler.c\<close>; SS_Invariant: the
    invariant of table, queue and pipe every other component has to keep.  SS_Launch:
    \<open>ss_launch.c\<close>.  SS_Noti: \<open>ss_noti.c\<close>, \<open>ss_device_plugin.c\<close>.
  \<^item> SS_Procmgr: \<open>ss_procmgr.c\<close>.  SS_Cpu: \<open>ss_cpu_handler.c\<close>.  SS_Lowbat:
    \<open>ss_lowbat_handler.c\<close>.  SS_Lowmem: \<open>ss_lowmem_handler.c\<close>.  SS_Predefine:
    \<open>ss_predefine.c\<close>.  SS_Mmc: \<open>ss_mmc_handler.c\<close>.  SS_UsbStorage:
    \<open>ss_usb_storage_handler.c\<close>.  SS_Device: \<open>ss_device_change_handler.c\<close>,
    \<open>ss_usb_handler.c\<close>, \<open>ss_ta_handler.c\<close>.  SS_Sysnoti: \<open>ss_sysnoti.c\<close>.  SS_Timemgr:
    \<open>ss_timemgr.c\<close>.  SS_Pmon: \<open>ss_pmon_handler.c\<close>.  SS_Bs: \<open>ss_bs.c\<close>.
  \<^item> SS_Programs: \<open>sys_device_noti.c\<close>, \<open>restart.c\<close>, \<open>sys_event.c\<close>, processes of their own.
  \<^item> SS_Main: \<open>ss_main.c\<close>, the dispatch of an entry to its function, and the main loop as
    the step relation \<open>daemon_step\<close>; one step is one callback.  SS_Start: a concrete
    device on which the daemon starts.
  \<^item> SS_Scheduler: an abstract scheduler and the simulation of it by the daemon.
    SS_Isolation: which handlers keep a property of the variables of the battery, the memory,
    the frequency or the card handler.  SS_Frequency: the frequency in every reachable
    state.  SS_Card: the card status in every reachable state.  SS_Alerts: from a client's
    message, a battery poll or a memory notice to the function of the action.  SS_Robust:
    which callbacks can end the daemon.  SS_Pipe: how many messages the pipe can hold.
    SS_Plugin: \<open>xxx-predefine.c\<close>, the sample plug-in, run by the core loop.  This theory:
    the other properties of the whole daemon.

  A definition has the name of the C function it models.  A static variable is a field of
  the sub-record of its file (\<open>bat\<close>, \<open>mem\<close>, \<open>cpu\<close>, \<open>pre\<close>, \<open>dev\<close>); the table, the queue and
  the pipe are the fields \<open>predef_act_list\<close>, \<open>run_queue\<close> and \<open>core_pipe\<close>.

  \<^bold>\<open>Conventions.\<close>  A C function is a computation \<open>(ss, 'a) state\<close>.  Errors are the values
  the code returns.  What ends the process (a NULL dereference, an index out of bounds, a
  failed assertion, \<open>exit\<close>, a reboot, a read that blocks) is a value of \<open>fault\<close> in
  \<open>halted\<close>; from then on nothing changes the state, and \<open>alive\<close> says it has not happened.
  What an external call returns, stores through a pointer or gives as a string is
  \<open>e_ret\<close>, \<open>e_out\<close> and \<open>e_str\<close> of the environment, applied to the trace so far, so that the
  same call may answer differently each time.  A local variable the code reads before it is
  set has an arbitrary value of the environment (\<open>get_junk\<close>).

  \<^bold>\<open>How the proofs are carried.\<close>
  \<^item> \<open>frames\<close>: which part of the state a computation leaves alone; \<open>stops\<close>: a dead process
    does nothing; \<open>presI\<close>: a computation preserves an invariant; \<open>emitsI\<close>: every call a
    computation makes satisfies a predicate.  One rule per construct of the monad and one
    per operation, so that a proof about a handler is one \<open>intro\<close>.
  \<^item> Locale \<open>registrar\<close>: what a registration does to the table, interpreted on the two
    functions of \<open>ss_queue.c\<close>.  Locale \<open>runner\<close>: what the core loop asks of the functions
    it calls through a pointer, interpreted on the dispatch of SS_Main and on the same
    dispatch with the functions of the sample plug-in in it (\<open>with_sample\<close>).  Locale
    \<open>loop_runner\<close> asks less, that they may report deaths of children; a \<open>runner\<close> is one that
    reports none (sublocale), and \<open>signalled\<close> is the interpretation on the functions of SS_Main
    interrupted by the signal handler.  Locale \<open>freq_book\<close>:
    the book of frequency requests, interpreted on the upper and on the lower bounds.
  \<^item> Locale \<open>callback_safe\<close>: an invariant that survives the queueing of an action and does
    not look beside queue, table and pipe; each component proves in it, once, that its
    handlers keep such an invariant.  \<open>startup_safe\<close> extends it by registration.  They are
    interpreted on \<open>daemon_inv\<close>, on \<open>running_as\<close> (an entry runs a process) and on \<open>named\<close> (a
    name stays bound).
  \<^item> Locale \<open>onlooker\<close>: a property of the state that no external call outside \<open>own_call\<close> and no
    change of variables of other components breaks; \<open>bystander\<close> adds changes of the queue, and
    its \<open>quiet\<close> lemmas show that most handlers keep such a property.  \<open>starting\<close> and \<open>serving\<close>
    extend it by what the few handlers that own those variables keep, at the start-up and in
    a callback, and \<open>watched\<close> joins them: the property then holds in every reachable state.
    They are interpreted on the frequency (with what the kernel was told last), the battery,
    the memory and the card status.
  \<^item> Locale \<open>counted_runner\<close>: a \<open>loop_runner\<close> whose functions post no message but the reports
    of deaths; interpreted on the dispatch of SS_Main, interrupted by signals or not.
  \<^item> \<open>left_by\<close>: the core loop has called a given function in a given state; what it leaves
    beside the queue is what the function left, and the external calls it made are the
    function's.  The properties that follow a request to its action are stated with it.
  \<^item> \<open>daemon_inv\<close>, shown for every reachable state, says that names are unique, every
    entry's function is the one that belongs to its name, and for every entry of the queue
    the message that moves it on is under way.
  \<^item> Refinement: every run of the daemon, signals included, is a run of the abstract
    scheduler of SS_Scheduler (\<open>scheduled\<close> interprets \<open>callback_safe\<close> on the simulation), in
    which a job is submitted, started once, finished or ended by the report of its death;
    the actions on applications implement the abstract step \<open>app_step\<close> on
    (foreground or background, locked or not); the alerts of the battery, the table of the
    memory notifier and the parsing of messages and command lines are compared with
    specifications that do not mention the code's loops.

  \<^bold>\<open>Bounds and fuel.\<close>  The loop that waits for the end of the power-off animation has
  \<open>WAIT_FUEL\<close> = 601 iterations: it waits at most 60 seconds, 0.1 seconds at a time, so a
  clock that runs ends it before; the property on power-down shows it.  \<open>RECV_FUEL\<close> = 1000 bounds the
  reads that only \<open>EINTR\<close> repeats: a read that is interrupted 1000 times in a row is
  \<open>Blocked\<close>, and every other outcome of the loop needs one read more than the interruptions
  before it.  All other recursions are structural.

  \<^bold>\<open>Abstractions.\<close>  \<open>malloc\<close> may fail where the code tests it; \<open>strdup\<close> and
  \<open>eina_list_prepend\<close> succeed.  An address is not reused.  The capacity of the pipe is not modelled, but the property on its traffic
  bounds what it holds by the requests and the deaths since: a pipe of 64 KiB has room for
  8192 messages of 8 bytes.  The signal handler,
  which only writes to the pipe, runs between callbacks (\<open>Sigchld\<close>) or, in \<open>Pipe_interrupted\<close>,
  any number of times before the function of a queued action returns to the core loop.  A plug-in is a call to the environment: it
  does not change the daemon's own variables.  The text printed to logs is left out;
  the arguments of a log macro that have an effect are evaluated where the build that is
  shipped evaluates them.

  \<^bold>\<open>Not modelled.\<close>  The text of the logs; build files and scripts; \<open>ecore_init\<close>, what ecore
  does to pick the next callback (any enabled one may run) and what follows the end of its
  loop; the empty handler of SIGPIPE; the fields of \<open>ss_main_data\<close>, which only store
  descriptors.
\<close>

section \<open>The daemon as a whole\<close>

text \<open>
  C12: In every state the daemon can reach, the names in the action table are distinct,
  each built-in function stands under its own name and every other one comes from the shared
  object whose path the entry records, and what waits or runs in the queue is an entry of
  the table.
\<close>

theorem registered_functions_only:
  assumes "reachable E s"
  shows "distinct (map ae_type (predef_act_list s)) \<and> list_all well_bound (predef_act_list s) \<and>
    (\<forall>e \<in> set (run_queue s). rq_action_entry e \<in> set (predef_act_list s))"
  using reachable_inv [OF assms]
  by (auto simp: daemon_inv_def table_ok_def queue_typed_def list_all_iff)

lemma registered_functions_only_witness:
  "distinct (map ae_type (predef_act_list (started env1 Map.empty)))"
  using registered_functions_only [OF reachable_started [of env1 Map.empty]] by blast

text \<open>
  C1: Whatever callbacks have run in whatever order, a daemon that is alive has forgotten no
  request: for an entry that waits a RUN message is under way, for one that is done the
  message that frees it is, and one that runs belongs to a process.  No entry is stored
  twice, and no argument vector is longer than the 16 the array holds.
\<close>

theorem no_request_forgotten:
  assumes "reachable E s" "alive s" "e \<in> set (run_queue s)"
  shows "(case rq_state e of
      SS_STATE_INIT \<Rightarrow> forked_pid e = 0 \<and> run_pending s
    | SS_STATE_RUNNING \<Rightarrow> 0 < forked_pid e
    | SS_STATE_DONE \<Rightarrow> forked_pid e = -1 \<and> clear_pending s) \<and>
    rq_argc e \<le> SYSMAN_MAXARG \<and> distinct (map rq_addr (run_queue s))"
  using reachable_inv [OF assms(1)] assms(2,3)
  by (cases "rq_state e") (auto simp: daemon_inv_def queue_inv_def entries_ok_def queue_shape_def)

lemma no_request_forgotten_witness:
  "\<exists>s e. reachable start_env s \<and> e \<in> set (run_queue s) \<and> rq_state e = SS_STATE_INIT \<and> run_pending s"
proof -
  obtain e where e: "e \<in> set (run_queue waiting_state)" "rq_state e = SS_STATE_INIT"
    using waiting_queue by auto
  have "run_pending waiting_state"
    using no_request_forgotten [OF reachable_waiting _ e(1)] waiting_queue e(2) by simp
  then show ?thesis using reachable_waiting e by blast
qed

text \<open>
  C2: The pipe callback always catches up: from every reachable state, as many callbacks as
  there are messages and waiting entries leave the pipe empty, unless an action has killed
  the daemon, and then every entry that is still in the queue runs a process.
\<close>

theorem pipe_drains:
  assumes "reachable E s" "\<And>h. e_ret E h (ECORE Fd_handler_active) \<noteq> 0" "work s \<le> n"
  defines "t \<equiv> pipe_callbacks E (run_action E) n s"
  assumes "alive t"
  shows "core_pipe t = [] \<and> (\<forall>e \<in> set (run_queue t). rq_state e = SS_STATE_RUNNING \<and> 0 < forked_pid e)"
proof -
  have "queue_inv s" using reachable_inv [OF assms(1)] by (simp add: daemon_inv_def)
  then have "core_pipe t = [] \<and> queue_inv t"
    unfolding t_def using daemon.pipe_callbacks_drain [of s E, OF _ assms(2,3)] assms(5) by (simp add: t_def)
  then show ?thesis using daemon.drained_entries [of t] assms(5) by blast
qed

lemma pipe_drains_witness:
  "core_pipe (pipe_callbacks start_env (run_action start_env) 2 waiting_state) = []"
  using pipe_drains [OF reachable_waiting _ _ waiting_drained] work_waiting by simp

text \<open>
  C4: Posting an action to an idle daemon calls the function registered under that name,
  once, with the arguments posted and in the state the daemon is in: what the next pipe
  callback does beside the queue is exactly what that function does, and the external calls
  it makes are those of the function.  The entry then runs
  the process the function names, or is done if the function names none that exists.
\<close>

theorem posted_action_runs:
  fixes args :: "string option list"
  assumes "alive s" "malloc_ok E" "daemon_inv s" "core_pipe s = []" "action_lookup s t = Some d"
    and "argc \<le> SYSMAN_MAXARG" "\<And>h. e_ret E h (ECORE Fd_handler_active) \<noteq> 0"
  defines "m \<equiv> run_action E (predefine_action d) argc (take (nat argc) args)"
    and "u \<equiv> called_in s d argc args"
    and "v \<equiv> exec (core_pipe_cb E (run_action E)) (exec (ss_action_entry_call_internal E (Some t) argc args) s)"
  shows "effects u = effects s \<and> left_by E m u v \<and>
    (alive v \<longrightarrow> run_queue v =
      (if 0 < result m u \<and> e_ret E (trace (exec m u)) (FS (Access (status_path (result m u)))) = 0
       then (new_entry s d argc args)\<lparr>rq_state := SS_STATE_RUNNING, forked_pid := result m u\<rparr>
       else (new_entry s d argc args)\<lparr>rq_state := SS_STATE_DONE, forked_pid := -1\<rparr>) # run_queue s)"
proof -
  have v: "v = exec (core_finish E (next_addr s) (result m u)) (exec m u)"
    unfolding v_def m_def u_def using assms(1-7) by (rule daemon.posted_run)
  have u: "effects u = effects s" by (simp add: u_def called_in_def effects_def)
  have q: "run_queue (exec m u) = (new_entry s d argc args)\<lparr>rq_state := SS_STATE_RUNNING\<rparr> # run_queue s"
    unfolding m_def daemon.act_parts(1) by (simp add: u_def called_in_def)
  have old: "x \<in> set (run_queue s) \<Longrightarrow> rq_addr x \<noteq> next_addr s" for x
    using assms(1,3) by (auto simp: daemon_inv_def queue_inv_def queue_shape_def)
  have "alive v \<longleftrightarrow> alive (exec m u)"
    using effects_finish [of E "next_addr s" "result m u" "exec m u"] by (simp add: v effects_def alive_def)
  then show ?thesis
    using u v left_by_finish [of E m u] finish_queue [OF _ q, of "next_addr s" E "result m u"] old
    by (auto simp: new_entry_def)
qed

lemma posted_action_runs_witness:
  "\<exists>d. action_lookup idle_state PREDEF_USB_STORAGE_REMOVE = Some d \<and>
    left_by start_env (run_action start_env (predefine_action d) 1 [None]) (called_in idle_state d 1 [None])
      (exec (core_pipe_cb start_env (run_action start_env)) waiting_state)"
proof -
  obtain d where d: "action_lookup idle_state PREDEF_USB_STORAGE_REMOVE = Some d" using idle_lookup by blast
  have "idle idle_state" using idle_started by (simp add: idle_state_def)
  then show ?thesis
    using posted_action_runs [OF _ _ daemon_inv_idle _ d, where E = start_env and argc = 1 and args = "[None]"] d
    by (simp add: idle_def SYSMAN_MAXARG_def waiting_is_post)
qed

text \<open>An entry of the table.\<close>

definition table_entry :: "string \<Rightarrow> action_fn \<Rightarrow> action_entry" where
  "table_entry t f = \<lparr>owner_pid = 100, ae_type = t, ae_path = [], predefine_action = f,
     ui_viewable = None, is_accessable = None\<rparr>"

text \<open>
  C5: A request whose function starts no process is over two pipe callbacks after it was
  posted to an idle daemon: table and queue are what they were, the pipe is empty again,
  what has changed beside them is what the function itself changed, and the external calls
  are those of the function.
\<close>

theorem fast_request_completes:
  fixes args :: "string option list"
  assumes "alive s" "malloc_ok E" "daemon_inv s" "core_pipe s = []" "action_lookup s t = Some d"
    and "argc \<le> SYSMAN_MAXARG" "\<And>h. e_ret E h (ECORE Fd_handler_active) \<noteq> 0"
  defines "m \<equiv> run_action E (predefine_action d) argc (take (nat argc) args)"
    and "u \<equiv> called_in s d argc args"
    and "v \<equiv> exec (handle E Pipe_readable) (exec (handle E Pipe_readable)
        (exec (ss_action_entry_call_internal E (Some t) argc args) s))"
  assumes "result m u \<le> 0" "alive (exec m u)"
  shows "queue_part v = (predef_act_list s, run_queue s, Suc (next_addr s), []) \<and> effects v = effects (exec m u) \<and>
    trace v = ECORE Fd_handler_active # trace (exec m u)"
  using runner.fast_completes [OF daemon.runner_axioms [of E] assms(1-7) assms(11) [unfolded m_def u_def]
      assms(12) [unfolded m_def u_def]]
  by (simp add: v_def m_def u_def)

lemma fast_request_completes_witness:
  "run_queue (exec (handle start_env Pipe_readable) (exec (handle start_env Pipe_readable)
     (exec (ss_action_entry_call_internal start_env (Some PREDEF_USB_STORAGE_REMOVE) 1 [None])
       (boot\<lparr>predef_act_list := [table_entry PREDEF_USB_STORAGE_REMOVE Fn_ss_usb_storage_removed]\<rparr>)))) = []"
proof -
  let ?d = "table_entry PREDEF_USB_STORAGE_REMOVE Fn_ss_usb_storage_removed"
  let ?s = "boot\<lparr>predef_act_list := [?d]\<rparr>"
  have "daemon_inv ?s"
    by (simp add: daemon_inv_def queue_inv_def queue_shape_def entries_ok_def table_ok_def
        queue_typed_def table_entry_def well_bound_def)
  moreover have "action_lookup ?s PREDEF_USB_STORAGE_REMOVE = Some ?d"
    by (simp add: action_lookup_def table_entry_def)
  moreover have "predefine_action ?d = Fn_ss_usb_storage_removed" by (simp add: table_entry_def)
  ultimately show ?thesis
    using fast_request_completes [of ?s start_env PREDEF_USB_STORAGE_REMOVE ?d 1 "[None]"]
    by (simp add: SYSMAN_MAXARG_def ss_usb_storage_removed_def argv_at_def called_in_def queue_part_def)
qed

text \<open>
  C17: As long as the kernel does not report the death of its process, an entry that runs
  one stays in the queue, whatever else the daemon does: no request, notification, timer
  or death of another process frees it.
\<close>

theorem running_entry_kept:
  assumes "daemon_inv s" "e \<in> set (run_queue s)" "rq_state e = SS_STATE_RUNNING"
    and "clear_msg (forked_pid e) \<notin> set (core_pipe s)" "alive s"
    and "daemon_run E s evs t" "\<forall>ev \<in> set evs. forked_pid e \<notin> deaths_in ev" "alive t"
  shows "e \<in> set (run_queue t)"
proof -
  note inv = assms(1)
  have "entry_ok (rq_state e) (forked_pid e) (run_pending s) (clear_pending s)"
    using inv assms(2,5) by (simp add: daemon_inv_def queue_inv_def entries_ok_def)
  then have "0 < forked_pid e" using assms(3) by simp
  moreover have "running_as e s" using assms(2,4) by (simp add: running_as_def)
  ultimately have "running_as e t" using running_as_run [OF assms(6)] inv assms(3,7) by blast
  then show ?thesis using assms(8) by (simp add: running_as_def)
qed

text \<open>A table with one built-in action, and an entry of it that runs process \<open>pid\<close>.\<close>

definition running_state :: "int \<Rightarrow> ss" where
  "running_state pid = boot\<lparr>predef_act_list := [table_entry PREDEF_USBCON Fn_usbcon_def_predefine_action],
     run_queue := [\<lparr>rq_addr = 0, rq_state = SS_STATE_RUNNING,
       rq_action_entry = table_entry PREDEF_USBCON Fn_usbcon_def_predefine_action,
       forked_pid = pid, rq_argc = 0, rq_argv = []\<rparr>],
     next_addr := 1\<rparr>"

lemma running_state_inv: "0 < pid \<Longrightarrow> daemon_inv (running_state pid)"
  by (simp add: running_state_def daemon_inv_def queue_inv_def queue_shape_def entries_ok_def table_ok_def
      queue_typed_def table_entry_def well_bound_def SYSMAN_MAXARG_def)

lemma sigchld_running: "daemon_run env1 (running_state 7) [Sigchld 5] (exec (sig_child_handler env1 5) (running_state 7))"
  using daemon_run_one [of "running_state 7" "Sigchld 5" env1] by (simp add: running_state_def)

lemma running_entry_kept_witness:
  "run_queue (exec (sig_child_handler env1 5) (running_state 7)) \<noteq> []"
proof -
  let ?s = "running_state 7" and ?t = "exec (sig_child_handler env1 5) (running_state 7)"
  obtain e where e: "run_queue ?s = [e]" "rq_state e = SS_STATE_RUNNING" "forked_pid e = 7"
    by (simp add: running_state_def)
  have "e \<in> set (run_queue ?t)"
    by (rule running_entry_kept [OF running_state_inv _ _ _ _ sigchld_running])
      (use e in \<open>simp_all add: running_state_def sig_child_handler_def\<close>)
  then show ?thesis by auto
qed

text \<open>
  C22: When the USB server is already running, the launcher answers 1 and not the pid of the
  server, so that the entry of a USB request is filed under process 1.  The kernel never
  reports the death of that process to the daemon, and without such a report nothing the
  daemon does ever frees the entry.
\<close>

theorem usb_entry_never_freed:
  fixes E s
  assumes "alive s" "malloc_ok E" "daemon_inv s" "core_pipe s = []" "action_lookup s PREDEF_USBCON = Some d"
    and "predefine_action d = Fn_usbcon_def_predefine_action" "\<And>h. e_ret E h (ECORE Fd_handler_active) \<noteq> 0"
    and "\<And>h. e_ret E h (OEM (Get OEM_jack_usb_online)) = 0" "\<And>h. e_out E h (OEM (Get OEM_jack_usb_online)) = Some v"
    and "v \<noteq> 0" "\<And>h. 0 < e_ret E h (SYSMAN (Get_pid USBCON_EXEC_PATH))" "\<And>h. e_ret E h (FS (Access (status_path 1))) = 0"
  defines "t \<equiv> exec (core_pipe_cb E (run_action E)) (exec (ss_action_entry_call_internal E (Some PREDEF_USBCON) 0 []) s)"
  shows "alive t \<and> (\<exists>e \<in> set (run_queue t). rq_action_entry e = d \<and> rq_state e = SS_STATE_RUNNING \<and> forked_pid e = 1 \<and>
    (\<forall>evs u. daemon_run E t evs u \<longrightarrow> (\<forall>ev \<in> set evs. 1 \<notin> deaths_in ev) \<longrightarrow> alive u \<longrightarrow> e \<in> set (run_queue u)))"
proof -
  define m where "m = run_action E (predefine_action d) 0 (take (nat 0) [])"
  define u0 where "u0 = called_in s d 0 []"
  have t: "t = exec (core_finish E (next_addr s) (result m u0)) (exec m u0)"
    unfolding t_def m_def u0_def by (rule daemon.posted_run [OF assms(1-5)]) (simp_all add: SYSMAN_MAXARG_def assms(7))
  have u0: "alive u0" "core_pipe u0 = []" using assms(1) by (simp_all add: u0_def called_in_def)
  have launch: "result (ss_launch_if_noexist E (Some USBCON_EXEC_PATH) None) w = 1"
    "exec (ss_launch_if_noexist E (Some USBCON_EXEC_PATH) None) w = log_call (SYSMAN (Get_pid USBCON_EXEC_PATH)) w" for w
    using launch_if_noexist_running [OF assms(11)] by (simp_all add: result_def exec_def)
  have m: "result m u0 = 1" "alive (exec m u0)" "core_pipe (exec m u0) = []"
    using u0 assms(8-10) by (simp_all add: m_def assms(6) usbcon_def_predefine_action_def launch)
  have q: "run_queue (exec m u0) = (new_entry s d 0 [])\<lparr>rq_state := SS_STATE_RUNNING\<rparr> # run_queue s"
    unfolding m_def daemon.act_parts(1) by (simp add: u0_def called_in_def)
  define e where "e = (new_entry s d 0 [])\<lparr>rq_state := SS_STATE_RUNNING, forked_pid := 1\<rparr>"
  have old: "x \<in> set (run_queue s) \<Longrightarrow> rq_addr x \<noteq> next_addr s" for x
    using assms(1,3) by (auto simp: daemon_inv_def queue_inv_def queue_shape_def)
  have queue: "run_queue t = e # run_queue s"
    unfolding t using finish_queue [OF m(2) q _ _ old] m(1) assms(12) by (simp add: e_def new_entry_def)
  have al: "alive t" "core_pipe t = []"
    using m assms(12) by (simp_all add: t core_finish_def)
  then have as: "running_as e t" by (simp add: running_as_def queue)
  have inv: "daemon_inv t"
    unfolding t_def by (intro presD [OF daemon.pres_daemon_pipe] presD [OF inv.pres_posts] assms(3))
  have e: "rq_action_entry e = d" "rq_state e = SS_STATE_RUNNING" "forked_pid e = 1"
    by (simp_all add: e_def new_entry_def)
  have "e \<in> set (run_queue u)" if "daemon_run E t evs u" "\<forall>ev \<in> set evs. 1 \<notin> deaths_in ev" "alive u" for evs u
    using running_as_run [OF that(1) as inv e(2)] e(3) that(2,3) by (simp add: running_as_def)
  then show ?thesis using al queue e by auto
qed

text \<open>A device with the USB cable plugged in and the USB server running.\<close>

definition plugged_env :: env where
  "plugged_env = env1\<lparr>e_ret := \<lambda>h c. case c of OEM _ \<Rightarrow> 0 | FS _ \<Rightarrow> 0 | _ \<Rightarrow> 1, e_out := \<lambda>h c. Some 1\<rparr>"

definition plugged_state :: ss where
  "plugged_state = boot\<lparr>predef_act_list := [table_entry PREDEF_USBCON Fn_usbcon_def_predefine_action]\<rparr>"

lemma usb_entry_never_freed_witness:
  "\<exists>e. rq_state e = SS_STATE_RUNNING \<and> forked_pid e = 1 \<and>
    e \<in> set (run_queue (exec (core_pipe_cb plugged_env (run_action plugged_env))
      (exec (ss_action_entry_call_internal plugged_env (Some PREDEF_USBCON) 0 []) plugged_state)))"
proof -
  have "daemon_inv plugged_state"
    by (simp add: plugged_state_def daemon_inv_def queue_inv_def queue_shape_def entries_ok_def table_ok_def
        queue_typed_def table_entry_def well_bound_def)
  moreover have "malloc_ok plugged_env" by (simp add: malloc_ok_def plugged_env_def)
  moreover have "action_lookup plugged_state PREDEF_USBCON = Some (table_entry PREDEF_USBCON Fn_usbcon_def_predefine_action)"
    by (simp add: action_lookup_def plugged_state_def table_entry_def)
  ultimately show ?thesis
    using usb_entry_never_freed [of plugged_state plugged_env, where v = 1]
    by (auto simp: plugged_env_def plugged_state_def table_entry_def)
qed

text \<open>
  C3: The daemon implements the scheduler: whatever callbacks run in whatever order, the
  table, the queue and the pipe go through a run of the abstract machine that submits jobs,
  starts or finishes those that wait, and removes a job when the death of its process has
  been reported.  That run reports no death the kernel has not reported, and calls the
  function of no job twice.
\<close>

theorem daemon_refines_scheduler:
  assumes "daemon_inv s" "daemon_run E s evs t" "alive t"
  shows "\<exists>ls. sched_run (sched_of s) ls (sched_of t) \<and>
    reports ls \<subseteq> (\<Union>ev \<in> set evs. deaths_in ev) \<and> distinct (calls_of ls)"
  using daemon_schedules [OF assms(2,1,3)] by blast

lemma daemon_refines_scheduler_witness:
  "\<exists>ls. sched_run (sched_of (started start_env Map.empty)) ls (sched_of waiting_state) \<and> reports ls = {}"
proof -
  have "daemon_run start_env (started start_env Map.empty) [Device (Storage_key False)] waiting_state"
    unfolding waiting_state_def by (rule daemon_run_one [OF started_alive]) simp
  from daemon_refines_scheduler [OF daemon_inv_started this] show ?thesis
    using waiting_queue by auto
qed

text \<open>
  C20: A request keeps its identity: an entry of the queue whose address is not newer than
  an earlier state was in the queue of that state, for the same action with the same
  arguments, and unless it still waited there it has the state and the process it had.
  So an entry never goes back to waiting, changes its process or comes back once freed.
\<close>

theorem request_life_cycle:
  assumes "daemon_inv s" "daemon_run E s evs t" "alive t" "f \<in> set (run_queue t)" "rq_addr f < next_addr s"
  shows "\<exists>e \<in> set (run_queue s). rq_addr e = rq_addr f \<and> rq_action_entry e = rq_action_entry f \<and>
    rq_argc e = rq_argc f \<and> rq_argv e = rq_argv f \<and>
    (rq_state e = SS_STATE_INIT \<or> rq_state f = rq_state e \<and> forked_pid f = forked_pid e)"
proof -
  have "job_of f \<in> set (jobs (sched_of t))" "job_id (job_of f) < next_job (sched_of s)"
    using assms(4,5) by (simp_all add: sched_of_def) (simp add: job_of_def)
  then obtain j where j: "j \<in> set (jobs (sched_of s))" "job_later j (job_of f)"
    using daemon_schedules [OF assms(2,1,3)] unfolding aged_def by blast
  then obtain e where e: "e \<in> set (run_queue s)" "job_later (job_of e) (job_of f)"
    by (auto simp: sched_of_def)
  have ok: "entry_ok (rq_state x) (forked_pid x) (run_pending u) (clear_pending u)"
    if "daemon_inv u" "alive u" "x \<in> set (run_queue u)" for x u
    using that by (simp add: daemon_inv_def queue_inv_def entries_ok_def)
  have "daemon_inv t" using daemon_inv_run [OF assms(2,1)] .
  then have "entry_ok (rq_state f) (forked_pid f) (run_pending t) (clear_pending t)"
    "entry_ok (rq_state e) (forked_pid e) (run_pending s) (clear_pending s)"
    using ok assms(1,3,4) e(1) daemon_run_alive [OF assms(2,3)] by blast+
  then show ?thesis
    using e by (intro bexI [of _ e]; cases "rq_state e"; cases "rq_state f") (simp_all add: job_later_def job_of_def)
qed

lemma request_life_cycle_witness:
  "\<exists>f. run_queue (exec (sig_child_handler env1 5) (running_state 7)) = [f] \<and> forked_pid f = 7"
proof -
  let ?t = "exec (sig_child_handler env1 5) (running_state 7)"
  obtain f where f: "run_queue ?t = [f]" "rq_addr f = 0"
    by (simp add: running_state_def sig_child_handler_def)
  have "\<exists>e \<in> set (run_queue (running_state 7)). rq_addr e = rq_addr f \<and> rq_action_entry e = rq_action_entry f \<and>
      rq_argc e = rq_argc f \<and> rq_argv e = rq_argv f \<and>
      (rq_state e = SS_STATE_INIT \<or> rq_state f = rq_state e \<and> forked_pid f = forked_pid e)"
    by (rule request_life_cycle [OF running_state_inv sigchld_running])
      (use f in \<open>simp_all add: running_state_def sig_child_handler_def\<close>)
  then show ?thesis using f by (auto simp: running_state_def)
qed

text \<open>
  C19: A process whose end has been reported does not stay in the queue: once the message of
  the signal handler is in the pipe, wherever it stands there and even when it was written
  before the pid was stored, the entry that runs the process is gone when the pipe is empty.
\<close>

theorem reported_death_frees_entry:
  assumes "daemon_inv s" "e \<in> set (run_queue s)" "rq_state e = SS_STATE_RUNNING"
    and "clear_msg (forked_pid e) \<in> set (core_pipe s)" "alive s"
    and "\<And>h. e_ret E h (ECORE Fd_handler_active) \<noteq> 0" "work s \<le> n"
  defines "t \<equiv> pipe_callbacks E (run_action E) n s"
  assumes "alive t"
  shows "core_pipe t = [] \<and> (\<forall>f \<in> set (run_queue t). rq_addr f \<noteq> rq_addr e)"
proof -
  have q: "queue_inv s" using assms(1) by (simp add: daemon_inv_def)
  then have "queue_shape s" using assms(5) by (simp add: queue_inv_def)
  then have "f = e" if "f \<in> set (run_queue s)" "rq_addr f = rq_addr e" for f
    using rq_find_unique [of s] that assms(2) by (metis option.inject)
  then have "doomed (rq_addr e) (forked_pid e) s" using assms(3,4) by (auto simp: doomed_def)
  from daemon.doomed_freed [OF this assms(1,6,7)] daemon.pipe_callbacks_drain [OF q assms(6,7)]
  show ?thesis using assms(9) by (simp add: t_def)
qed

text \<open>The state above after the kernel has reported the end of process 7.\<close>

definition ended_state :: ss where
  "ended_state = (running_state 7)\<lparr>core_pipe := [clear_msg 7]\<rparr>"

lemma reported_death_frees_entry_witness:
  "run_queue (pipe_callbacks start_env (run_action start_env) 1 ended_state) = []"
proof -
  let ?t = "pipe_callbacks start_env (run_action start_env) 1 ended_state"
  have t: "alive ?t" "set (run_queue ?t) \<subseteq> set (run_queue ended_state)"
    by (simp_all add: ended_state_def running_state_def exec_core_pipe_cb)
  obtain e where e: "run_queue ended_state = [e]" "rq_state e = SS_STATE_RUNNING" "forked_pid e = 7"
    by (simp add: ended_state_def running_state_def)
  have inv: "daemon_inv ended_state"
    using running_state_inv [of 7]
    by (auto simp: ended_state_def daemon_inv_def queue_inv_def queue_shape_def entries_ok_def table_ok_def
        queue_typed_def running_state_def msg_ok_def)
  have "\<forall>f \<in> set (run_queue ?t). rq_addr f \<noteq> rq_addr e"
  proof -
    have "alive ended_state" "core_pipe ended_state = [clear_msg 7]"
      by (simp_all add: ended_state_def running_state_def)
    moreover have "work ended_state = 1" using calculation(2) e by (simp add: work_def is_init_def)
    ultimately show ?thesis
      using reported_death_frees_entry [OF inv, of e start_env 1] e t(1) by simp
  qed
  then show ?thesis using t(2) e(1) by (cases "run_queue ?t") auto
qed

text \<open>
  C25: Once the daemon has started with enough memory, every name of a built-in action is
  in the table for good, and what is found there is the built-in function, or the function
  of a shared object that was loaded first and carries the path of that object.
\<close>

theorem builtin_names_bound:
  assumes "reachable E s" "malloc_ok E" "alive s" "home_name f = Some t"
  shows "\<exists>d. action_lookup s t = Some d \<and> ae_type d = t \<and>
    (predefine_action d = f \<or> predefine_action d = Fn_ext (ae_path d))"
  using reachable_lookup [OF assms] lookup_mem by blast

lemma builtin_names_bound_witness:
  "\<exists>d. action_lookup (started start_env Map.empty) PREDEF_POWEROFF = Some d"
  using builtin_names_bound [OF reachable_started [of start_env Map.empty], of Fn_poweroff_def_predefine_action
      PREDEF_POWEROFF] idle_started
  by (auto simp: idle_def)

section \<open>Command lines\<close>

text \<open>
  C29: A command line built from arguments by putting a backslash before every character
  and a space between the arguments is cut back into the same arguments, whatever characters
  they contain, but for an empty last argument, which is lost; an empty command line is
  refused.  That holds if there are fewer arguments than the array has room for; with that
  many or more the closing NULL is written behind the array.
\<close>

theorem command_line_round_trip:
  fixes max_args :: nat
  assumes "alive s" "e_ret E (trace s) (OS (Malloc (int (length (cmd_of ws)) + 1))) \<noteq> 0"
  defines "r \<equiv> run_state (parse_cmd E (Some (cmd_of ws)) max_args) s"
    and "us \<equiv> (if ws \<noteq> [] \<and> last ws = [] then butlast ws else ws)"
  shows "if ws = [] \<or> ws = [[]] then r = ((-1, []), s)
    else if length us < max_args then fst r = (int (length us) + 1, us) \<and> halted (snd r) = None
    else halted (snd r) = Some OutOfBounds"
proof (cases "cmd_of ws = []")
  case True
  then show ?thesis by (auto simp: cmd_of_empty r_def parse_cmd_def State_Monad.return_def)
next
  case False
  then have ne: "ws \<noteq> []" "\<not> (ws = [] \<or> ws = [[]])" using cmd_of_empty [of ws] by auto
  define M where "M = max (length ws) (Suc (length (cmd_of ws)))"
  have "parse_args M (cmd_of ws) = us"
    using parse_cmd_of [OF ne(1), of "[]" M]
    by (simp add: parse_args_def between_def parse_init_def M_def us_def heard_def)
  moreover have "length (all_args (cmd_of ws)) \<le> Suc (length (cmd_of ws))"
    using length_all_args by blast
  ultimately have all: "all_args (cmd_of ws) = us"
    using parse_args_all [of M "cmd_of ws"] by (simp add: M_def)
  have "halted (snd r) = (if length us < max_args then None else Some OutOfBounds)"
    using parse_cmd_overflow [OF assms(1) False assms(2)] all by (simp add: r_def exec_def)
  moreover have "fst r = (int (length (take max_args us)) + 1, take max_args us)"
    using False assms(2) result_def [of "parse_cmd E (Some (cmd_of ws)) max_args" s]
    by (simp add: r_def parse_cmd_def parse_args_all all Let_def)
  ultimately show ?thesis using ne by simp
qed

lemma command_line_round_trip_witness:
  "fst (run_state (parse_cmd env1 (Some (cmd_of [''/bin/x'', ''a b''])) 256) boot) = (3, [''/bin/x'', ''a b''])"
  using command_line_round_trip [of boot env1 "[''/bin/x'', ''a b'']" 256] by simp

end
